(* ===== verification/GoPath.thy ===== *)
theory GoPath
  imports Prelude
begin

text \<open>
  The functions of Go's \<^verbatim>\<open>path\<close> and \<^verbatim>\<open>path/filepath\<close> packages (on Unix the two agree)
  that the sources call: \<^verbatim>\<open>Clean\<close>, \<^verbatim>\<open>Join\<close>, \<^verbatim>\<open>Base\<close>, \<^verbatim>\<open>Dir\<close>, \<^verbatim>\<open>IsAbs\<close> and
  \<^verbatim>\<open>Rel\<close>.  They are defined over the list of components between slashes.  The lemmas say
  what a cleaned path looks like, that cleaning is idempotent, and how \<^verbatim>\<open>Join\<close>,
  \<^verbatim>\<open>Dir\<close> and \<^verbatim>\<open>Rel\<close> act on an absolute root extended by clean components: the facts the
  workspace and artifact checks rest on.
\<close>

abbreviation slash :: char where
  "slash \<equiv> CHR ''/''"

section \<open>Definitions\<close>

text \<open>One component of the path, against the stack (top first) of components kept so far.\<close>

definition clean_step :: "bool \<Rightarrow> string list \<Rightarrow> string \<Rightarrow> string list" where
  "clean_step rooted st c =
     (if c = [] \<or> c = ''.'' then st
      else if c = ''..'' then
        (case st of
           [] \<Rightarrow> if rooted then [] else [''..'']
         | t # ts \<Rightarrow> if t = ''..'' then ''..'' # st else ts)
      else c # st)"

definition clean_comps :: "bool \<Rightarrow> string list \<Rightarrow> string list" where
  "clean_comps rooted cs = rev (foldl (clean_step rooted) [] cs)"

definition IsAbs :: "string \<Rightarrow> bool" where
  "IsAbs p = HasPrefix p ''/''"

text \<open>A path as its rootedness and its cleaned components, and back.\<close>

definition comps :: "string \<Rightarrow> string list" where
  "comps p = clean_comps (IsAbs p) (Split slash p)"

definition render :: "bool \<Rightarrow> string list \<Rightarrow> string" where
  "render rooted cs =
     (if rooted then slash # Join slash cs else if cs = [] then ''.'' else Join slash cs)"

definition Clean :: "string \<Rightarrow> string" where
  "Clean p = render (IsAbs p) (comps p)"

text \<open>\<^verbatim>\<open>filepath.Join\<close> of two elements: empty elements are ignored.\<close>

definition PJoin :: "string \<Rightarrow> string \<Rightarrow> string" where
  "PJoin a b =
     (if a = [] \<and> b = [] then []
      else if a = [] then Clean b else if b = [] then Clean a else Clean (a @ slash # b))"

definition Base :: "string \<Rightarrow> string" where
  "Base p =
     (if p = [] then ''.''
      else let s = TrimRight slash p in if s = [] then ''/'' else last (Split slash s))"

text \<open>\<^verbatim>\<open>filepath.Dir\<close>: everything up to the last slash, cleaned.\<close>

definition Dir :: "string \<Rightarrow> string" where
  "Dir p = Clean (Join slash (butlast (Split slash p) @ [[]]))"

text \<open>\<^verbatim>\<open>filepath.Rel\<close>: strip the common components, climb out of what is left of the base.
  Only the first component that differs is compared with \<^verbatim>\<open>..\<close>.\<close>

fun strip_common :: "string list \<Rightarrow> string list \<Rightarrow> string list \<times> string list" where
  "strip_common (b # bs) (t # ts) = (if b = t then strip_common bs ts else (b # bs, t # ts))"
| "strip_common bs ts = (bs, ts)"

definition Rel :: "string \<Rightarrow> string \<Rightarrow> string option" where
  "Rel base targ =
     (if IsAbs base \<noteq> IsAbs targ then None
      else case strip_common (comps base) (comps targ) of
        (bs, ts) \<Rightarrow>
          if bs \<noteq> [] \<and> ts \<noteq> [] \<and> hd bs = ''..'' then None
          else Some (render False (replicate (length bs) ''..'' @ ts)))"

section \<open>What a clean component list is\<close>

text \<open>A name is a component that is neither empty, nor \<^verbatim>\<open>.\<close>, nor \<^verbatim>\<open>..\<close>, and has no
  slash in it.\<close>

definition is_name :: "string \<Rightarrow> bool" where
  "is_name c = (c \<noteq> [] \<and> c \<noteq> ''.'' \<and> c \<noteq> ''..'' \<and> slash \<notin> set c)"

text \<open>A clean list: names, after some leading \<^verbatim>\<open>..\<close> when the path is relative.\<close>

definition clean_list :: "bool \<Rightarrow> string list \<Rightarrow> bool" where
  "clean_list rooted cs =
     (\<exists>k ns. cs = replicate k ''..'' @ ns \<and> list_all is_name ns \<and> (rooted \<longrightarrow> k = 0))"

lemma is_nameD:
  "is_name c \<Longrightarrow> c \<noteq> []" "is_name c \<Longrightarrow> c \<noteq> ''.''" "is_name c \<Longrightarrow> c \<noteq> ''..''"
  "is_name c \<Longrightarrow> slash \<notin> set c"
  by (simp_all add: is_name_def)

lemma clean_list_names: "list_all is_name ns \<Longrightarrow> clean_list rooted ns"
  unfolding clean_list_def by (rule exI [of _ 0]) auto

lemma clean_list_rooted: "clean_list True cs \<longleftrightarrow> list_all is_name cs"
  by (auto simp: clean_list_def)

lemma clean_step_name: "is_name c \<Longrightarrow> clean_step rooted st c = c # st"
  by (simp add: clean_step_def is_name_def)

lemma foldl_clean_names:
  "list_all is_name ns \<Longrightarrow> foldl (clean_step rooted) st ns = rev ns @ st"
  by (induction ns arbitrary: st) (simp_all add: clean_step_name)

lemma foldl_clean_dotdots:
  "foldl (clean_step False) (replicate m ''..'') (replicate k ''..'') = replicate (m + k) ''..''"
proof (induction k arbitrary: m)
  case (Suc k)
  have "clean_step False (replicate m ''..'') ''..'' = replicate (Suc m) ''..''"
    by (cases m) (simp_all add: clean_step_def)
  then show ?case using Suc [of "Suc m"] by simp
qed simp

lemma clean_comps_fixed: "clean_list rooted cs \<Longrightarrow> clean_comps rooted cs = cs"
proof -
  assume "clean_list rooted cs"
  then obtain k ns where cs: "cs = replicate k ''..'' @ ns" and ns: "list_all is_name ns"
    and r: "rooted \<longrightarrow> k = 0"
    by (auto simp: clean_list_def)
  have "foldl (clean_step rooted) [] (replicate k ''..'') = replicate k ''..''"
    using r foldl_clean_dotdots [of 0 k] by (cases rooted) auto
  with cs ns show ?thesis
    by (simp add: clean_comps_def foldl_clean_names)
qed

lemma clean_step_clean:
  assumes "clean_list rooted (rev st)" and "slash \<notin> set c"
  shows "clean_list rooted (rev (clean_step rooted st c))"
proof -
  obtain k ns where st: "rev st = replicate k ''..'' @ ns" and ns: "list_all is_name ns"
    and r: "rooted \<longrightarrow> k = 0"
    using assms(1) by (auto simp: clean_list_def)
  then have st': "st = rev ns @ replicate k ''..''"
    by (metis rev_append rev_replicate rev_rev_ident)
  consider "c = [] \<or> c = ''.''" | "c = ''..''" | "is_name c"
    using assms(2) by (auto simp: is_name_def)
  then show ?thesis
  proof cases
    case 1
    then show ?thesis using assms(1) by (simp add: clean_step_def)
  next
    case 2
    show ?thesis
    proof (cases ns rule: rev_cases)
      case Nil
      then show ?thesis
        using 2 st' r by (cases k) (auto simp: clean_step_def clean_list_def replicate_append_same
          intro: exI [of _ "Suc k"] exI [of _ "Suc 0"] exI [of _ "Suc (Suc 0)"])
    next
      case (snoc ms m)
      then have "m \<noteq> ''..''" using ns by (simp add: is_name_def)
      then have "rev (clean_step rooted st c) = replicate k ''..'' @ ms"
        using snoc 2 st' by (simp add: clean_step_def)
      then show ?thesis
        using ns r snoc by (auto simp: clean_list_def)
    qed
  next
    case 3
    then have "rev (clean_step rooted st c) = replicate k ''..'' @ (ns @ [c])"
      using st by (simp add: clean_step_name)
    then show ?thesis
      unfolding clean_list_def using ns 3 r by (intro exI [of _ k] exI [of _ "ns @ [c]"]) simp
  qed
qed

lemma foldl_clean_clean:
  "clean_list rooted (rev st) \<Longrightarrow> \<forall>c \<in> set cs. slash \<notin> set c \<Longrightarrow>
     clean_list rooted (rev (foldl (clean_step rooted) st cs))"
  by (induction cs arbitrary: st) (simp_all add: clean_step_clean)

lemma clean_comps_clean: "clean_list (IsAbs p) (comps p)"
  unfolding comps_def clean_comps_def
  by (rule foldl_clean_clean) (auto simp: clean_list_names dest: Split_no_sep)

lemma comps_names_abs: "IsAbs p \<Longrightarrow> list_all is_name (comps p)"
  using clean_comps_clean [of p] by (simp add: clean_list_rooted)

lemma clean_list_cases: "clean_list rooted cs \<Longrightarrow> c \<in> set cs \<Longrightarrow> c = ''..'' \<or> is_name c"
  unfolding clean_list_def list_all_iff by (metis Un_iff in_set_replicate set_append)

lemma clean_list_no_slash: "clean_list rooted cs \<Longrightarrow> c \<in> set cs \<Longrightarrow> slash \<notin> set c"
  by (drule (1) clean_list_cases) (auto dest: is_nameD)

lemma clean_list_nonempty: "clean_list rooted cs \<Longrightarrow> c \<in> set cs \<Longrightarrow> c \<noteq> []"
  by (drule (1) clean_list_cases) (auto dest: is_nameD)

section \<open>Clean\<close>

lemma clean_list_Nil [simp]: "clean_list rooted []"
  by (simp add: clean_list_names)

lemma IsAbs_Cons [gopath, simp]: "IsAbs (c # s) = (c = slash)"
  by (simp add: IsAbs_def HasPrefix_def)

lemma IsAbs_Nil [gopath, simp]: "\<not> IsAbs []"
  by (simp add: IsAbs_def HasPrefix_def)

lemma clean_comps_empty_first [simp]: "clean_comps r ([] # cs) = clean_comps r cs"
  by (simp add: clean_comps_def clean_step_def)

lemma IsAbs_append [gopath, simp]: "a \<noteq> [] \<Longrightarrow> IsAbs (a @ b) = IsAbs a"
  by (cases a) simp_all

lemma clean_comps_of_Join:
  assumes "clean_list r cs"
  shows "clean_comps r (Split slash (Join slash cs)) = cs"
proof (cases "cs = []")
  case True
  then show ?thesis by (simp add: clean_comps_def clean_step_def)
next
  case False
  then have "Split slash (Join slash cs) = cs"
    using clean_list_no_slash [OF assms] by (intro Split_Join) auto
  then show ?thesis by (simp add: clean_comps_fixed assms)
qed

lemma Join_not_abs:
  assumes "clean_list r cs"
  shows "\<not> IsAbs (Join slash cs)"
proof (cases cs)
  case (Cons c ds)
  with assms have "c \<noteq> []" and "slash \<notin> set c"
    using clean_list_no_slash [OF assms] clean_list_nonempty [OF assms] by auto
  then obtain x y where "c = x # y" and "x \<noteq> slash" by (cases c) auto
  then show ?thesis using Cons by (cases ds) simp_all
qed simp

lemma IsAbs_render: "clean_list r cs \<Longrightarrow> IsAbs (render r cs) = r"
  by (simp add: render_def Join_not_abs)

text \<open>A rendered clean list reads back as itself.\<close>

lemma comps_render: "clean_list r cs \<Longrightarrow> comps (render r cs) = cs"
proof -
  assume cl: "clean_list r cs"
  show ?thesis
  proof (cases r)
    case True
    then show ?thesis
      using cl clean_comps_of_Join [OF cl] by (simp add: render_def comps_def)
  next
    case False
    then show ?thesis
      using cl clean_comps_of_Join [OF cl] Join_not_abs [OF cl]
      by (simp add: render_def comps_def clean_comps_def clean_step_def)
  qed
qed

lemma IsAbs_Clean [gopath, simp]: "IsAbs (Clean p) = IsAbs p"
  by (simp add: Clean_def IsAbs_render clean_comps_clean)

lemma comps_Clean [gopath, simp]: "comps (Clean p) = comps p"
  by (simp add: Clean_def comps_render clean_comps_clean)

lemma Clean_Clean [gopath, simp]: "Clean (Clean p) = Clean p"
  by (simp add: Clean_def [of "Clean p"]) (simp add: Clean_def)

lemma Clean_nonempty [simp]: "Clean p \<noteq> []"
  using clean_list_nonempty [OF clean_comps_clean [of p]]
  by (auto simp: Clean_def render_def Join_eq_Nil)

lemma Clean_render: "clean_list r cs \<Longrightarrow> Clean (render r cs) = render r cs"
  by (simp add: Clean_def comps_render IsAbs_render)

section \<open>Join, Dir, Base and Rel\<close>

lemma Split_append: "Split sep (a @ sep # b) = Split sep a @ Split sep b"
  by (induction a) (auto split: list.splits)

lemma clean_comps_append:
  "clean_comps r (xs @ ys) = clean_comps r (clean_comps r xs @ ys)"
  if "\<forall>c \<in> set xs. slash \<notin> set c"
proof -
  have "clean_list r (rev (foldl (clean_step r) [] xs))"
    by (rule foldl_clean_clean) (use that in auto)
  then have "foldl (clean_step r) [] (rev (foldl (clean_step r) [] xs)) =
      foldl (clean_step r) [] xs"
    using clean_comps_fixed by (metis clean_comps_def rev_rev_ident)
  then show ?thesis by (simp add: clean_comps_def)
qed

lemma comps_join: "a \<noteq> [] \<Longrightarrow> comps (a @ slash # b) = clean_comps (IsAbs a) (comps a @ Split slash b)"
  by (simp add: comps_def Split_append clean_comps_append [of "Split slash a"] Split_no_sep)

lemma IsAbs_PJoin [gopath]: "IsAbs r \<Longrightarrow> IsAbs (PJoin r b)"
  by (auto simp: PJoin_def)

lemma comps_PJoin: "IsAbs r \<Longrightarrow> comps (PJoin r b) = clean_comps True (comps r @ Split slash b)"
proof -
  assume r: "IsAbs r"
  then have "r \<noteq> []" by auto
  moreover have "clean_comps True (comps r @ [[]]) = comps r"
    using clean_comps_fixed [OF clean_comps_clean [of r]] r
    by (simp add: clean_comps_def clean_step_def)
  ultimately show ?thesis using r by (simp add: PJoin_def comps_join)
qed

text \<open>Everything an absolute path function returns is the rendering of its components.\<close>

lemma PJoin_render: "IsAbs r \<Longrightarrow> PJoin r b = render True (comps (PJoin r b))"
  by (auto simp: PJoin_def Clean_def comps_render clean_comps_clean
      clean_list_rooted comps_names_abs)

lemma clean_comps_names [simp]: "list_all is_name ns \<Longrightarrow> clean_comps r ns = ns"
  by (simp add: clean_comps_fixed clean_list_names)

lemma Split_Join_names: "list_all is_name ns \<Longrightarrow> ns \<noteq> [] \<Longrightarrow> Split slash (Join slash ns) = ns"
  by (rule Split_Join) (auto simp: list_all_iff dest: is_nameD)

lemma PJoin_names:
  "IsAbs r \<Longrightarrow> list_all is_name ns \<Longrightarrow> ns \<noteq> [] \<Longrightarrow>
     PJoin r (Join slash ns) = render True (comps r @ ns)"
  by (subst PJoin_render) (simp_all add: comps_PJoin Split_Join_names comps_names_abs)

lemma Split_name [simp]: "is_name c \<Longrightarrow> Split slash c = [c]"
  by (simp add: Split_one is_nameD)

lemma PJoin_name: "IsAbs r \<Longrightarrow> is_name c \<Longrightarrow> PJoin r c = render True (comps r @ [c])"
  using PJoin_names [of r "[c]"] by simp

lemma render_True_inj: "render True xs = render True ys \<Longrightarrow> list_all is_name xs \<Longrightarrow>
    list_all is_name ys \<Longrightarrow> xs = ys"
  by (metis clean_list_names comps_render)

lemma Dir_render:
  assumes "list_all is_name (ns @ [c])"
  shows "Dir (render True (ns @ [c])) = render True ns"
proof -
  have "Split slash (render True (ns @ [c])) = [] # ns @ [c]"
    using assms by (simp add: render_def Split_Join_names)
  then have "Dir (render True (ns @ [c])) = Clean (Join slash (([] # ns) @ [[]]))"
    by (simp add: Dir_def butlast_append)
  also have "\<dots> = render True ns"
  proof (cases "ns = []")
    case True
    then show ?thesis by (simp add: Clean_def comps_def render_def clean_comps_def clean_step_def)
  next
    case False
    then have "Join slash (([] # ns) @ [[]]) = render True ns @ [slash]"
      by (simp add: Join_append Join_Cons render_def)
    moreover have "comps (render True ns @ [slash]) = clean_comps True (ns @ [[]])"
      using assms comps_join [of "render True ns" "[]"] comps_render [of True ns]
      by (simp add: clean_list_names IsAbs_render) (simp add: render_def)
    moreover have "clean_comps True (ns @ [[]]) = ns"
      using assms by (simp add: clean_comps_def foldl_clean_names clean_step_def)
    ultimately show ?thesis
      by (simp add: Clean_def) (simp add: render_def)
  qed
  finally show ?thesis .
qed

text \<open>The check the sources make on a relative path before they use it.\<close>

definition escapes :: "string \<Rightarrow> bool" where
  "escapes rel = (rel = ''..'' \<or> HasPrefix rel ''../'')"

lemma escapes_render:
  assumes "clean_list False cs"
  shows "escapes (render False cs) \<longleftrightarrow> (\<exists>ds. cs = ''..'' # ds)"
proof (cases cs)
  case Nil
  then show ?thesis by (simp add: escapes_def render_def HasPrefix_def)
next
  case (Cons c ds)
  have ns: "slash \<notin> set c" using Cons clean_list_no_slash [OF assms] by simp
  show ?thesis
  proof (cases ds)
    case Nil
    with Cons ns show ?thesis by (auto simp: escapes_def render_def HasPrefix_iff)
  next
    case (Cons d es)
    let ?rest = "Join slash (d # es)"
    have "render False cs = c @ slash # ?rest"
      using \<open>cs = c # ds\<close> Cons by (simp add: render_def)
    moreover have "c @ slash # ?rest = ''..'' @ slash # r \<Longrightarrow> c = ''..''" for r
      using ns Split_append_sep [of slash c ?rest] Split_append_sep [of slash "''..''" r] by auto
    moreover have "c @ slash # ?rest \<noteq> ''..''"
      by (cases c; cases "tl c") auto
    ultimately have "escapes (render False cs) \<longleftrightarrow> c = ''..''"
      unfolding escapes_def HasPrefix_iff by auto
    then show ?thesis using \<open>cs = c # ds\<close> by simp
  qed
qed

lemma strip_common_eq:
  "strip_common bs ts = (bs', ts') \<Longrightarrow> \<exists>cs. bs = cs @ bs' \<and> ts = cs @ ts'"
  by (induction bs ts rule: strip_common.induct) (auto split: if_splits)

lemma strip_common_append [simp]: "strip_common bs (bs @ ts) = ([], ts)"
  by (induction bs) (cases ts, simp_all)

lemma Rel_names:
  "IsAbs r \<Longrightarrow> list_all is_name ns \<Longrightarrow>
     Rel r (render True (comps r @ ns)) = Some (render False ns)"
  by (simp add: Rel_def comps_render IsAbs_render clean_list_names comps_names_abs)

text \<open>\<^verbatim>\<open>Rel\<close> followed by the escape check decides lexical containment.\<close>

lemma Rel_contained:
  assumes "IsAbs r" and "IsAbs t"
  shows "(\<exists>rel. Rel r t = Some rel \<and> \<not> escapes rel) \<longleftrightarrow> (\<exists>ns. comps t = comps r @ ns)"
proof -
  obtain bs ts where st: "strip_common (comps r) (comps t) = (bs, ts)" by fastforce
  then obtain cs where cs: "comps r = cs @ bs" "comps t = cs @ ts"
    using strip_common_eq by blast
  have nb: "list_all is_name bs" and nt: "list_all is_name ts"
    using comps_names_abs [OF assms(1)] comps_names_abs [OF assms(2)] cs by simp_all
  then have "\<not> (bs \<noteq> [] \<and> hd bs = ''..'')" by (cases bs) (auto dest: is_nameD)
  then have rel: "Rel r t = Some (render False (replicate (length bs) ''..'' @ ts))"
    using assms st by (auto simp: Rel_def)
  have "clean_list False (replicate (length bs) ''..'' @ ts)"
    using nt by (auto simp: clean_list_def)
  then have esc: "escapes (render False (replicate (length bs) ''..'' @ ts)) \<longleftrightarrow> bs \<noteq> []"
    using nt by (subst escapes_render) (cases bs; cases ts; auto dest: is_nameD)+
  have "bs = []" if "comps t = comps r @ ns" for ns
    using that st by simp
  with rel esc cs show ?thesis by auto
qed

lemma last_Split_no_slash: "slash \<notin> set (last (Split slash s))"
  using Split_no_sep [of "last (Split slash s)" slash s] by (auto simp: last_in_set)

lemma Base_no_slash: "Base p = ''/'' \<or> slash \<notin> set (Base p)"
  by (simp add: Base_def Let_def last_Split_no_slash)

lemma last_Split_append: "last (Split sep (a @ sep # b)) = last (Split sep b)"
  by (simp add: Split_append)

lemma last_Split_nonempty: "s \<noteq> [] \<Longrightarrow> last s \<noteq> sep \<Longrightarrow> last (Split sep s) \<noteq> []"
proof (induction s)
  case (Cons c s)
  then show ?case by (cases "s = []") (auto split: list.splits)
qed simp

lemma TrimRight_last: "TrimRight c s \<noteq> [] \<Longrightarrow> last (TrimRight c s) \<noteq> c"
  unfolding TrimRight_def using hd_dropWhile [of "\<lambda>x. x = c" "rev s"] by (auto simp only: rev_is_Nil_conv last_rev)

lemma TrimRight_id: "s \<noteq> [] \<Longrightarrow> last s \<noteq> c \<Longrightarrow> TrimRight c s = s"
  by (cases s rule: rev_cases) (simp_all add: TrimRight_def)

lemma Base_nonempty: "Base p \<noteq> []"
proof (cases "p = [] \<or> TrimRight slash p = []")
  case False
  then show ?thesis
    using last_Split_nonempty [OF _ TrimRight_last] by (simp add: Base_def Let_def)
qed (auto simp: Base_def)

lemma Base_Base [simp]: "Base (Base p) = Base p"
proof (cases "p = [] \<or> TrimRight slash p = []")
  case False
  let ?b = "last (Split slash (TrimRight slash p))"
  have b: "Base p = ?b" using False by (simp add: Base_def Let_def)
  have "slash \<notin> set ?b" by (rule last_Split_no_slash)
  moreover have "?b \<noteq> []" using Base_nonempty [of p] b by simp
  ultimately have "TrimRight slash ?b = ?b" "Split slash ?b = [?b]"
    by (auto intro!: TrimRight_id Split_one dest: last_in_set)
  with \<open>?b \<noteq> []\<close> show ?thesis unfolding b by (simp add: Base_def Let_def)
next
  case True
  have "Base ''.'' = ''.''" "Base ''/'' = ''/''" by code_simp+
  moreover have "Base p = ''.'' \<or> Base p = ''/''" using True unfolding Base_def [of p] Let_def by auto
  ultimately show ?thesis by auto
qed

end
