(* ===== verification/JobModel.thy ===== *)
theory JobModel
  imports GoPath
begin

text \<open>
  Package \<^verbatim>\<open>internal/job\<close> (\<^verbatim>\<open>model.go\<close>): the job protocol's data and \<^verbatim>\<open>Job.Validate\<close>,
  and the message types of \<^verbatim>\<open>internal/guestproto\<close>.  Go's \<^verbatim>\<open>int\<close> fields are \<^typ>\<open>int\<close>; a
  \<^verbatim>\<open>time.Time\<close> is the number of nanoseconds since Go's zero time.  \<^verbatim>\<open>Validate\<close> returns
  the error of the first check that fails, or \<open>None\<close>; every error of the source is a
  constructor of \<open>job_error\<close>.

  The lemmas say exactly which jobs pass (\<open>Validate_accepts\<close>), that the error reported is
  the one of the first failing check, which artifact paths pass, and that a valid job id
  can be embedded in a directory, cgroup or URL component.
\<close>

section \<open>Protocol data\<close>

definition ProtocolVersion :: int where "ProtocolVersion = 1"

definition maxCommandLength :: nat where "maxCommandLength = 4 * 1024"
definition maxArgumentLength :: nat where "maxArgumentLength = 4 * 1024"
definition maxArguments :: nat where "maxArguments = 128"
definition maxTotalArgBytes :: nat where "maxTotalArgBytes = 32 * 1024"

record platform =
  pOS :: string
  pArch :: string

definition platform_String :: "platform \<Rightarrow> string" where
  "platform_String p = pOS p @ ''/'' @ pArch p"

record resources =
  resCPU :: int
  resMemoryMB :: int
  resDiskMB :: int

record job =
  jVersion :: int
  jID :: string
  jCommand :: string
  jArgs :: "string list"
  jCWD :: string
  jPlatform :: platform
  jResources :: resources
  jTimeoutSeconds :: int
  jArtifacts :: "string list"
  jNetwork :: string

text \<open>The worker's description of itself.\<close>

record resource_snapshot =
  snapCPUCores :: int
  snapMemoryTotalMB :: int
  snapMemoryAvailableMB :: int

record executor_capability =
  capPlatform :: platform
  capIsolation :: string

record worker_info =
  wiName :: string
  wiHost :: platform
  wiResources :: resource_snapshot
  wiExecutors :: "executor_capability list"
  wiNetworkModes :: "string list"

text \<open>Streamed events.  A Go \<^verbatim>\<open>EventType\<close> is a string; the six constants are constructors,
  any other string is \<open>EventOther\<close>.\<close>

datatype event_type =
  EventStatus | EventStdout | EventStderr | EventArtifact | EventCompletion | EventFailure
| EventOther string

record job_result =
  rWorker :: string
  rStartedAt :: int
  rEndedAt :: int
  rDurationMillis :: int
  rExitCode :: int
  rPeakMemoryBytes :: int
  rCPUTimeMillis :: int
  rBytesUploaded :: int
  rBytesDownloaded :: int
  rTerminationReason :: string

text \<open>Go's zero value of \<^verbatim>\<open>job.Result\<close>.\<close>

definition zero_result :: job_result where
  "zero_result = \<lparr>rWorker = [], rStartedAt = 0, rEndedAt = 0, rDurationMillis = 0, rExitCode = 0,
     rPeakMemoryBytes = 0, rCPUTimeMillis = 0, rBytesUploaded = 0, rBytesDownloaded = 0,
     rTerminationReason = []\<rparr>"

record failure =
  fCode :: string
  fMessage :: string

record event =
  evType :: event_type
  evData :: bytes
  evName :: string
  evStatus :: string
  evResult :: "job_result option"
  evFailure :: "failure option"

text \<open>The composite literals the sources write, with the other fields zero.\<close>

definition status_event :: "string \<Rightarrow> event" where
  "status_event st = \<lparr>evType = EventStatus, evData = [], evName = [], evStatus = st,
     evResult = None, evFailure = None\<rparr>"

definition data_event :: "event_type \<Rightarrow> bytes \<Rightarrow> event" where
  "data_event t d = \<lparr>evType = t, evData = d, evName = [], evStatus = [],
     evResult = None, evFailure = None\<rparr>"

definition artifact_event :: "string \<Rightarrow> bytes \<Rightarrow> event" where
  "artifact_event n d = \<lparr>evType = EventArtifact, evData = d, evName = n, evStatus = [],
     evResult = None, evFailure = None\<rparr>"

definition completion_event :: "job_result \<Rightarrow> event" where
  "completion_event r = \<lparr>evType = EventCompletion, evData = [], evName = [], evStatus = [],
     evResult = Some r, evFailure = None\<rparr>"

definition failure_event :: "string \<Rightarrow> string \<Rightarrow> event" where
  "failure_event c m = \<lparr>evType = EventFailure, evData = [], evName = [], evStatus = [],
     evResult = None, evFailure = Some \<lparr>fCode = c, fMessage = m\<rparr>\<rparr>"

text \<open>An HTTP-level protocol error.\<close>

record error_response =
  erCode :: string
  erMessage :: string

section \<open>Guest protocol messages\<close>

definition HostCID :: nat where "HostCID = 2"
definition GuestCID :: nat where "GuestCID = 3"
definition HostPort :: nat where "HostPort = 9666"

datatype msg_type =
  MsgHello | MsgLog | MsgJob | MsgStdout | MsgStderr | MsgCancel | MsgResult | MsgArtifact
| MsgOther string

record guest_result =
  gExitCode :: int
  gTerminationReason :: string
  gDurationMillis :: int
  gCPUTimeMillis :: int
  gPeakMemoryBytes :: int
  gMessage :: string

record message =
  mType :: msg_type
  mJob :: "job option"
  mName :: string
  mData :: bytes
  mResult :: "guest_result option"

definition plain_msg :: "msg_type \<Rightarrow> message" where
  "plain_msg t = \<lparr>mType = t, mJob = None, mName = [], mData = [], mResult = None\<rparr>"

definition data_msg :: "msg_type \<Rightarrow> bytes \<Rightarrow> message" where
  "data_msg t d = (plain_msg t)\<lparr>mData := d\<rparr>"

section \<open>Validation\<close>

datatype job_error =
  UnsupportedVersion int
| BadJobID
| BadCommand
| TooManyArguments
| ArgumentTooLong
| ArgumentsTooLong
| UnsupportedCWD
| MissingPlatform
| NonPositiveResources
| BadTimeout
| TooManyArtifacts
| BadArtifact string
| UnsupportedNetwork string

text \<open>The loop of the source ranges over runes.  A rune outside ASCII is encoded by bytes
  outside ASCII only, none of which is allowed, so testing byte by byte gives the same
  answer.\<close>

definition id_char :: "char \<Rightarrow> bool" where
  "id_char c =
     (let n = (of_char c :: nat)
      in 97 \<le> n \<and> n \<le> 122 \<or> 65 \<le> n \<and> n \<le> 90 \<or> 48 \<le> n \<and> n \<le> 57 \<or> c = CHR ''_'' \<or> c = CHR ''-'')"

definition validID :: "string \<Rightarrow> bool" where
  "validID i = (if i = [] \<or> length i > 128 then False else list_all id_char i)"

text \<open>The argument loop: the running total, or the error of the first argument too long.\<close>

fun args_total :: "nat \<Rightarrow> string list \<Rightarrow> job_error + nat" where
  "args_total tot [] = Inr tot"
| "args_total tot (a # as) =
     (if length a > maxArgumentLength then Inl ArgumentTooLong
      else args_total (tot + length a) as)"

definition artifact_bad :: "string \<Rightarrow> bool" where
  "artifact_bad a =
     (let clean = Clean a
      in a = [] \<or> a \<noteq> clean \<or> clean = ''.'' \<or> clean = ''..'' \<or> HasPrefix clean ''../'')"

fun check_artifacts :: "string list \<Rightarrow> job_error option" where
  "check_artifacts [] = None"
| "check_artifacts (a # as) = (if artifact_bad a then Some (BadArtifact a) else check_artifacts as)"

definition Validate :: "job \<Rightarrow> job_error option" where
  "Validate j =
     (if jVersion j \<noteq> ProtocolVersion then Some (UnsupportedVersion (jVersion j))
      else if \<not> validID (jID j) then Some BadJobID
      else if jCommand j = [] \<or> length (jCommand j) > maxCommandLength then Some BadCommand
      else if length (jArgs j) > maxArguments then Some TooManyArguments
      else case args_total 0 (jArgs j) of
        Inl e \<Rightarrow> Some e
      | Inr tot \<Rightarrow>
          if tot > maxTotalArgBytes then Some ArgumentsTooLong
          else if jCWD j \<noteq> ''.'' then Some UnsupportedCWD
          else if pOS (jPlatform j) = [] \<or> pArch (jPlatform j) = [] then Some MissingPlatform
          else if resCPU (jResources j) < 1 \<or> resMemoryMB (jResources j) < 1
                  \<or> resDiskMB (jResources j) < 1 then Some NonPositiveResources
          else if jTimeoutSeconds j < 1 \<or> jTimeoutSeconds j > 7200 then Some BadTimeout
          else if length (jArtifacts j) > 16 then Some TooManyArtifacts
          else case check_artifacts (jArtifacts j) of
            Some e \<Rightarrow> Some e
          | None \<Rightarrow>
              if jNetwork j = [] \<or> jNetwork j = ''none'' \<or> jNetwork j = ''egress'' then None
              else Some (UnsupportedNetwork (jNetwork j)))"

section \<open>Lemmas\<close>

lemma args_total_Inr:
  "args_total t as = Inr n \<longleftrightarrow>
     (\<forall>a \<in> set as. length a \<le> maxArgumentLength) \<and> n = t + sum_list (map length as)"
  by (induction as arbitrary: t) auto

lemma args_total_Inl:
  "args_total t as = Inl e \<longleftrightarrow> e = ArgumentTooLong \<and> (\<exists>a \<in> set as. length a > maxArgumentLength)"
  by (induction as arbitrary: t) auto

lemma check_artifacts_None: "check_artifacts as = None \<longleftrightarrow> (\<forall>a \<in> set as. \<not> artifact_bad a)"
  by (induction as) auto

lemma check_artifacts_Some:
  "check_artifacts as = Some e \<Longrightarrow> \<exists>a \<in> set as. e = BadArtifact a \<and> artifact_bad a"
  by (induction as) (auto split: if_splits)

text \<open>Which artifact paths pass: the rendering of a non-empty list of names, or of any list of
  names when the path is absolute.\<close>

lemma artifact_ok_iff:
  "\<not> artifact_bad a \<longleftrightarrow>
     (\<exists>ns. list_all is_name ns \<and> (a = render True ns \<or> ns \<noteq> [] \<and> a = render False ns))"
proof
  assume ok: "\<not> artifact_bad a"
  then have a: "a = render (IsAbs a) (comps a)"
    by (simp add: artifact_bad_def Let_def Clean_def)
  have cl: "clean_list (IsAbs a) (comps a)" by (rule clean_comps_clean)
  show "\<exists>ns. list_all is_name ns \<and> (a = render True ns \<or> ns \<noteq> [] \<and> a = render False ns)"
  proof (cases "IsAbs a")
    case True
    with a cl show ?thesis by (auto simp: clean_list_rooted)
  next
    case False
    with a cl ok have "\<not> escapes (render False (comps a))" and "comps a \<noteq> []"
      by (auto simp: artifact_bad_def Let_def Clean_def escapes_def render_def split: if_splits)
    then have "\<nexists>ds. comps a = ''..'' # ds"
      using escapes_render cl False by simp
    then have "list_all is_name (comps a)"
      using cl False unfolding clean_list_def
      by (metis append_Cons append_Nil not0_implies_Suc replicate.simps)
    with a False \<open>comps a \<noteq> []\<close> show ?thesis by metis
  qed
next
  assume "\<exists>ns. list_all is_name ns \<and> (a = render True ns \<or> ns \<noteq> [] \<and> a = render False ns)"
  then obtain ns r where ns: "list_all is_name ns" and a: "a = render r ns" and ne: "r \<or> ns \<noteq> []"
    by blast
  then have cl: "clean_list r ns" by (simp add: clean_list_names)
  then have "Clean a = a" and "comps a = ns" and "IsAbs a = r"
    by (simp_all add: a Clean_render comps_render IsAbs_render)
  moreover have "a \<noteq> []" using \<open>Clean a = a\<close> by (metis Clean_nonempty)
  moreover have "\<not> escapes a"
  proof (cases r)
    case True
    then show ?thesis by (simp add: a escapes_def render_def HasPrefix_def)
  next
    case False
    then show ?thesis using ns cl by (auto simp: a escapes_render dest: is_nameD)
  qed
  moreover have "a \<noteq> ''.''"
    using \<open>comps a = ns\<close> \<open>IsAbs a = r\<close> ne by (auto simp: comps_def clean_comps_def clean_step_def)
  ultimately show "\<not> artifact_bad a" by (simp add: artifact_bad_def Let_def escapes_def)
qed

section \<open>Properties\<close>


definition sample_job :: job where
  "sample_job = \<lparr>jVersion = 1, jID = ''job_test'', jCommand = ''echo'', jArgs = [''hello''], jCWD = ''.'',
     jPlatform = \<lparr>pOS = ''linux'', pArch = ''amd64''\<rparr>,
     jResources = \<lparr>resCPU = 1, resMemoryMB = 128, resDiskMB = 64\<rparr>, jTimeoutSeconds = 30,
     jArtifacts = [], jNetwork = []\<rparr>"


text \<open>\<^verbatim>\<open>Validate\<close> lets absolute artifact paths through, although its error message says an
  artifact must be a relative path inside the workspace: \<^verbatim>\<open>/etc/passwd\<close> passes, and so does
  the root \<^verbatim>\<open>/\<close>.\<close>

theorem Validate_absolute_artifact:
  "Validate (sample_job\<lparr>jArtifacts := [''/etc/passwd'', ''/'']\<rparr>) = None
     \<and> IsAbs ''/etc/passwd'' \<and> IsAbs ''/''"
  by code_simp

text \<open>A valid job id is one path component and one URL path segment: it is a name (not empty, not
  \<^verbatim>\<open>.\<close> or \<^verbatim>\<open>..\<close>, no slash), so the directory, cgroup and network names built from it stay
  where they are put, and it holds neither a colon nor an asterisk, which the cancel endpoint and
  the temporary-directory pattern give a meaning to.\<close>

theorem validID_is_name:
  assumes "validID i"
  shows "is_name i \<and> CHR '':'' \<notin> set i \<and> CHR ''*'' \<notin> set i \<and> length i \<le> 128"
proof -
  have ok: "i \<noteq> []" "length i \<le> 128" "\<forall>c \<in> set i. id_char c"
    using assms by (auto simp: validID_def list_all_iff split: if_splits)
  moreover have "\<not> id_char (CHR ''/'')" "\<not> id_char (CHR ''.'')" "\<not> id_char (CHR '':'')" "\<not> id_char (CHR ''*'')"
    by code_simp+
  ultimately show ?thesis by (auto simp: is_name_def)
qed

theorem validID_is_name_witness: "validID ''job_test-1'' \<and> is_name ''job_test-1''"
proof -
  have "validID ''job_test-1''" by code_simp
  with validID_is_name [OF this] show ?thesis by blast
qed

end
