(* ===== verification/HostFS.thy ===== *)
theory HostFS
  imports GoPath "HOL-Library.Sublist"
begin

text \<open>
  The file system under the program: what the \<^verbatim>\<open>os\<close> calls of the sources do.  A file system
  is an association list from physical paths (component lists from the root) to nodes; the
  root directory always exists.  Path resolution follows symbolic links component by
  component, as the kernel does, with its limit of forty links; \<^verbatim>\<open>..\<close> after a link is
  resolved physically, not lexically.  The calls that do not follow a final link
  (\<^verbatim>\<open>Lstat\<close>, \<^verbatim>\<open>Mkdir\<close>, \<^verbatim>\<open>Symlink\<close>, and \<^verbatim>\<open>OpenFile\<close> with \<^verbatim>\<open>O_EXCL\<close> or
  \<^verbatim>\<open>O_NOFOLLOW\<close>) resolve the parent and leave the last component alone.

  Beside the errors that follow from the state, any call may fail for a reason outside the
  model (permission, space, hardware): the world carries a list of such faults, one consumed
  by each call, and the theorems hold for every list.  Permission bits are stored as
  requested; the umask is not modelled.

  The lemmas: resolution is stable when the file system only grows, and walking through real
  directories stays where it is told to.
\<close>

datatype node = NDir nat | NFile nat bytes | NLink string

type_synonym phys = "string list"
type_synonym fs = "(phys \<times> node) list"

datatype errno = ENOENT | EEXIST | ENOTDIR | EISDIR | ELOOP | EFault string

record world =
  w_fs :: fs
  w_faults :: "string option list"

section \<open>Path resolution\<close>

definition is_dir :: "fs \<Rightarrow> phys \<Rightarrow> bool" where
  "is_dir f q = (q = [] \<or> (case map_of f q of Some (NDir _) \<Rightarrow> True | _ \<Rightarrow> False))"

text \<open>Resolve components from a physical directory.  The result is the physical path of an
  existing node and the number of links that may still be followed.\<close>

function walk :: "fs \<Rightarrow> nat \<Rightarrow> phys \<Rightarrow> string list \<Rightarrow> errno + (phys \<times> nat)" where
  "walk f n cur [] = Inr (cur, n)"
| "walk f n cur (c # cs) =
     (if c = [] \<or> c = ''.'' then walk f n cur cs
      else if c = ''..'' then walk f n (butlast cur) cs
      else case map_of f (cur @ [c]) of
        None \<Rightarrow> Inl ENOENT
      | Some (NDir _) \<Rightarrow> walk f n (cur @ [c]) cs
      | Some (NFile _ _) \<Rightarrow> if cs = [] then Inr (cur @ [c], n) else Inl ENOTDIR
      | Some (NLink t) \<Rightarrow>
          (case n of
             0 \<Rightarrow> Inl ELOOP
           | Suc m \<Rightarrow> walk f m (if IsAbs t then [] else cur) (Split slash t @ cs)))"
  by pat_completeness auto
termination
  by (relation "measures [\<lambda>(f, n, cur, cs). n, \<lambda>(f, n, cur, cs). length cs]") auto

definition maxSymlinks :: nat where "maxSymlinks = 40"

text \<open>Following every link (\<^verbatim>\<open>Stat\<close>).\<close>

definition resolve :: "fs \<Rightarrow> string \<Rightarrow> errno + phys" where
  "resolve f p = map_sum id fst (walk f maxSymlinks [] (Split slash p))"

text \<open>Resolving the parent only: the physical place the last component names, existing or
  not.\<close>

definition locate :: "fs \<Rightarrow> string \<Rightarrow> errno + phys" where
  "locate f p =
     (let cs = Split slash p
      in case walk f maxSymlinks [] (butlast cs) of
           Inl e \<Rightarrow> Inl e
         | Inr (d, _) \<Rightarrow>
             if last cs = [] \<or> last cs = ''.'' then Inr d
             else if last cs = ''..'' then Inr (butlast d)
             else if is_dir f d then Inr (d @ [last cs]) else Inl ENOTDIR)"

section \<open>Calls\<close>

text \<open>Each call first consumes one fault.\<close>

definition tick :: "world \<Rightarrow> errno option \<times> world" where
  "tick w =
     (case w_faults w of [] \<Rightarrow> (None, w) | x # xs \<Rightarrow> (map_option EFault x, w\<lparr>w_faults := xs\<rparr>))"

definition get_node :: "fs \<Rightarrow> phys \<Rightarrow> errno + node" where
  "get_node f q =
     (case map_of f q of Some nd \<Rightarrow> Inr nd | None \<Rightarrow> if q = [] then Inr (NDir 493) else Inl ENOENT)"

definition os_lstat :: "string \<Rightarrow> world \<Rightarrow> (errno + node) \<times> world" where
  "os_lstat p w =
     (case tick w of
        (Some e, w') \<Rightarrow> (Inl e, w')
      | (None, w') \<Rightarrow>
          (case locate (w_fs w') p of Inl e \<Rightarrow> (Inl e, w') | Inr q \<Rightarrow> (get_node (w_fs w') q, w')))"

definition os_stat :: "string \<Rightarrow> world \<Rightarrow> (errno + node) \<times> world" where
  "os_stat p w =
     (case tick w of
        (Some e, w') \<Rightarrow> (Inl e, w')
      | (None, w') \<Rightarrow>
          (case resolve (w_fs w') p of Inl e \<Rightarrow> (Inl e, w') | Inr q \<Rightarrow> (get_node (w_fs w') q, w')))"

text \<open>The names in a directory.\<close>

definition children :: "fs \<Rightarrow> phys \<Rightarrow> string list" where
  "children f q = map last (filter (\<lambda>p. p \<noteq> [] \<and> butlast p = q) (map fst f))"

definition os_readdir :: "string \<Rightarrow> world \<Rightarrow> (errno + string list) \<times> world" where
  "os_readdir p w =
     (case tick w of
        (Some e, w') \<Rightarrow> (Inl e, w')
      | (None, w') \<Rightarrow>
          (case resolve (w_fs w') p of
             Inl e \<Rightarrow> (Inl e, w')
           | Inr q \<Rightarrow> if is_dir (w_fs w') q then (Inr (children (w_fs w') q), w')
                      else (Inl ENOTDIR, w')))"

text \<open>Adding a node where there is none: \<^verbatim>\<open>Mkdir\<close>, \<^verbatim>\<open>Symlink\<close>, exclusive creation.\<close>

definition os_create :: "string \<Rightarrow> node \<Rightarrow> world \<Rightarrow> (errno + phys) \<times> world" where
  "os_create p nd w =
     (case tick w of
        (Some e, w') \<Rightarrow> (Inl e, w')
      | (None, w') \<Rightarrow>
          (case locate (w_fs w') p of
             Inl e \<Rightarrow> (Inl e, w')
           | Inr q \<Rightarrow>
               if q = [] \<or> map_of (w_fs w') q \<noteq> None then (Inl EEXIST, w')
               else (Inr q, w'\<lparr>w_fs := (q, nd) # w_fs w'\<rparr>)))"

definition os_mkdir :: "string \<Rightarrow> nat \<Rightarrow> world \<Rightarrow> (errno + phys) \<times> world" where
  "os_mkdir p perm w = os_create p (NDir perm) w"

definition os_symlink :: "string \<Rightarrow> string \<Rightarrow> world \<Rightarrow> (errno + phys) \<times> world" where
  "os_symlink target p w = os_create p (NLink target) w"

definition os_create_excl :: "string \<Rightarrow> nat \<Rightarrow> world \<Rightarrow> (errno + phys) \<times> world" where
  "os_create_excl p perm w = os_create p (NFile perm []) w"

text \<open>Writing through an open descriptor replaces the content of a file that was empty; a
  fault writes nothing.  Closing changes nothing but may report a fault.\<close>

definition fd_write :: "phys \<Rightarrow> bytes \<Rightarrow> world \<Rightarrow> errno option \<times> world" where
  "fd_write q d w =
     (case tick w of
        (Some e, w') \<Rightarrow> (Some e, w')
      | (None, w') \<Rightarrow>
          (case map_of (w_fs w') q of
             Some (NFile perm _) \<Rightarrow> (None, w'\<lparr>w_fs := (q, NFile perm d) # w_fs w'\<rparr>)
           | _ \<Rightarrow> (Some ENOENT, w')))"

definition fd_close :: "world \<Rightarrow> errno option \<times> world" where
  "fd_close w = tick w"

text \<open>\<^verbatim>\<open>RemoveAll\<close>: the node and everything below it.\<close>

definition remove_below :: "phys \<Rightarrow> fs \<Rightarrow> fs" where
  "remove_below q f = filter (\<lambda>(p, _). \<not> prefix q p) f"

section \<open>Lemmas\<close>

lemma tick_fs: "tick w = (e, w') \<Longrightarrow> w_fs w' = w_fs w"
  by (auto simp: tick_def split: list.splits)

lemma tick_no_faults [simp]: "w_faults w = [] \<Longrightarrow> tick w = (None, w)"
  by (simp add: tick_def)

lemma os_lstat_fs: "os_lstat p w = (r, w') \<Longrightarrow> w_fs w' = w_fs w"
  by (auto simp: os_lstat_def split: prod.splits option.splits sum.splits dest: tick_fs)

lemma os_stat_fs: "os_stat p w = (r, w') \<Longrightarrow> w_fs w' = w_fs w"
  by (auto simp: os_stat_def split: prod.splits option.splits sum.splits dest: tick_fs)

lemma os_readdir_fs: "os_readdir p w = (r, w') \<Longrightarrow> w_fs w' = w_fs w"
  by (auto simp: os_readdir_def split: prod.splits option.splits sum.splits if_splits dest: tick_fs)

lemma fd_close_fs: "fd_close w = (e, w') \<Longrightarrow> w_fs w' = w_fs w"
  by (simp add: fd_close_def tick_fs)

lemma os_create_cases:
  assumes "os_create p nd w = (r, w')"
  obtains (fail) e where "r = Inl e" and "w_fs w' = w_fs w"
  | (ok) q where "r = Inr q" and "locate (w_fs w) p = Inr q" and "map_of (w_fs w) q = None"
      and "q \<noteq> []" and "w_fs w' = (q, nd) # w_fs w"
proof (cases "tick w")
  case (Pair e w1)
  then have fs1: "w_fs w1 = w_fs w" by (rule tick_fs)
  show thesis
  proof (cases "e = None \<and> (\<exists>q. locate (w_fs w) p = Inr q \<and> q \<noteq> [] \<and> map_of (w_fs w) q = None)")
    case True
    then obtain q where "e = None" "locate (w_fs w) p = Inr q" "q \<noteq> []" "map_of (w_fs w) q = None"
      by blast
    with assms Pair fs1 show thesis by (intro ok [of q]) (auto simp: os_create_def)
  next
    case False
    with assms Pair fs1 show thesis
      by (cases r) (auto simp: os_create_def intro: fail split: option.splits sum.splits if_splits)
  qed
qed

lemma os_lstat_ok:
  assumes "os_lstat p w = (Inr nd, w')" and "locate (w_fs w) p = Inr q" and "q \<noteq> []"
  shows "map_of (w_fs w) q = Some nd"
proof -
  obtain e w1 where t: "tick w = (e, w1)" by fastforce
  with assms show ?thesis
    by (auto simp: os_lstat_def get_node_def tick_fs [OF t] split: option.splits)
qed

lemma tick_EFault: "tick w = (Some e, w') \<Longrightarrow> \<exists>s. e = EFault s"
  by (auto simp: tick_def split: list.splits)

lemma os_create_EEXIST:
  assumes "os_create p nd w = (Inl EEXIST, w')" and "locate (w_fs w) p = Inr q" and "q \<noteq> []"
  shows "map_of (w_fs w) q \<noteq> None"
proof -
  obtain e w1 where t: "tick w = (e, w1)" by fastforce
  have "e = None"
  proof (cases e)
    case (Some x)
    with t assms(1) have "x = EEXIST" by (simp add: os_create_def)
    with t Some show ?thesis using tick_EFault [of w EEXIST w1] by simp
  qed
  with t assms show ?thesis by (auto simp: os_create_def tick_fs [OF t] split: if_splits)
qed

lemma fd_write_cases:
  assumes "fd_write q d w = (r, w')"
  obtains (fail) e where "r = Some e" and "w_fs w' = w_fs w"
  | (ok) perm d0 where "r = None" and "map_of (w_fs w) q = Some (NFile perm d0)"
      and "w_fs w' = (q, NFile perm d) # w_fs w"
  using assms
  by (auto simp: fd_write_def split: prod.splits option.splits node.splits dest: tick_fs)

text \<open>Successful walks, one step at a time.\<close>

lemma walk_ok_induct [consumes 1, case_names stop skip up real plain link]:
  assumes "walk f n cur cs = Inr r"
    and "\<And>n cur. P n cur [] (cur, n)"
    and "\<And>n cur c cs r. c = [] \<or> c = ''.'' \<Longrightarrow> walk f n cur cs = Inr r \<Longrightarrow> P n cur cs r \<Longrightarrow>
      P n cur (c # cs) r"
    and "\<And>n cur cs r. walk f n (butlast cur) cs = Inr r \<Longrightarrow> P n (butlast cur) cs r \<Longrightarrow>
      P n cur (''..'' # cs) r"
    and "\<And>n cur c cs r perm. c \<notin> {[], ''.'', ''..''} \<Longrightarrow> map_of f (cur @ [c]) = Some (NDir perm) \<Longrightarrow>
      walk f n (cur @ [c]) cs = Inr r \<Longrightarrow> P n (cur @ [c]) cs r \<Longrightarrow> P n cur (c # cs) r"
    and "\<And>n cur c perm d. c \<notin> {[], ''.'', ''..''} \<Longrightarrow> map_of f (cur @ [c]) = Some (NFile perm d) \<Longrightarrow>
      P n cur [c] (cur @ [c], n)"
    and "\<And>n cur c cs r t. c \<notin> {[], ''.'', ''..''} \<Longrightarrow> map_of f (cur @ [c]) = Some (NLink t) \<Longrightarrow>
      walk f n (if IsAbs t then [] else cur) (Split slash t @ cs) = Inr r \<Longrightarrow>
      P n (if IsAbs t then [] else cur) (Split slash t @ cs) r \<Longrightarrow> P (Suc n) cur (c # cs) r"
  shows "P n cur cs r"
  using assms
proof (induction f n cur cs rule: walk.induct)
  case (2 f n cur c cs)
  note steps = "2.prems"(3-)
  show ?case
  proof (cases "c = [] \<or> c = ''.'' \<or> c = ''..''")
    case True
    with "2.IH"(1,2) "2.prems" show ?thesis by (cases "c = ''..''") auto
  next
    case False
    with "2.prems"(1) obtain nd where nd: "map_of f (cur @ [c]) = Some nd"
      by (auto split: option.splits)
    show ?thesis
    proof (cases nd)
      case (NDir perm)
      with False nd "2.prems" "2.IH"(3) show ?thesis by (intro steps(3)) auto
    next
      case (NFile perm d)
      with False nd "2.prems"(1) have "cs = []" and "r = (cur @ [c], n)" by (auto split: if_splits)
      with False nd NFile show ?thesis by (simp add: steps(4))
    next
      case (NLink t)
      with False nd "2.prems"(1) obtain m where m: "n = Suc m"
        and "walk f m (if IsAbs t then [] else cur) (Split slash t @ cs) = Inr r"
        by (cases n) auto
      moreover from this(2) have "P m (if IsAbs t then [] else cur) (Split slash t @ cs) r"
        using "2.IH"(4) [OF _ _ nd NLink m] False "2.prems" by simp
      ultimately show ?thesis using False nd NLink steps(5) by simp
    qed
  qed
qed auto

text \<open>A file system that only grows keeps every successful resolution.\<close>

lemma walk_mono:
  assumes "walk f n cur cs = Inr r" and le: "map_of f \<subseteq>\<^sub>m map_of g"
  shows "walk g n cur cs = Inr r"
proof -
  have "map_of f q = Some nd \<Longrightarrow> map_of g q = Some nd" for q nd
    using le by (auto simp: map_le_def dom_def)
  with assms(1) show ?thesis by (induction rule: walk_ok_induct) auto
qed

lemma is_dir_snocE:
  assumes "is_dir f (d @ [c])"
  obtains perm where "map_of f (d @ [c]) = Some (NDir perm)"
  using assms by (auto simp: is_dir_def split: option.splits node.splits)

lemma is_dir_mono: "map_of f \<subseteq>\<^sub>m map_of g \<Longrightarrow> is_dir f q \<Longrightarrow> is_dir g q"
  by (auto simp: is_dir_def map_le_def dom_def split: option.splits node.splits)

lemma resolve_mono: "map_of f \<subseteq>\<^sub>m map_of g \<Longrightarrow> resolve f p = Inr q \<Longrightarrow> resolve g p = Inr q"
  by (cases "walk f maxSymlinks [] (Split slash p)") (auto simp: resolve_def dest: walk_mono)

text \<open>A directory prefix may be walked first.\<close>

lemma walk_append:
  "walk f n cur xs = Inr (d, m) \<Longrightarrow> is_dir f d \<Longrightarrow> walk f n cur (xs @ ys) = walk f m d ys"
proof (induction n cur xs "(d, m)" rule: walk_ok_induct)
  case (plain c perm b)
  then show ?case by (simp add: is_dir_def)
qed auto

text \<open>Walking names that are real directories stays below the start.\<close>

lemma walk_real_dirs:
  "list_all is_name ns \<Longrightarrow> \<forall>k \<le> length ns. is_dir f (d @ take k ns) \<Longrightarrow> walk f n d ns = Inr (d @ ns, n)"
proof (induction ns arbitrary: d)
  case (Cons c ns)
  have "is_dir f (d @ [c])" using Cons.prems(2) by (auto dest: spec [of _ 1])
  then obtain perm where "map_of f (d @ [c]) = Some (NDir perm)" by (rule is_dir_snocE)
  moreover have "\<forall>k \<le> length ns. is_dir f ((d @ [c]) @ take k ns)"
    using Cons.prems(2) by (auto dest: spec [of _ "Suc _"])
  ultimately show ?case
    using Cons by (simp add: is_name_def)
qed simp

lemma map_le_upd_fresh: "m q = None \<Longrightarrow> m \<subseteq>\<^sub>m m(q \<mapsto> nd)"
  by (auto simp: map_le_def)

section \<open>File systems that only grow\<close>

text \<open>\<open>extends f g S\<close>: every node of \<open>f\<close> is unchanged in \<open>g\<close>, and what is new is at a
  place in \<open>S\<close>.\<close>

definition extends :: "fs \<Rightarrow> fs \<Rightarrow> phys set \<Rightarrow> bool" where
  "extends f g S = (map_of f \<subseteq>\<^sub>m map_of g \<and> dom (map_of g) \<subseteq> dom (map_of f) \<union> S)"

lemma extends_refl [simp]: "extends f f S"
  by (simp add: extends_def)

lemma extends_trans: "extends f g S \<Longrightarrow> extends g h S \<Longrightarrow> extends f h S"
  unfolding extends_def by (blast intro: map_le_trans)

lemma extends_mono: "extends f g S \<Longrightarrow> S \<subseteq> T \<Longrightarrow> extends f g T"
  by (auto simp: extends_def)

lemma extends_le: "extends f g S \<Longrightarrow> map_of f \<subseteq>\<^sub>m map_of g"
  by (simp add: extends_def)

lemma extends_kept: "extends f g S \<Longrightarrow> map_of f q = Some nd \<Longrightarrow> map_of g q = Some nd"
  by (auto simp: extends_def map_le_def dom_def)

lemma extends_outside: "extends f g S \<Longrightarrow> q \<notin> S \<Longrightarrow> map_of g q = map_of f q"
  by (cases "map_of f q"; cases "map_of g q") (auto simp: extends_def map_le_def dom_def)

lemma extends_new: "extends f g S \<Longrightarrow> map_of g q \<noteq> None \<Longrightarrow> map_of f q = None \<Longrightarrow> q \<in> S"
  by (auto simp: extends_def)

lemma os_create_extends:
  assumes "os_create p nd w = (r, w')" and "locate (w_fs w) p = Inr q" and "q \<in> S"
  shows "extends (w_fs w) (w_fs w') S"
  using assms(1)
proof (cases rule: os_create_cases)
  case (ok q')
  with assms show ?thesis by (auto simp: extends_def map_le_upd_fresh)
qed simp

text \<open>\<open>at_dir f cs d\<close>: the absolute path with components \<open>cs\<close> leads to the physical directory
  \<open>d\<close>.\<close>

definition at_dir :: "fs \<Rightarrow> string list \<Rightarrow> phys \<Rightarrow> bool" where
  "at_dir f cs d = ((\<exists>m. walk f maxSymlinks [] cs = Inr (d, m)) \<and> is_dir f d)"

lemma at_dir_mono: "extends f g S \<Longrightarrow> at_dir f cs d \<Longrightarrow> at_dir g cs d"
  by (auto simp: at_dir_def extends_def intro: walk_mono is_dir_mono)

lemma at_dir_snoc:
  assumes "at_dir f cs d" and "is_name c" and "is_dir f (d @ [c])"
  shows "at_dir f (cs @ [c]) (d @ [c])"
proof -
  obtain m where "walk f maxSymlinks [] cs = Inr (d, m)" and d: "is_dir f d"
    using assms(1) by (auto simp: at_dir_def)
  then have "walk f maxSymlinks [] (cs @ [c]) = walk f m d [c]"
    by (rule walk_append)
  also have "\<dots> = Inr (d @ [c], m)"
    by (rule walk_real_dirs) (use assms d in \<open>auto simp: le_Suc_eq\<close>)
  finally show ?thesis using assms(3) by (simp add: at_dir_def)
qed

lemma Split_render: "list_all is_name cs \<Longrightarrow> cs \<noteq> [] \<Longrightarrow> Split slash (render True cs) = [] # cs"
  by (simp add: render_def Split_Join_names)

lemma at_dir_locate:
  assumes "at_dir f cs d" and "list_all is_name (cs @ [c])"
  shows "locate f (render True (cs @ [c])) = Inr (d @ [c])"
proof -
  have "Split slash (render True (cs @ [c])) = [] # cs @ [c]"
    using assms(2) by (simp add: Split_render)
  then show ?thesis
    using assms by (auto simp: at_dir_def locate_def butlast_append is_name_def)
qed

lemma resolve_render: "list_all is_name cs \<Longrightarrow> resolve f (render True cs) = map_sum id fst (walk f maxSymlinks [] cs)"
  by (cases "cs = []") (simp_all add: resolve_def Split_render, simp add: render_def)

lemma at_dir_resolve:
  "list_all is_name cs \<Longrightarrow> at_dir f cs d \<longleftrightarrow> resolve f (render True cs) = Inr d \<and> is_dir f d"
  by (cases "walk f maxSymlinks [] cs") (auto simp: resolve_render at_dir_def)

text \<open>Every node has a parent directory.\<close>

definition wf_fs :: "fs \<Rightarrow> bool" where
  "wf_fs f = list_all (\<lambda>(p, _). is_dir f (butlast p)) f"

lemma wf_fs_parent: "wf_fs f \<Longrightarrow> map_of f (p @ [c]) \<noteq> None \<Longrightarrow> is_dir f p"
  by (fastforce simp: wf_fs_def list_all_iff dest: map_of_SomeD)

lemma wf_fs_empty_dir:
  assumes "wf_fs f" and "children f d = []" and "ns \<noteq> []"
  shows "map_of f (d @ ns) = None"
  using assms(3)
proof (induction ns rule: rev_induct)
  case (snoc c ns)
  show ?case
  proof (cases "ns = []")
    case True
    have "d @ [c] \<notin> set (map fst f)"
      using assms(2) by (fastforce simp: children_def filter_empty_conv)
    with True show ?thesis by (simp add: map_of_eq_None_iff)
  next
    case False
    with snoc.IH have "\<not> is_dir f (d @ ns)" by (simp add: is_dir_def)
    with assms(1) show ?thesis
      using wf_fs_parent [of f "d @ ns" c] by (cases "map_of f (d @ ns @ [c])") auto
  qed
qed simp

end
