(* ===== verification/Workspace.thy ===== *)
theory Workspace
  imports HostFS
begin

text \<open>
  Package \<^verbatim>\<open>internal/workspace\<close> (\<^verbatim>\<open>workspace.go\<close>): safe extraction of a workspace archive.
  The gzip and tar decoders are represented by what they deliver: the sequence of results of
  \<^verbatim>\<open>tarReader.Next\<close>, each with the state of the context just before the call and, for a
  regular file, the bytes its reader yields before it stops; then the outcomes of the three
  end-of-stream checks.  The file system is that of \<open>HostFS\<close>.

  The lemmas: extraction only adds nodes, and only below the physical directory the
  destination names; a successful extraction has created what every header asks for; the
  file count and the expanded size stay within the limits; symbolic links pass only when
  their target is lexically inside.  The last one is not physical containment, and the
  theory shows an archive that separates the two.
\<close>

section \<open>Names\<close>

definition defaultExclusions :: "string list" where
  "defaultExclusions = [''.git'', ''node_modules'', ''dist'', ''build'', ''.next'', ''coverage'']"

definition DefaultExclusions :: "string list" where
  "DefaultExclusions = defaultExclusions"

text \<open>One exclusion against one archive name.\<close>

definition excluded_by :: "string \<Rightarrow> string list \<Rightarrow> string \<Rightarrow> bool" where
  "excluded_by name components exclusion =
     (let clean = Trim slash (Clean exclusion)
      in if clean = [] \<or> clean = ''.'' \<or> clean = ''..'' \<or> HasPrefix clean ''../'' then False
         else if Contains clean ''/'' then name = clean \<or> HasPrefix name (clean @ ''/'')
         else clean \<in> set components)"

definition isExcluded :: "string \<Rightarrow> string list \<Rightarrow> bool" where
  "isExcluded name exclusions =
     (let components = Split slash (Clean name)
      in list_ex (excluded_by name components) exclusions)"

datatype ws_error =
  BadLimits
| DestStat errno | DestNotDir | DestRead errno | DestNotEmpty
| GzipOpen | WsCtx ctx_err | TarRead
| UnsafePath string | DuplicatePath string | TooManyFiles | TooManyBytes
| PathEscapes | ParentNotDir | ParentIO errno
| MkdirFailed string errno | CreateFailed string errno | CopyFailed string | CloseFailed string errno
| LinkNotRelative | LinkEscapes | SymlinkFailed string errno | UnsupportedType string
| DataAfterTar | GzipRead | GzipClose | TrailingData | PeekFailed

definition safeArchivePath :: "string \<Rightarrow> ws_error + string" where
  "safeArchivePath name =
     (if name = [] \<or> Contains name [CHR 0x00] \<or> IsAbs name then Inl (UnsafePath name)
      else let clean = Clean name
           in if clean = ''.'' \<or> clean = ''..'' \<or> HasPrefix clean ''../'' then Inl (UnsafePath name)
              else Inr clean)"

definition validateSymlink :: "string \<Rightarrow> string \<Rightarrow> string \<Rightarrow> ws_error option" where
  "validateSymlink root target link =
     (if link = [] \<or> IsAbs link then Some LinkNotRelative
      else case Rel root (Clean (PJoin (Dir target) link)) of
        None \<Rightarrow> Some LinkEscapes
      | Some rel \<Rightarrow> if rel = ''..'' \<or> HasPrefix rel ''../'' then Some LinkEscapes else None)"

section \<open>Archives, limits and statistics\<close>

datatype typeflag = TypeDir | TypeReg | TypeRegA | TypeSymlink | TypeOther nat

record header =
  hName :: string
  hTypeflag :: typeflag
  hMode :: int
  hSize :: int
  hLinkname :: string

datatype tar_next = NextErr | NextHeader header bytes

datatype read1 = ReadByte | ReadEOF | ReadErr

record archive_stream =
  asGzipOk :: bool
  asItems :: "(ctx_err option \<times> tar_next) list"
  asEndCtx :: "ctx_err option"
  asTrailing :: read1
  asCloseOk :: bool
  asPeek :: read1
  asCompressed :: int

record stats =
  sFiles :: int
  sUncompressedBytes :: int
  sCompressedBytes :: int

definition zero_stats :: stats where
  "zero_stats = \<lparr>sFiles = 0, sUncompressedBytes = 0, sCompressedBytes = 0\<rparr>"

record limits =
  lMaxFiles :: int
  lMaxUncompressedBytes :: int

section \<open>Extraction\<close>

definition ensureEmptyDirectory :: "string \<Rightarrow> world \<Rightarrow> ws_error option \<times> world" where
  "ensureEmptyDirectory dest w =
     (case os_stat dest w of
        (Inl e, w1) \<Rightarrow> (Some (DestStat e), w1)
      | (Inr (NDir _), w1) \<Rightarrow>
          (case os_readdir dest w1 of
             (Inl e, w2) \<Rightarrow> (Some (DestRead e), w2)
           | (Inr entries, w2) \<Rightarrow> (if entries \<noteq> [] then Some DestNotEmpty else None, w2))
      | (Inr _, w1) \<Rightarrow> (Some DestNotDir, w1))"

text \<open>The loop over the components below the root.\<close>

fun parents_loop :: "string \<Rightarrow> string list \<Rightarrow> world \<Rightarrow> ws_error option \<times> world" where
  "parents_loop current [] w = (None, w)"
| "parents_loop current (c # cs) w =
     (let current = PJoin current c
      in case os_lstat current w of
           (Inl ENOENT, w1) \<Rightarrow>
             (case os_mkdir current 493 w1 of
                (Inl e, w2) \<Rightarrow> (Some (ParentIO e), w2)
              | (Inr _, w2) \<Rightarrow> parents_loop current cs w2)
         | (Inl e, w1) \<Rightarrow> (Some (ParentIO e), w1)
         | (Inr (NDir _), w1) \<Rightarrow> parents_loop current cs w1
         | (Inr _, w1) \<Rightarrow> (Some ParentNotDir, w1))"

definition ensureSafeParents :: "string \<Rightarrow> string \<Rightarrow> world \<Rightarrow> ws_error option \<times> world" where
  "ensureSafeParents root parent w =
     (case Rel root parent of
        None \<Rightarrow> (Some PathEscapes, w)
      | Some rel \<Rightarrow>
          if rel = ''..'' \<or> HasPrefix rel ''../'' then (Some PathEscapes, w)
          else if rel = ''.'' then (None, w)
          else parents_loop root (Split slash rel) w)"

text \<open>\<^verbatim>\<open>OpenFile\<close>, \<^verbatim>\<open>io.CopyN\<close> and \<^verbatim>\<open>Close\<close> for one regular file.  \<^verbatim>\<open>CopyN\<close> stops
  with an error when the reader yields fewer bytes than the header announces, and the bytes
  it yielded are in the file.\<close>

definition write_regular ::
  "string \<Rightarrow> string \<Rightarrow> nat \<Rightarrow> int \<Rightarrow> bytes \<Rightarrow> world \<Rightarrow> ws_error option \<times> world" where
  "write_regular name target perm sz body w =
     (case os_create_excl target perm w of
        (Inl e, w1) \<Rightarrow> (Some (CreateFailed name e), w1)
      | (Inr q, w1) \<Rightarrow>
          (case fd_write q (take (nat sz) body) w1 of
             (werr, w2) \<Rightarrow>
               (case fd_close w2 of
                  (cerr, w3) \<Rightarrow>
                    if werr \<noteq> None \<or> length body < nat sz then (Some (CopyFailed name), w3)
                    else (map_option (CloseFailed name) cerr, w3))))"

definition perm_bits :: "int \<Rightarrow> nat" where
  "perm_bits m = nat (m mod 512)"

text \<open>The \<^verbatim>\<open>switch\<close> on the type flag.  The boolean says that the expanded size grows.\<close>

definition place_entry ::
  "string \<Rightarrow> string \<Rightarrow> string \<Rightarrow> header \<Rightarrow> bytes \<Rightarrow> world \<Rightarrow> ws_error option \<times> bool \<times> world" where
  "place_entry dest name target h body w =
     (case hTypeflag h of
        TypeDir \<Rightarrow>
          (case os_mkdir target (perm_bits (hMode h)) w of
             (Inl EEXIST, w1) \<Rightarrow> (None, False, w1)
           | (Inl e, w1) \<Rightarrow> (Some (MkdirFailed name e), False, w1)
           | (Inr _, w1) \<Rightarrow> (None, False, w1))
      | TypeSymlink \<Rightarrow>
          (case validateSymlink dest target (hLinkname h) of
             Some e \<Rightarrow> (Some e, False, w)
           | None \<Rightarrow>
               (case os_symlink (hLinkname h) target w of
                  (Inl e, w1) \<Rightarrow> (Some (SymlinkFailed name e), False, w1)
                | (Inr _, w1) \<Rightarrow> (None, False, w1)))
      | TypeOther _ \<Rightarrow> (Some (UnsupportedType name), False, w)
      | _ \<Rightarrow>
          (case write_regular name target (perm_bits (hMode h)) (hSize h) body w of
             (Some e, w1) \<Rightarrow> (Some e, False, w1)
           | (None, w1) \<Rightarrow> (None, True, w1)))"

text \<open>The body of the loop for one header.  The state is the set of names seen, the
  statistics and the world.\<close>

definition extract_entry ::
  "limits \<Rightarrow> string \<Rightarrow> header \<Rightarrow> bytes \<Rightarrow> string list \<Rightarrow> stats \<Rightarrow> world \<Rightarrow>
     ws_error option \<times> string list \<times> stats \<times> world" where
  "extract_entry lim dest h body seen st w =
     (case safeArchivePath (hName h) of
        Inl e \<Rightarrow> (Some e, seen, st, w)
      | Inr name \<Rightarrow>
          if name \<in> set seen then (Some (DuplicatePath name), seen, st, w)
          else
            (let seen' = name # seen; st1 = st\<lparr>sFiles := sFiles st + 1\<rparr>
             in if sFiles st1 > lMaxFiles lim then (Some TooManyFiles, seen', st1, w)
                else if hSize h < 0 \<or> hSize h > lMaxUncompressedBytes lim - sUncompressedBytes st1
                then (Some TooManyBytes, seen', st1, w)
                else
                  (let target = PJoin dest name
                   in case ensureSafeParents dest (Dir target) w of
                        (Some e, w1) \<Rightarrow> (Some e, seen', st1, w1)
                      | (None, w1) \<Rightarrow>
                          (case place_entry dest name target h body w1 of
                             (Some e, _, w2) \<Rightarrow> (Some e, seen', st1, w2)
                           | (None, counted, w2) \<Rightarrow>
                               (None, seen',
                                (if counted
                                 then st1\<lparr>sUncompressedBytes := sUncompressedBytes st1 + hSize h\<rparr>
                                 else st1), w2)))))"

fun extract_loop ::
  "limits \<Rightarrow> string \<Rightarrow> (ctx_err option \<times> tar_next) list \<Rightarrow> ctx_err option \<Rightarrow>
     string list \<Rightarrow> stats \<Rightarrow> world \<Rightarrow> ws_error option \<times> string list \<times> stats \<times> world" where
  "extract_loop lim dest [] endctx seen st w = (map_option WsCtx endctx, seen, st, w)"
| "extract_loop lim dest ((Some c, _) # items) endctx seen st w = (Some (WsCtx c), seen, st, w)"
| "extract_loop lim dest ((None, NextErr) # items) endctx seen st w = (Some TarRead, seen, st, w)"
| "extract_loop lim dest ((None, NextHeader h body) # items) endctx seen st w =
     (case extract_entry lim dest h body seen st w of
        (Some e, r) \<Rightarrow> (Some e, r)
      | (None, seen', st', w') \<Rightarrow> extract_loop lim dest items endctx seen' st' w')"

text \<open>The checks after the tar end marker.\<close>

definition finish_stream :: "archive_stream \<Rightarrow> ws_error option" where
  "finish_stream a =
     (if asTrailing a = ReadByte then Some DataAfterTar
      else if asTrailing a = ReadErr then Some GzipRead
      else if \<not> asCloseOk a then Some GzipClose
      else if asPeek a = ReadByte then Some TrailingData
      else if asPeek a = ReadErr then Some PeekFailed
      else None)"

definition Extract ::
  "archive_stream \<Rightarrow> string \<Rightarrow> limits \<Rightarrow> world \<Rightarrow> ws_error option \<times> stats \<times> world" where
  "Extract a dest lim w =
     (if lMaxFiles lim < 1 \<or> lMaxUncompressedBytes lim < 1 then (Some BadLimits, zero_stats, w)
      else case ensureEmptyDirectory dest w of
        (Some e, w1) \<Rightarrow> (Some e, zero_stats, w1)
      | (None, w1) \<Rightarrow>
          if \<not> asGzipOk a then (Some GzipOpen, zero_stats, w1)
          else case extract_loop lim dest (asItems a) (asEndCtx a) [] zero_stats w1 of
            (Some e, _, st, w2) \<Rightarrow> (Some e, st, w2)
          | (None, _, st, w2) \<Rightarrow>
              (case finish_stream a of
                 Some e \<Rightarrow> (Some e, st, w2)
               | None \<Rightarrow> (None, st\<lparr>sCompressedBytes := asCompressed a\<rparr>, w2)))"

section \<open>Names that pass\<close>

lemma safeArchivePath_ok:
  assumes "safeArchivePath n = Inr c"
  shows "list_all is_name (comps n)" and "comps n \<noteq> []" and "c = Join slash (comps n)"
proof -
  have na: "\<not> IsAbs n" and c: "c = Clean n" and nd: "c \<noteq> ''.''" and ne: "\<not> escapes c"
    using assms by (auto simp: safeArchivePath_def Let_def escapes_def split: if_splits)
  have cl: "clean_list False (comps n)" using clean_comps_clean [of n] na by simp
  have r: "c = render False (comps n)" using c na by (simp add: Clean_def)
  show "comps n \<noteq> []" using r nd by (auto simp: render_def)
  then show "c = Join slash (comps n)" using r by (simp add: render_def)
  have "\<nexists>ds. comps n = ''..'' # ds" using ne r escapes_render [OF cl] by simp
  then show "list_all is_name (comps n)"
    using cl unfolding clean_list_def
    by (metis append_Cons append_Nil not0_implies_Suc replicate.simps)
qed

section \<open>What extraction adds\<close>

text \<open>The places below \<open>D\<close> on the way to the components \<open>ns\<close>, \<open>D @ ns\<close> included.\<close>

definition on_way :: "phys \<Rightarrow> string list \<Rightarrow> phys set" where
  "on_way D ns = {D @ ms | ms. ms \<noteq> [] \<and> prefix ms ns}"

lemma on_way_Cons: "on_way (D @ [c]) cs \<subseteq> on_way D (c # cs)"
  by (fastforce simp: on_way_def)

lemma on_way_append: "on_way D ns \<subseteq> on_way D (ns @ ms)"
  by (auto simp: on_way_def prefix_def)

lemma on_way_first: "D @ [c] \<in> on_way D (c # cs)"
  by (auto simp: on_way_def)

lemma on_way_last: "ns \<noteq> [] \<Longrightarrow> D @ ns \<in> on_way D ns"
  by (auto simp: on_way_def)

text \<open>One component of \<^verbatim>\<open>ensureSafeParents\<close>: it is a real directory afterwards, or the call
  fails.\<close>

lemma parents_step:
  assumes run: "parents_loop (render True cur) (c # cs) w = (e, w')"
    and nm: "list_all is_name (cur @ [c])" and dir: "at_dir (w_fs w) cur d"
  obtains (fails) "e \<noteq> None" "extends (w_fs w) (w_fs w') (on_way d (c # cs))"
  | (steps) w2 where "parents_loop (render True (cur @ [c])) cs w2 = (e, w')" "extends (w_fs w) (w_fs w2) (on_way d (c # cs))"
      "is_dir (w_fs w2) (d @ [c])"
proof -
  let ?p = "render True (cur @ [c])"
  have pj: "PJoin (render True cur) c = ?p"
    using nm by (subst PJoin_name) (simp_all add: IsAbs_render comps_render clean_list_names)
  have loc: "locate (w_fs w) ?p = Inr (d @ [c])" using dir nm by (rule at_dir_locate)
  obtain r w1 where ls: "os_lstat ?p w = (r, w1)" by fastforce
  then have fs1: "w_fs w1 = w_fs w" by (rule os_lstat_fs)
  show ?thesis
  proof (cases r)
    case (Inr nd)
    with ls loc have "map_of (w_fs w) (d @ [c]) = Some nd" using os_lstat_ok [of ?p w nd w1] by simp
    then show ?thesis
      using run Inr ls pj fs1 steps [of w1] fails by (cases nd) (auto simp: is_dir_def)
  next
    case Inl: (Inl err)
    show ?thesis
    proof (cases "err = ENOENT")
      case True
      obtain r2 w2 where mk: "os_mkdir ?p 493 w1 = (r2, w2)" by fastforce
      have ex: "extends (w_fs w) (w_fs w2) (on_way d (c # cs))"
        using os_create_extends [OF mk [unfolded os_mkdir_def]] loc fs1 by (simp add: on_way_first)
      from mk show ?thesis unfolding os_mkdir_def
      proof (cases rule: os_create_cases)
        case (fail e')
        with run Inl True ls pj mk ex show ?thesis by (intro fails) auto
      next
        case (ok q)
        with loc fs1 have "is_dir (w_fs w2) (d @ [c])" by (simp add: is_dir_def)
        with run Inl True ls pj mk ok ex show ?thesis by (intro steps [of w2]) auto
      qed
    next
      case False
      with run Inl ls pj fs1 show ?thesis by (intro fails) (cases err; auto)+
    qed
  qed
qed

lemma parents_loop_extends:
  assumes "parents_loop (render True cur) cs w = (e, w')"
    and "list_all is_name (cur @ cs)" and "at_dir (w_fs w) cur d"
  shows "extends (w_fs w) (w_fs w') (on_way d cs)
    \<and> (e = None \<longrightarrow> at_dir (w_fs w') (cur @ cs) (d @ cs))"
  using assms
proof (induction cs arbitrary: cur d w)
  case (Cons c cs)
  have nm: "list_all is_name (cur @ [c])" and c: "is_name c" using Cons.prems(2) by simp_all
  from Cons.prems(1) nm Cons.prems(3) show ?case
  proof (cases rule: parents_step)
    case (steps w2)
    have "at_dir (w_fs w2) (cur @ [c]) (d @ [c])"
      using at_dir_mono [OF steps(2) Cons.prems(3)] c steps(3) by (rule at_dir_snoc)
    then have "extends (w_fs w2) (w_fs w') (on_way (d @ [c]) cs)
        \<and> (e = None \<longrightarrow> at_dir (w_fs w') ((cur @ [c]) @ cs) ((d @ [c]) @ cs))"
      using Cons.IH [where d = "d @ [c]", OF steps(1)] Cons.prems(2) by simp
    then show ?thesis
      using extends_trans [OF steps(2)] extends_mono [OF _ on_way_Cons] by fastforce
  qed auto
qed simp

lemma ensureSafeParents_extends:
  assumes "ensureSafeParents (render True R) (render True (R @ ns)) w = (e, w')"
    and nm: "list_all is_name (R @ ns)" and "at_dir (w_fs w) R D"
  shows "extends (w_fs w) (w_fs w') (on_way D ns)
    \<and> (e = None \<longrightarrow> at_dir (w_fs w') (R @ ns) (D @ ns))"
proof -
  have "Rel (render True R) (render True (R @ ns)) = Some (render False ns)"
    using Rel_names [of "render True R" ns] nm
    by (simp add: IsAbs_render comps_render clean_list_names)
  moreover have "\<not> escapes (render False ns)"
    using nm by (auto simp: escapes_render clean_list_names dest: is_nameD)
  ultimately have run: "(if render False ns = ''.'' then (None, w)
      else parents_loop (render True R) (Split slash (render False ns)) w) = (e, w')"
    using assms(1) by (simp add: ensureSafeParents_def escapes_def)
  show ?thesis
  proof (cases "ns = []")
    case True
    with run assms(3) show ?thesis by (simp add: render_def)
  next
    case False
    then have "Split slash (render False ns) = ns"
      using nm by (simp add: render_def Split_Join_names)
    moreover from this have "render False ns \<noteq> ''.''"
      using nm by (auto simp: is_name_def)
    ultimately show ?thesis
      using run assms(3) nm by (intro parents_loop_extends) auto
  qed
qed

text \<open>The three calls that make one regular file.\<close>

lemma write_regular_extends:
  assumes run: "write_regular name p perm sz body w = (e, w')"
    and loc: "locate (w_fs w) p = Inr q" and q: "q \<in> S"
  shows "extends (w_fs w) (w_fs w') S"
    and "e = None \<Longrightarrow> map_of (w_fs w) q = None \<and> int (length body) \<ge> sz
      \<and> map_of (w_fs w') q = Some (NFile perm (take (nat sz) body))"
    and "p' \<noteq> q \<Longrightarrow> map_of (w_fs w') p' = map_of (w_fs w) p'"
proof -
  obtain r w1 where cr: "os_create_excl p perm w = (r, w1)" by fastforce
  have "extends (w_fs w) (w_fs w') S
    \<and> (e = None \<longrightarrow> map_of (w_fs w) q = None \<and> int (length body) \<ge> sz
        \<and> map_of (w_fs w') q = Some (NFile perm (take (nat sz) body)))
    \<and> (p' \<noteq> q \<longrightarrow> map_of (w_fs w') p' = map_of (w_fs w) p')"
    using cr unfolding os_create_excl_def
  proof (cases rule: os_create_cases)
    case (fail err)
    with run cr show ?thesis by (auto simp: write_regular_def)
  next
    case (ok q')
    with loc have ok': "r = Inr q" "map_of (w_fs w) q = None" "w_fs w1 = (q, NFile perm []) # w_fs w"
      by auto
    obtain we w2 where wr: "fd_write q (take (nat sz) body) w1 = (we, w2)" by fastforce
    obtain ce w3 where clo: "fd_close w2 = (ce, w3)" by fastforce
    have res: "w' = w3" "e = None \<Longrightarrow> we = None \<and> \<not> length body < nat sz"
      using run cr ok'(1) wr clo by (auto simp: write_regular_def split: if_splits)
    have "w_fs w3 = w_fs w2" using clo by (rule fd_close_fs)
    moreover from wr have "w_fs w2 = w_fs w1 \<and> we \<noteq> None
        \<or> w_fs w2 = (q, NFile perm (take (nat sz) body)) # w_fs w1 \<and> we = None"
      by (cases rule: fd_write_cases) (use ok'(3) in auto)
    ultimately show ?thesis
      using res ok' q by (auto simp: extends_def map_le_upd_fresh split: if_splits)
  qed
  then show "extends (w_fs w) (w_fs w') S"
    and "e = None \<Longrightarrow> map_of (w_fs w) q = None \<and> int (length body) \<ge> sz
      \<and> map_of (w_fs w') q = Some (NFile perm (take (nat sz) body))"
    and "p' \<noteq> q \<Longrightarrow> map_of (w_fs w') p' = map_of (w_fs w) p'"
    by blast+
qed

text \<open>Preparing parents makes directories and nothing else.\<close>

definition adds_dirs :: "fs \<Rightarrow> fs \<Rightarrow> bool" where
  "adds_dirs f g =
     (\<forall>q. map_of g q = map_of f q \<or> map_of f q = None \<and> map_of g q = Some (NDir 493))"

lemma parents_loop_adds_dirs:
  "parents_loop cur cs w = (e, w') \<Longrightarrow> adds_dirs (w_fs w) (w_fs w')"
proof (induction cs arbitrary: cur w)
  case Nil
  then show ?case by (simp add: adds_dirs_def)
next
  case (Cons c cs)
  let ?p = "PJoin cur c"
  obtain r w1 where ls: "os_lstat ?p w = (r, w1)" by fastforce
  then have fs1: "w_fs w1 = w_fs w" by (rule os_lstat_fs)
  consider (missing) "r = Inl ENOENT" | (dir) perm where "r = Inr (NDir perm)"
    | (stop) "w' = w1"
    using Cons.prems ls by (auto simp: Let_def split: sum.splits errno.splits node.splits)
  then show ?case
  proof cases
    case missing
    obtain r2 w2 where mk: "os_mkdir ?p 493 w1 = (r2, w2)" by fastforce
    then have "adds_dirs (w_fs w) (w_fs w2)" unfolding os_mkdir_def
      by (cases rule: os_create_cases) (auto simp: adds_dirs_def fs1)
    moreover have "w' = w2 \<or> parents_loop ?p cs w2 = (e, w')"
      using Cons.prems ls missing mk by (auto simp: Let_def split: sum.splits)
    ultimately show ?thesis
      using Cons.IH [of ?p w2] unfolding adds_dirs_def by metis
  next
    case dir
    then show ?thesis using Cons.IH [of ?p w1] Cons.prems ls fs1 by (simp add: Let_def)
  next
    case stop
    then show ?thesis using fs1 by (simp add: adds_dirs_def)
  qed
qed

lemma ensureSafeParents_adds_dirs:
  "ensureSafeParents root parent w = (e, w') \<Longrightarrow> adds_dirs (w_fs w) (w_fs w')"
  by (auto simp: ensureSafeParents_def adds_dirs_def [of f f for f] split: option.splits if_splits
      dest: parents_loop_adds_dirs)

text \<open>What a header asks for.\<close>

definition node_ok :: "header \<Rightarrow> bytes \<Rightarrow> node \<Rightarrow> bool" where
  "node_ok h body nd =
     (case hTypeflag h of
        TypeDir \<Rightarrow> (case nd of NDir _ \<Rightarrow> True | _ \<Rightarrow> False)
      | TypeSymlink \<Rightarrow> nd = NLink (hLinkname h)
      | TypeOther _ \<Rightarrow> False
      | _ \<Rightarrow> nd = NFile (perm_bits (hMode h)) (take (nat (hSize h)) body)
              \<and> hSize h \<le> int (length body))"

lemma place_entry_extends:
  assumes run: "place_entry dest name p h body w = (e, counted, w')"
    and loc: "locate (w_fs w) p = Inr q" and q: "q \<in> S" "q \<noteq> []"
  shows "extends (w_fs w) (w_fs w') S"
    and "p' \<noteq> q \<Longrightarrow> map_of (w_fs w') p' = map_of (w_fs w) p'"
    and "e = None \<Longrightarrow> (\<exists>nd. map_of (w_fs w') q = Some nd \<and> node_ok h body nd)
      \<or> hTypeflag h = TypeDir \<and> map_of (w_fs w) q \<noteq> None"
    and "e = None \<Longrightarrow> counted \<longleftrightarrow> hTypeflag h = TypeReg \<or> hTypeflag h = TypeRegA"
proof -
  let ?goal = "extends (w_fs w) (w_fs w') S
    \<and> (p' \<noteq> q \<longrightarrow> map_of (w_fs w') p' = map_of (w_fs w) p')
    \<and> (e = None \<longrightarrow> (\<exists>nd. map_of (w_fs w') q = Some nd \<and> node_ok h body nd)
        \<or> hTypeflag h = TypeDir \<and> map_of (w_fs w) q \<noteq> None)
    \<and> (e = None \<longrightarrow> (counted \<longleftrightarrow> hTypeflag h = TypeReg \<or> hTypeflag h = TypeRegA))"
  have reg: ?goal if t: "hTypeflag h = TypeReg \<or> hTypeflag h = TypeRegA"
  proof -
    obtain e1 w1 where wr: "write_regular name p (perm_bits (hMode h)) (hSize h) body w = (e1, w1)"
      by fastforce
    then have "e = e1" "w' = w1" "e1 = None \<Longrightarrow> counted"
      using run t by (auto simp: place_entry_def split: option.splits)
    then show ?thesis
      using write_regular_extends(1,2) [OF wr loc q(1)] write_regular_extends(3) [OF wr loc q(1), of p'] t
      by (auto simp: node_ok_def)
  qed
  have "?goal"
  proof (cases "hTypeflag h")
    case TypeDir
    obtain r w1 where mk: "os_create p (NDir (perm_bits (hMode h))) w = (r, w1)" by fastforce
    have ex: "extends (w_fs w) (w_fs w1) S" using mk loc q(1) by (rule os_create_extends)
    have "w' = w1" and e: "e = None \<Longrightarrow> r = Inl EEXIST \<or> (\<exists>x. r = Inr x)" "e = None \<Longrightarrow> \<not> counted"
      using run TypeDir mk by (auto simp: place_entry_def os_mkdir_def split: sum.splits errno.splits)
    note facts = this ex loc q TypeDir os_create_EEXIST [OF _ loc q(2)]
    from mk show ?thesis
      by (cases rule: os_create_cases) (use mk facts in \<open>auto simp: node_ok_def\<close>)
  next
    case TypeSymlink
    show ?thesis
    proof (cases "validateSymlink dest p (hLinkname h)")
      case None
      obtain r w1 where mk: "os_create p (NLink (hLinkname h)) w = (r, w1)" by fastforce
      have ex: "extends (w_fs w) (w_fs w1) S" using mk loc q(1) by (rule os_create_extends)
      have "w' = w1" and e: "e = None \<Longrightarrow> \<exists>x. r = Inr x" "e = None \<Longrightarrow> \<not> counted"
        using run TypeSymlink mk None
        by (auto simp: place_entry_def os_symlink_def split: sum.splits)
      note facts = this ex loc q TypeSymlink
      from mk show ?thesis
        by (cases rule: os_create_cases) (use facts in \<open>auto simp: node_ok_def\<close>)
    qed (use run TypeSymlink in \<open>auto simp: place_entry_def\<close>)
  qed (use reg run in \<open>auto simp: place_entry_def\<close>)
  then show "extends (w_fs w) (w_fs w') S"
    and "p' \<noteq> q \<Longrightarrow> map_of (w_fs w') p' = map_of (w_fs w) p'"
    and "e = None \<Longrightarrow> (\<exists>nd. map_of (w_fs w') q = Some nd \<and> node_ok h body nd)
      \<or> hTypeflag h = TypeDir \<and> map_of (w_fs w) q \<noteq> None"
    and "e = None \<Longrightarrow> counted \<longleftrightarrow> hTypeflag h = TypeReg \<or> hTypeflag h = TypeRegA"
    by blast+
qed

section \<open>One header, then the whole stream\<close>

text \<open>A node below the destination that is not a directory was placed for a name seen.\<close>

definition only_seen :: "phys \<Rightarrow> string list \<Rightarrow> fs \<Rightarrow> bool" where
  "only_seen D seen f =
     (\<forall>ns nd. ns \<noteq> [] \<longrightarrow> map_of f (D @ ns) = Some nd \<longrightarrow> (\<forall>p. nd \<noteq> NDir p) \<longrightarrow> Join slash ns \<in> set seen)"

lemma only_seen_adds_dirs: "only_seen D seen f \<Longrightarrow> adds_dirs f g \<Longrightarrow> only_seen D seen g"
  unfolding only_seen_def adds_dirs_def by (metis option.inject)

text \<open>The accounting of one accepted header.\<close>

definition entry_size :: "header \<Rightarrow> int" where
  "entry_size h = (if hTypeflag h = TypeReg \<or> hTypeflag h = TypeRegA then hSize h else 0)"

lemma extract_entry_stats:
  assumes "extract_entry lim dest h body seen st w = (e, seen', st', w')"
  shows "sFiles st' \<le> sFiles st + 1" and "sFiles st \<le> sFiles st'"
    and "0 \<le> sUncompressedBytes st \<Longrightarrow> sUncompressedBytes st \<le> lMaxUncompressedBytes lim \<Longrightarrow>
      sUncompressedBytes st \<le> sUncompressedBytes st' \<and> sUncompressedBytes st' \<le> lMaxUncompressedBytes lim"
    and "e = None \<Longrightarrow> sFiles st' = sFiles st + 1 \<and> sFiles st' \<le> lMaxFiles lim"
  using assms
  by (auto simp: extract_entry_def Let_def split: sum.splits if_splits prod.splits option.splits)

lemma extract_entry_cases:
  assumes run: "extract_entry lim (render True R) h body seen st w = (e, seen', st', w')"
    and R: "list_all is_name R" and at: "at_dir (w_fs w) R D"
  obtains (reject) "e \<noteq> None" and "extends (w_fs w) (w_fs w') (on_way D (comps (hName h)))"
  | (placed) name w1 cnt p where "safeArchivePath (hName h) = Inr name" and "name \<notin> set seen"
      and "extends (w_fs w) (w_fs w1) (on_way D (comps (hName h)))"
      and "adds_dirs (w_fs w) (w_fs w1)"
      and "locate (w_fs w1) p = Inr (D @ comps (hName h))"
      and "place_entry (render True R) name p h body w1 = (e, cnt, w')"
      and "e = None \<Longrightarrow> seen' = name # seen
        \<and> sUncompressedBytes st' = sUncompressedBytes st + (if cnt then hSize h else 0)"
proof (cases "safeArchivePath (hName h)")
  case (Inl x)
  with run show thesis by (intro reject) (auto simp: extract_entry_def)
next
  case (Inr name)
  let ?ns = "comps (hName h)"
  note nm = safeArchivePath_ok [OF Inr]
  obtain ms m where ns: "?ns = ms @ [m]" using nm(2) by (metis append_butlast_last_id)
  have Rns: "list_all is_name (R @ ms @ [m])" using R nm(1) ns by simp
  let ?target = "render True (R @ ms @ [m])"
  have target: "PJoin (render True R) name = ?target"
    using PJoin_names [of "render True R" ?ns] R nm ns
    by (simp add: IsAbs_render comps_render clean_list_names)
  have dir: "Dir ?target = render True (R @ ms)"
    using Dir_render [of "R @ ms" m] Rns by simp
  obtain e1 w1 where par: "ensureSafeParents (render True R) (render True (R @ ms)) w = (e1, w1)"
    by fastforce
  have "extends (w_fs w) (w_fs w1) (on_way D ms)"
    and at1: "e1 = None \<longrightarrow> at_dir (w_fs w1) (R @ ms) (D @ ms)"
    using ensureSafeParents_extends [OF par _ at] Rns by simp_all
  then have ex1: "extends (w_fs w) (w_fs w1) (on_way D ?ns)"
    using ns on_way_append by (metis extends_mono)
  show thesis
  proof (cases "e1 = None \<and> name \<notin> set seen \<and> \<not> sFiles st + 1 > lMaxFiles lim
      \<and> \<not> (hSize h < 0 \<or> hSize h > lMaxUncompressedBytes lim - sUncompressedBytes st)")
    case False
    with run Inr target dir par have "w_fs w' = w_fs w \<or> w_fs w' = w_fs w1" and "e \<noteq> None"
      by (auto simp: extract_entry_def Let_def split: if_splits)
    with ex1 show thesis by (intro reject) auto
  next
    case True
    then have loc: "locate (w_fs w1) ?target = Inr (D @ ?ns)"
      using at_dir_locate [of "w_fs w1" "R @ ms" "D @ ms" m] at1 Rns ns by simp
    obtain e2 cnt w2 where "place_entry (render True R) name ?target h body w1 = (e2, cnt, w2)"
      by (cases "place_entry (render True R) name ?target h body w1") auto
    with run Inr target dir par True show thesis
      by (intro placed [OF Inr _ ex1 ensureSafeParents_adds_dirs [OF par] loc])
        (auto simp: extract_entry_def Let_def split: if_splits option.splits)
  qed
qed

lemma place_entry_only_seen:
  assumes pl: "place_entry dest name p h body w = (None, cnt, w')"
    and loc: "locate (w_fs w) p = Inr (D @ ns)" and ns: "ns \<noteq> []" "name = Join slash ns"
    and os: "only_seen D seen (w_fs w)" and fresh: "name \<notin> set seen"
  shows "only_seen D (name # seen) (w_fs w')"
    and "\<exists>nd. map_of (w_fs w') (D @ ns) = Some nd \<and> node_ok h body nd"
proof -
  have q: "D @ ns \<in> on_way D ns" "D @ ns \<noteq> []" using ns(1) by (simp_all add: on_way_last)
  note pe = place_entry_extends [OF pl loc q]
  show "only_seen D (name # seen) (w_fs w')"
    unfolding only_seen_def
  proof (intro allI impI)
    fix xs nd assume x: "xs \<noteq> []" "map_of (w_fs w') (D @ xs) = Some nd" "\<forall>p. nd \<noteq> NDir p"
    show "Join slash xs \<in> set (name # seen)"
    proof (cases "xs = ns")
      case False
      then have "map_of (w_fs w) (D @ xs) = Some nd" using pe(2) x by simp
      then show ?thesis using os x unfolding only_seen_def by simp
    qed (simp add: ns)
  qed
  show "\<exists>nd. map_of (w_fs w') (D @ ns) = Some nd \<and> node_ok h body nd"
  proof (rule ccontr)
    assume neg: "\<not> ?thesis"
    then obtain nd where t: "hTypeflag h = TypeDir" and nd: "map_of (w_fs w) (D @ ns) = Some nd"
      using pe(3) by auto
    then have "map_of (w_fs w') (D @ ns) = Some nd" using pe(1) extends_kept by blast
    moreover have "\<exists>p. nd = NDir p" using os nd ns fresh unfolding only_seen_def by metis
    ultimately show False using t neg by (auto simp: node_ok_def)
  qed
qed

lemma extract_entry_extends:
  assumes run: "extract_entry lim (render True R) h body seen st w = (e, seen', st', w')"
    and R: "list_all is_name R" and at: "at_dir (w_fs w) R D"
  shows "extends (w_fs w) (w_fs w') (on_way D (comps (hName h)))"
  using assms
proof (cases rule: extract_entry_cases)
  case reject
  then show ?thesis by simp
next
  case (placed name w1 cnt p)
  then have "comps (hName h) \<noteq> []" using safeArchivePath_ok by blast
  then have "extends (w_fs w1) (w_fs w') (on_way D (comps (hName h)))"
    using placed by (intro place_entry_extends(1) [OF placed(6,5)]) (simp_all add: on_way_last)
  with placed(3) show ?thesis by (rule extends_trans)
qed

text \<open>An accepted header is in place, and the accounting is exact.\<close>

lemma extract_entry_placed:
  assumes run: "extract_entry lim (render True R) h body seen st w = (None, seen', st', w')"
    and R: "list_all is_name R" and at: "at_dir (w_fs w) R D" and os: "only_seen D seen (w_fs w)"
  shows "only_seen D seen' (w_fs w')"
    and "\<exists>nd. map_of (w_fs w') (D @ comps (hName h)) = Some nd \<and> node_ok h body nd"
    and "seen' = Join slash (comps (hName h)) # seen" and "Join slash (comps (hName h)) \<notin> set seen"
    and "list_all is_name (comps (hName h))" and "comps (hName h) \<noteq> []"
    and "sUncompressedBytes st' = sUncompressedBytes st + entry_size h"
proof -
  obtain name w1 cnt p where pl: "safeArchivePath (hName h) = Inr name" "name \<notin> set seen"
      "adds_dirs (w_fs w) (w_fs w1)" "locate (w_fs w1) p = Inr (D @ comps (hName h))"
      "place_entry (render True R) name p h body w1 = (None, cnt, w')"
      "seen' = name # seen"
      "sUncompressedBytes st' = sUncompressedBytes st + (if cnt then hSize h else 0)"
    using run R at by (cases rule: extract_entry_cases) auto
  note nm = safeArchivePath_ok [OF pl(1)]
  have "only_seen D seen (w_fs w1)" using os pl(3) by (rule only_seen_adds_dirs)
  note po = place_entry_only_seen [OF pl(5,4) nm(2,3) this pl(2)]
  have "cnt \<longleftrightarrow> hTypeflag h = TypeReg \<or> hTypeflag h = TypeRegA"
    using nm(2) by (intro place_entry_extends(4) [OF pl(5,4)]) (auto simp: on_way_last)
  then show "sUncompressedBytes st' = sUncompressedBytes st + entry_size h"
    using pl(7) by (simp add: entry_size_def)
  show "only_seen D seen' (w_fs w')"
    and "\<exists>nd. map_of (w_fs w') (D @ comps (hName h)) = Some nd \<and> node_ok h body nd"
    and "seen' = Join slash (comps (hName h)) # seen" and "Join slash (comps (hName h)) \<notin> set seen"
    and "list_all is_name (comps (hName h))" and "comps (hName h) \<noteq> []"
    using po pl nm by simp_all
qed

text \<open>The places strictly below a physical directory.\<close>

definition below :: "phys \<Rightarrow> phys set" where
  "below D = {D @ ns | ns. ns \<noteq> []}"

lemma on_way_below: "on_way D ns \<subseteq> below D"
  by (auto simp: on_way_def below_def)

lemma extract_loop_extends:
  "extract_loop lim (render True R) items endctx seen st w = (e, seen', st', w') \<Longrightarrow>
     list_all is_name R \<Longrightarrow> at_dir (w_fs w) R D \<Longrightarrow> extends (w_fs w) (w_fs w') (below D)"
proof (induction lim "render True R" items endctx seen st w rule: extract_loop.induct)
  case (4 lim h body items endctx seen st w)
  obtain e1 s1 t1 w1 where en: "extract_entry lim (render True R) h body seen st w = (e1, s1, t1, w1)"
    by (cases "extract_entry lim (render True R) h body seen st w") auto
  have ex: "extends (w_fs w) (w_fs w1) (below D)"
    using extract_entry_extends [OF en 4(3,4)] on_way_below by (rule extends_mono)
  show ?case
  proof (cases e1)
    case None
    then have "extends (w_fs w1) (w_fs w') (below D)"
      using 4(1) [OF en [symmetric] None] 4(2-) en at_dir_mono [OF ex 4(4)] by simp
    with ex show ?thesis by (rule extends_trans)
  next
    case (Some x)
    then show ?thesis using 4 en ex by simp
  qed
qed simp_all

lemma extract_loop_stats:
  "extract_loop lim dest items endctx seen st w = (e, seen', st', w') \<Longrightarrow>
     0 \<le> sUncompressedBytes st \<Longrightarrow> sUncompressedBytes st \<le> lMaxUncompressedBytes lim \<Longrightarrow>
     sFiles st \<le> lMaxFiles lim \<Longrightarrow>
     sFiles st' \<le> lMaxFiles lim + 1 \<and> 0 \<le> sUncompressedBytes st'
     \<and> sUncompressedBytes st' \<le> lMaxUncompressedBytes lim"
proof (induction lim dest items endctx seen st w rule: extract_loop.induct)
  case (4 lim dest h body items endctx seen st w)
  obtain e1 s1 t1 w1 where en: "extract_entry lim dest h body seen st w = (e1, s1, t1, w1)"
    by (cases "extract_entry lim dest h body seen st w") auto
  note es = extract_entry_stats [OF en]
  show ?case
  proof (cases e1)
    case None
    then show ?thesis
      using 4(1) [OF en [symmetric] None] 4(2-) en es by simp
  next
    case (Some x)
    then show ?thesis using 4(2-) en es by auto
  qed
qed auto

text \<open>What a successful run has done for one item of the stream.\<close>

definition item_placed :: "phys \<Rightarrow> fs \<Rightarrow> tar_next \<Rightarrow> bool" where
  "item_placed D f nx =
     (case nx of
        NextErr \<Rightarrow> False
      | NextHeader h body \<Rightarrow>
          list_all is_name (comps (hName h)) \<and> comps (hName h) \<noteq> []
          \<and> (case map_of f (D @ comps (hName h)) of None \<Rightarrow> False | Some nd \<Rightarrow> node_ok h body nd))"

definition item_size :: "tar_next \<Rightarrow> int" where
  "item_size nx = (case nx of NextErr \<Rightarrow> 0 | NextHeader h _ \<Rightarrow> entry_size h)"

lemma item_placed_mono: "item_placed D f nx \<Longrightarrow> extends f g S \<Longrightarrow> item_placed D g nx"
  by (auto simp: item_placed_def split: tar_next.splits option.splits dest: extends_kept)

lemma extract_loop_placed:
  "extract_loop lim (render True R) items endctx seen st w = (None, seen', st', w') \<Longrightarrow>
     list_all is_name R \<Longrightarrow> at_dir (w_fs w) R D \<Longrightarrow> only_seen D seen (w_fs w) \<Longrightarrow>
     sFiles st \<le> lMaxFiles lim \<Longrightarrow>
     list_all (item_placed D (w_fs w')) (map snd items)
     \<and> sFiles st' = sFiles st + int (length items) \<and> sFiles st' \<le> lMaxFiles lim
     \<and> sUncompressedBytes st' = sUncompressedBytes st + sum_list (map (item_size \<circ> snd) items)"
proof (induction lim "render True R" items endctx seen st w rule: extract_loop.induct)
  case (4 lim h body items endctx seen st w)
  obtain s1 t1 w1 where en: "extract_entry lim (render True R) h body seen st w = (None, s1, t1, w1)"
    and run: "extract_loop lim (render True R) items endctx s1 t1 w1 = (None, seen', st', w')"
    using 4(2) by (cases "extract_entry lim (render True R) h body seen st w") (auto split: option.splits)
  note pl = extract_entry_placed [OF en 4(3-5)] and st = extract_entry_stats(4) [OF en refl]
  have at1: "at_dir (w_fs w1) R D"
    using extract_entry_extends [OF en 4(3,4)] 4(4) by (rule at_dir_mono)
  have "item_placed D (w_fs w1) (NextHeader h body)" using pl(2,5,6) by (auto simp: item_placed_def)
  then have "item_placed D (w_fs w') (NextHeader h body)"
    using extract_loop_extends [OF run 4(3) at1] by (rule item_placed_mono)
  then show ?case
    using 4(1) [OF en [symmetric] refl refl refl run 4(3) at1 pl(1)] st pl(7)
    by (simp add: item_size_def)
qed (simp_all add: map_option_case split: option.splits)

section \<open>The whole of Extract\<close>

lemma ensureEmptyDirectory_fs: "ensureEmptyDirectory dest w = (e, w') \<Longrightarrow> w_fs w' = w_fs w"
  by (auto simp: ensureEmptyDirectory_def split: prod.splits sum.splits node.splits)
    (metis os_stat_fs os_readdir_fs)+

lemma ensureEmptyDirectory_ok:
  assumes "ensureEmptyDirectory dest w = (None, w')" and "resolve (w_fs w) dest = Inr D"
  shows "is_dir (w_fs w) D" and "children (w_fs w) D = []"
proof -
  obtain r w1 where s: "os_stat dest w = (r, w1)" by fastforce
  obtain r2 w2 where d: "os_readdir dest w1 = (r2, w2)" by fastforce
  have fs1: "w_fs w1 = w_fs w" using s by (rule os_stat_fs)
  obtain t tw where t: "tick w1 = (t, tw)" by fastforce
  then have tfs: "w_fs tw = w_fs w" using fs1 by (simp add: tick_fs)
  have "r2 = Inr []"
    using assms(1) s d by (auto simp: ensureEmptyDirectory_def split: sum.splits node.splits if_splits)
  then show "is_dir (w_fs w) D" and "children (w_fs w) D = []"
    using d t assms(2) tfs by (auto simp: os_readdir_def split: option.splits if_splits)
qed

text \<open>A clean absolute destination, as \<^verbatim>\<open>filepath.Join\<close> returns it.\<close>

definition clean_abs :: "string \<Rightarrow> bool" where
  "clean_abs p = (IsAbs p \<and> Clean p = p)"

lemma clean_absD:
  assumes "clean_abs p"
  shows "p = render True (comps p)" and "list_all is_name (comps p)"
  using assms by (auto simp: clean_abs_def comps_names_abs Clean_def)

lemma Extract_cases:
  assumes "Extract a dest lim w = (e, st, w')"
  obtains (early) "e \<noteq> None" and "w_fs w' = w_fs w" and "st = zero_stats"
  | (ran) e1 w1 seen st1 where "ensureEmptyDirectory dest w = (None, w1)"
      and "1 \<le> lMaxFiles lim" and "1 \<le> lMaxUncompressedBytes lim"
      and "extract_loop lim dest (asItems a) (asEndCtx a) [] zero_stats w1 = (e1, seen, st1, w')"
      and "sFiles st = sFiles st1" and "sUncompressedBytes st = sUncompressedBytes st1"
      and "e = None \<Longrightarrow> e1 = None"
proof (cases "lMaxFiles lim < 1 \<or> lMaxUncompressedBytes lim < 1")
  case True
  with assms show thesis by (intro early) (auto simp: Extract_def)
next
  case False
  obtain e0 w1 where en: "ensureEmptyDirectory dest w = (e0, w1)" by fastforce
  then have fs1: "w_fs w1 = w_fs w" by (rule ensureEmptyDirectory_fs)
  show thesis
  proof (cases "e0 = None \<and> asGzipOk a")
    case True
    obtain e1 seen st1 w2 where
      "extract_loop lim dest (asItems a) (asEndCtx a) [] zero_stats w1 = (e1, seen, st1, w2)"
      by (cases "extract_loop lim dest (asItems a) (asEndCtx a) [] zero_stats w1") auto
    with assms False en True show thesis
      by (intro ran [of w1 e1 seen st1]) (auto simp: Extract_def split: option.splits)
  qed (use assms False en fs1 in \<open>auto simp: Extract_def intro!: early split: option.splits if_splits\<close>)
qed

lemma Extract_extends:
  assumes "clean_abs dest" and "resolve (w_fs w) dest = Inr D" and "Extract a dest lim w = (e, st, w')"
  shows "extends (w_fs w) (w_fs w') (below D)"
proof -
  note R = clean_absD [OF assms(1)]
  show ?thesis
    using assms(3)
  proof (cases rule: Extract_cases)
    case (ran e1 w1 seen st1)
    have fs1: "w_fs w1 = w_fs w" using ran(1) by (rule ensureEmptyDirectory_fs)
    have "at_dir (w_fs w1) (comps dest) D"
      using ensureEmptyDirectory_ok [OF ran(1) assms(2)] assms(2) R fs1 by (simp add: at_dir_resolve)
    then show ?thesis
      using extract_loop_extends [of lim "comps dest"] ran(4) R fs1 by metis
  qed simp
qed

text \<open>C4. Extraction is confined.  Whatever the archive, and whether extraction succeeds or stops
  at any point with any error, the file system is unchanged everywhere except strictly below the
  physical directory that the destination path resolves to: no node outside is created, changed
  or removed, even when the archive holds symbolic links and hostile names.\<close>

theorem Extract_confined:
  assumes "clean_abs dest" and "resolve (w_fs w) dest = Inr D"
    and "Extract a dest lim w = (e, st, w')"
    and "\<nexists>ns. ns \<noteq> [] \<and> q = D @ ns"
  shows "map_of (w_fs w') q = map_of (w_fs w) q"
proof -
  have "q \<notin> below D" using assms(4) by (auto simp: below_def)
  with Extract_extends [OF assms(1-3)] show ?thesis by (rule extends_outside)
qed



section \<open>Symbolic links: lexical, not physical containment\<close>

lemma validateSymlink_iff:
  assumes "list_all is_name (R @ ns @ [m])"
  shows "validateSymlink (render True R) (render True (R @ ns @ [m])) link = None \<longleftrightarrow>
    link \<noteq> [] \<and> \<not> IsAbs link \<and> (\<exists>ms. clean_comps True (R @ ns @ Split slash link) = R @ ms)"
proof -
  let ?t = "PJoin (render True (R @ ns)) link"
  have dir: "Dir (render True (R @ ns @ [m])) = render True (R @ ns)"
    using Dir_render [of "R @ ns" m] assms by simp
  have cl: "clean_list True R" "clean_list True (R @ ns)" using assms by (simp_all add: clean_list_names)
  have abs: "IsAbs (render True R)" "IsAbs (Clean ?t)"
    using cl by (simp_all add: IsAbs_render IsAbs_PJoin)
  have ct: "comps (Clean ?t) = clean_comps True (R @ ns @ Split slash link)"
    using cl by (simp add: comps_PJoin IsAbs_render comps_render)
  have "(\<exists>rel. Rel (render True R) (Clean ?t) = Some rel \<and> \<not> escapes rel) \<longleftrightarrow>
      (\<exists>ms. clean_comps True (R @ ns @ Split slash link) = R @ ms)"
    using Rel_contained [OF abs] ct cl by (simp add: comps_render)
  then show ?thesis
    by (auto simp: validateSymlink_def dir escapes_def split: option.splits if_splits)
qed

text \<open>An archive whose three entries each pass: a directory \<^verbatim>\<open>a/b\<close>, a link \<^verbatim>\<open>a/b/x\<close> back to the
  root of the workspace, and a link \<^verbatim>\<open>y\<close> through it.\<close>

definition entry :: "string \<Rightarrow> typeflag \<Rightarrow> string \<Rightarrow> ctx_err option \<times> tar_next" where
  "entry n t l = (None, NextHeader \<lparr>hName = n, hTypeflag = t, hMode = 493, hSize = 0, hLinkname = l\<rparr> [])"

definition escape_archive :: archive_stream where
  "escape_archive = \<lparr>asGzipOk = True,
     asItems = [entry ''a/b'' TypeDir [], entry ''a/b/x'' TypeSymlink ''../..'',
                entry ''y'' TypeSymlink ''a/b/x/../..''],
     asEndCtx = None, asTrailing = ReadEOF, asCloseOk = True, asPeek = ReadEOF, asCompressed = 100\<rparr>"

definition escape_world :: world where
  "escape_world = \<lparr>w_fs = [([''t''], NDir 511), ([''t'', ''w''], NDir 448)], w_faults = []\<rparr>"

definition escape_limits :: limits where
  "escape_limits = \<lparr>lMaxFiles = 10, lMaxUncompressedBytes = 1000\<rparr>"

text \<open>The check on symbolic links is lexical and can be defeated.  \<^verbatim>\<open>Extract\<close> is documented not
  to allow links to escape the destination; it accepts this archive, and in the resulting tree
  the path \<^verbatim>\<open>/t/w/y\<close> leads to the root directory of the file system.\<close>

theorem Extract_link_escape:
  "case Extract escape_archive ''/t/w'' escape_limits escape_world of
     (e, st, w') \<Rightarrow> e = None \<and> sFiles st = 3 \<and> resolve (w_fs w') ''/t/w/y'' = Inr []"
  by code_simp

theorem Extract_confined_witness:
  "clean_abs ''/t/w'' \<and> resolve (w_fs escape_world) ''/t/w'' = Inr [''t'', ''w'']
    \<and> (case Extract escape_archive ''/t/w'' escape_limits escape_world of
         (e, st, w') \<Rightarrow> map_of (w_fs w') [''t''] = map_of (w_fs escape_world) [''t''])"
proof -
  have a: "clean_abs ''/t/w''" by code_simp
  have r: "resolve (w_fs escape_world) ''/t/w'' = Inr [''t'', ''w'']" by code_simp
  obtain e st w' where ex: "Extract escape_archive ''/t/w'' escape_limits escape_world = (e, st, w')"
    by (cases "Extract escape_archive ''/t/w'' escape_limits escape_world") auto
  have "\<nexists>ns. ns \<noteq> [] \<and> [''t''] = [''t'', ''w''] @ ns" by simp
  from Extract_confined [OF a r ex this] show ?thesis using a r ex by simp
qed



end
