(* ===== verification/EventStream.thy ===== *)
theory EventStream
  imports JobModel
begin

text \<open>
  Package \<^verbatim>\<open>internal/eventstream\<close> (\<^verbatim>\<open>eventstream.go\<close>): the sink that serialises job events
  to one writer, and the adapter that makes it an \<^verbatim>\<open>io.Writer\<close>.  The state is the sequence
  of events encoded so far, the running count of data bytes (an \<^verbatim>\<open>int64\<close>), and the
  encoder: \<^verbatim>\<open>json.Encoder\<close> remembers the first write error and returns it from then on.
  Which writes fail is given by a list of booleans, one consumed by each attempted write.

  The interface \<open>job_output\<close> is what the executors rely on: two writers and an artifact
  callback that each append one event or report an error.  Its client lemmas are proved once
  and reach the sink through the interpretation \<open>sink_out\<close>.
\<close>

section \<open>The sink\<close>

datatype sink_error = EncodeError

record sink =
  skSent :: "event list"
  skDataBytes :: int
  skBroken :: bool
  skFaults :: "bool list"
  skHasFlush :: bool
  skFlushes :: nat

definition NewSink :: "bool list \<Rightarrow> bool \<Rightarrow> sink" where
  "NewSink faults hasFlush = \<lparr>skSent = [], skDataBytes = 0, skBroken = False, skFaults = faults,
     skHasFlush = hasFlush, skFlushes = 0\<rparr>"

text \<open>\<^verbatim>\<open>enc.Encode\<close>.\<close>

definition sink_encode :: "event \<Rightarrow> sink \<Rightarrow> sink_error option \<times> sink" where
  "sink_encode ev s =
     (if skBroken s then (Some EncodeError, s)
      else case skFaults s of
        True # fs \<Rightarrow> (Some EncodeError, s\<lparr>skBroken := True, skFaults := fs\<rparr>)
      | False # fs \<Rightarrow> (None, s\<lparr>skSent := skSent s @ [ev], skFaults := fs\<rparr>)
      | [] \<Rightarrow> (None, s\<lparr>skSent := skSent s @ [ev]\<rparr>))"

definition Emit :: "event \<Rightarrow> sink \<Rightarrow> sink_error option \<times> sink" where
  "Emit ev s =
     (case sink_encode ev s of
        (Some e, s1) \<Rightarrow> (Some e, s1)
      | (None, s1) \<Rightarrow>
          (let s2 = s1\<lparr>skDataBytes := wrap64 (skDataBytes s1 + int (length (evData ev)))\<rparr>
           in (None, if skHasFlush s2 then s2\<lparr>skFlushes := skFlushes s2 + 1\<rparr> else s2)))"

definition DataBytes :: "sink \<Rightarrow> int" where
  "DataBytes s = skDataBytes s"

text \<open>\<^verbatim>\<open>Writer.Write\<close>: the number of bytes taken, and the error.\<close>

definition Writer_Write :: "event_type \<Rightarrow> bytes \<Rightarrow> sink \<Rightarrow> (int \<times> sink_error option) \<times> sink" where
  "Writer_Write t p s =
     (case Emit (data_event t p) s of
        (Some e, s') \<Rightarrow> ((0, Some e), s')
      | (None, s') \<Rightarrow> ((int (length p), None), s'))"

text \<open>The three functions the worker hands to an executor.\<close>

definition write_to :: "event_type \<Rightarrow> bytes \<Rightarrow> sink \<Rightarrow> sink_error option \<times> sink" where
  "write_to t p s = (case Writer_Write t p s of ((_, e), s') \<Rightarrow> (e, s'))"

definition emit_artifact :: "string \<Rightarrow> bytes \<Rightarrow> sink \<Rightarrow> sink_error option \<times> sink" where
  "emit_artifact name d s = Emit (artifact_event name d) s"

section \<open>Lemmas about the sink\<close>

lemma Emit_cases:
  assumes "Emit ev s = (r, s')"
  obtains (ok) "r = None" and "\<not> skBroken s" and "skSent s' = skSent s @ [ev]"
      and "skDataBytes s' = wrap64 (skDataBytes s + int (length (evData ev)))" and "\<not> skBroken s'"
      and "skFaults s' = tl (skFaults s)"
  | (fail) "r = Some EncodeError" and "skSent s' = skSent s" and "skDataBytes s' = skDataBytes s"
      and "skBroken s'"
  using assms
  by (auto simp: Emit_def sink_encode_def Let_def split: if_splits list.splits bool.splits)

lemma Emit_broken: "skBroken s \<Longrightarrow> Emit ev s = (Some EncodeError, s)"
  by (simp add: Emit_def sink_encode_def)

lemma Emit_no_faults:
  "\<not> skBroken s \<Longrightarrow> skFaults s = [] \<Longrightarrow> \<exists>s'. Emit ev s = (None, s') \<and> \<not> skBroken s' \<and> skFaults s' = []"
  by (auto simp: Emit_def sink_encode_def Let_def)

text \<open>The byte count is the length of the data sent, as a 64-bit integer.\<close>

definition sent_bytes :: "event list \<Rightarrow> int" where
  "sent_bytes evs = int (sum_list (map (length \<circ> evData) evs))"

definition sink_counted :: "sink \<Rightarrow> bool" where
  "sink_counted s = (skDataBytes s = wrap64 (sent_bytes (skSent s)))"

lemma wrap64_add: "wrap64 (wrap64 a + b) = wrap64 (a + b)"
proof -
  have "(a + 2 ^ 63) mod 2 ^ 64 - 2 ^ 63 + b + 2 ^ 63 = (a + 2 ^ 63) mod 2 ^ 64 + b" by simp
  moreover have "((a + 2 ^ 63) mod 2 ^ 64 + b) mod 2 ^ 64 = (a + b + 2 ^ 63) mod (2 ^ 64 :: int)"
    by (simp only: mod_add_left_eq) (simp add: algebra_simps)
  ultimately show ?thesis by (simp add: wrap64_def)
qed

lemma sent_bytes_snoc [simp]: "sent_bytes (evs @ [ev]) = sent_bytes evs + int (length (evData ev))"
  by (simp add: sent_bytes_def)

lemma NewSink_counted [simp]: "sink_counted (NewSink fs fl)"
  by (simp add: sink_counted_def NewSink_def sent_bytes_def wrap64_def)

lemma Emit_counted: "Emit ev s = (r, s') \<Longrightarrow> sink_counted s \<Longrightarrow> sink_counted s'"
  by (erule Emit_cases) (simp_all add: sink_counted_def wrap64_add)

text \<open>A sink whose writes will not fail.\<close>

definition sink_healthy :: "sink \<Rightarrow> bool" where
  "sink_healthy s = (\<not> skBroken s \<and> skFaults s = [])"

lemma NewSink_healthy [simp]: "sink_healthy (NewSink [] fl)"
  by (simp add: sink_healthy_def NewSink_def)

lemma Emit_healthy: "Emit ev s = (r, s') \<Longrightarrow> sink_healthy s \<Longrightarrow> sink_healthy s'"
  using Emit_no_faults [of s ev] by (auto simp: sink_healthy_def)

lemma Emit_healthy_ok: "sink_healthy s \<Longrightarrow> fst (Emit ev s) = None"
  using Emit_no_faults [of s ev] by (auto simp: sink_healthy_def)

section \<open>The output interface of an executor\<close>

text \<open>Events an executor may cause.\<close>

definition output_event :: "event \<Rightarrow> bool" where
  "output_event ev =
     (evResult ev = None \<and> evFailure ev = None \<and> evStatus ev = []
      \<and> (evType ev = EventStdout \<or> evType ev = EventStderr \<or> evType ev = EventArtifact))"

lemma output_event_simps [simp]:
  "output_event (data_event EventStdout d)" "output_event (data_event EventStderr d)"
  "output_event (artifact_event n d)" "\<not> output_event (status_event st)"
  "\<not> output_event (completion_event r)" "\<not> output_event (failure_event c m)"
  by (simp_all add: output_event_def data_event_def artifact_event_def status_event_def
      completion_event_def failure_event_def)

locale job_output =
  fixes write_out :: "bytes \<Rightarrow> 's \<Rightarrow> sink_error option \<times> 's"
    and write_err :: "bytes \<Rightarrow> 's \<Rightarrow> sink_error option \<times> 's"
    and artifact :: "string \<Rightarrow> bytes \<Rightarrow> 's \<Rightarrow> sink_error option \<times> 's"
    and sent :: "'s \<Rightarrow> event list"
  assumes out_ok: "write_out d s = (None, s') \<Longrightarrow> sent s' = sent s @ [data_event EventStdout d]"
    and out_fail: "write_out d s = (Some e, s') \<Longrightarrow> sent s' = sent s"
    and err_ok: "write_err d s = (None, s') \<Longrightarrow> sent s' = sent s @ [data_event EventStderr d]"
    and err_fail: "write_err d s = (Some e, s') \<Longrightarrow> sent s' = sent s"
    and art_ok: "artifact n d s = (None, s') \<Longrightarrow> sent s' = sent s @ [artifact_event n d]"
    and art_fail: "artifact n d s = (Some e, s') \<Longrightarrow> sent s' = sent s"
begin

lemma write_out_appends: "write_out d s = (r, s') \<Longrightarrow> \<exists>evs. sent s' = sent s @ evs \<and> list_all output_event evs"
  by (cases r) (auto dest: out_ok out_fail)

lemma write_err_appends: "write_err d s = (r, s') \<Longrightarrow> \<exists>evs. sent s' = sent s @ evs \<and> list_all output_event evs"
  by (cases r) (auto dest: err_ok err_fail)

lemma artifact_appends: "artifact n d s = (r, s') \<Longrightarrow> \<exists>evs. sent s' = sent s @ evs \<and> list_all output_event evs"
  by (cases r) (auto dest: art_ok art_fail)

end

lemma write_to_Emit: "write_to t d s = Emit (data_event t d) s"
  by (auto simp: write_to_def Writer_Write_def split: prod.splits option.splits)

interpretation sink_out:
  job_output "write_to EventStdout" "write_to EventStderr" emit_artifact skSent
  by unfold_locales (auto simp: write_to_Emit emit_artifact_def elim: Emit_cases)

section \<open>Properties\<close>

text \<open>Emitting a list of events one after the other, as the sources do across their calls: each
  event's error is noted and the next call still happens.\<close>

fun emit_all :: "event list \<Rightarrow> sink \<Rightarrow> sink_error option list \<times> sink" where
  "emit_all [] s = ([], s)"
| "emit_all (ev # evs) s =
     (case Emit ev s of (r, s1) \<Rightarrow> (case emit_all evs s1 of (rs, s2) \<Rightarrow> (r # rs, s2)))"

lemma emit_all_broken: "skBroken s \<Longrightarrow> emit_all evs s = (replicate (length evs) (Some EncodeError), s)"
  by (induction evs) (simp_all add: Emit_broken)

lemma emit_all_sent:
  "emit_all evs s = (rs, s') \<Longrightarrow> \<not> skBroken s \<Longrightarrow> sink_counted s \<Longrightarrow>
     \<exists>n. skSent s' = skSent s @ take n evs \<and> sink_counted s'
       \<and> n \<le> length evs
       \<and> rs = replicate n None @ replicate (length evs - n) (Some EncodeError)"
proof (induction evs arbitrary: s rs s')
  case (Cons ev evs)
  obtain r s1 where em: "Emit ev s = (r, s1)" by fastforce
  obtain rs1 s2 where al: "emit_all evs s1 = (rs1, s2)" by fastforce
  have res: "rs = r # rs1" "s' = s2" using Cons.prems(1) em al by simp_all
  have cnt: "sink_counted s1" using em Cons.prems(3) by (rule Emit_counted)
  from em show ?case
  proof (cases rule: Emit_cases)
    case ok
    obtain n where "skSent s2 = skSent s1 @ take n evs" "sink_counted s2" "n \<le> length evs"
      "rs1 = replicate n None @ replicate (length evs - n) (Some EncodeError)"
      using Cons.IH [OF al ok(5) cnt] by blast
    then show ?thesis
      using ok res by (intro exI [of _ "Suc n"]) simp
  next
    case fail
    then show ?thesis
      using al emit_all_broken [OF fail(4), of evs] res cnt
      by (intro exI [of _ 0]) simp
  qed
qed simp

text \<open>A stream never has a hole.  Whatever writes fail, the events that reached the wire are a
  prefix of the events emitted, in order, and the calls that reported success are exactly those
  for that prefix; the byte counter is the number of data bytes of that prefix (as an
  \<^verbatim>\<open>int64\<close>).\<close>

theorem emit_all_prefix:
  "\<exists>n. skSent (snd (emit_all evs (NewSink faults fl))) = take n evs
     \<and> n \<le> length evs
     \<and> fst (emit_all evs (NewSink faults fl)) =
         replicate n None @ replicate (length evs - n) (Some EncodeError)
     \<and> DataBytes (snd (emit_all evs (NewSink faults fl))) = wrap64 (sent_bytes (take n evs))"
proof -
  obtain rs s' where al: "emit_all evs (NewSink faults fl) = (rs, s')" by fastforce
  have "\<not> skBroken (NewSink faults fl)" "skSent (NewSink faults fl) = []" by (simp_all add: NewSink_def)
  then obtain n where "skSent s' = take n evs" "sink_counted s'" "n \<le> length evs"
      "rs = replicate n None @ replicate (length evs - n) (Some EncodeError)"
    using emit_all_sent [OF al] by auto
  with al show ?thesis by (intro exI [of _ n]) (simp add: DataBytes_def sink_counted_def)
qed

end
