(* ===== verification/Registry.thy ===== *)
theory Registry
  imports JobModel
begin

text \<open>
  The table of running jobs that both executors keep (\<^verbatim>\<open>internal/executor/restricted.go\<close> and
  \<^verbatim>\<open>firecracker.go\<close>): \<^verbatim>\<open>register\<close>, \<^verbatim>\<open>unregister\<close> and \<^verbatim>\<open>Kill\<close>.  A cancel function is
  represented by the number of the run whose context it cancels.  The methods run on one
  goroutine per request, each holding the mutex for one table access, so their interleavings
  are a step relation: a run registers or is refused, a run ends, a kill looks the job up and
  fires the cancel function later, after the lock is released.

  The interface \<open>run_table\<close> states what the two tables promise; the invariant of every
  interleaving is proved once in it and interpreted for both executors.
\<close>

type_synonym run_id = nat
type_synonym table = "string \<Rightarrow> run_id option"

section \<open>The two implementations\<close>

definition Restricted_register :: "string \<Rightarrow> run_id \<Rightarrow> table \<Rightarrow> bool \<times> table" where
  "Restricted_register jobID cancel running =
     (case running jobID of
        Some _ \<Rightarrow> (False, running)
      | None \<Rightarrow> (True, running(jobID \<mapsto> cancel)))"

definition Restricted_unregister :: "string \<Rightarrow> table \<Rightarrow> table" where
  "Restricted_unregister jobID running = running(jobID := None)"

datatype kill_error = KillCtx ctx_err | NotRunning

text \<open>\<^verbatim>\<open>Kill\<close> up to the call of the cancel function: the caller's context is tested first.\<close>

definition Restricted_Kill :: "ctx_err option \<Rightarrow> string \<Rightarrow> table \<Rightarrow> kill_error + run_id" where
  "Restricted_Kill ctx jobID running =
     (case ctx of
        Some e \<Rightarrow> Inl (KillCtx e)
      | None \<Rightarrow> (case running jobID of None \<Rightarrow> Inl NotRunning | Some cancel \<Rightarrow> Inr cancel))"

definition Firecracker_register :: "string \<Rightarrow> run_id \<Rightarrow> table \<Rightarrow> bool \<times> table" where
  "Firecracker_register jobID cancel running =
     (if running jobID \<noteq> None then (False, running) else (True, running(jobID \<mapsto> cancel)))"

definition Firecracker_unregister :: "string \<Rightarrow> table \<Rightarrow> table" where
  "Firecracker_unregister jobID running = running(jobID := None)"

definition Firecracker_Kill :: "ctx_err option \<Rightarrow> string \<Rightarrow> table \<Rightarrow> kill_error + run_id" where
  "Firecracker_Kill ctx jobID running =
     (case ctx of
        Some e \<Rightarrow> Inl (KillCtx e)
      | None \<Rightarrow> (case running jobID of None \<Rightarrow> Inl NotRunning | Some cancel \<Rightarrow> Inr cancel))"

section \<open>Interleavings\<close>

datatype phase = Fresh | Active string | Refused | Ended string

record runs =
  table :: table
  phases :: "run_id \<Rightarrow> phase"
  cancelled :: "run_id set"
  pending :: "(string \<times> run_id) list" \<comment> \<open>kills that hold a cancel function and have not called it\<close>

definition init_runs :: runs where
  "init_runs = \<lparr>table = Map.empty, phases = (\<lambda>_. Fresh), cancelled = {}, pending = []\<rparr>"

text \<open>One step, over any implementation of the table.  \<open>run_end\<close> is the deferred function of
  \<^verbatim>\<open>Run\<close>: cancel, then unregister; \<open>refused\<close> calls the fresh cancel function and returns
  without the deferred function.\<close>

inductive run_step ::
  "(string \<Rightarrow> run_id \<Rightarrow> table \<Rightarrow> bool \<times> table) \<Rightarrow> (string \<Rightarrow> table \<Rightarrow> table) \<Rightarrow>
   (ctx_err option \<Rightarrow> string \<Rightarrow> table \<Rightarrow> kill_error + run_id) \<Rightarrow> runs \<Rightarrow> runs \<Rightarrow> bool"
  for reg unreg kill where
  started: "phases s r = Fresh \<Longrightarrow> reg j r (table s) = (True, t) \<Longrightarrow>
    run_step reg unreg kill s (s\<lparr>table := t, phases := (phases s)(r := Active j)\<rparr>)"
| refused: "phases s r = Fresh \<Longrightarrow> reg j r (table s) = (False, t) \<Longrightarrow>
    run_step reg unreg kill s
      (s\<lparr>table := t, phases := (phases s)(r := Refused), cancelled := insert r (cancelled s)\<rparr>)"
| run_end: "phases s r = Active j \<Longrightarrow>
    run_step reg unreg kill s
      (s\<lparr>table := unreg j (table s), phases := (phases s)(r := Ended j),
         cancelled := insert r (cancelled s)\<rparr>)"
| kill_lookup: "kill None j (table s) = Inr r \<Longrightarrow>
    run_step reg unreg kill s (s\<lparr>pending := (j, r) # pending s\<rparr>)"
| kill_fire: "(j, r) \<in> set (pending s) \<Longrightarrow>
    run_step reg unreg kill s
      (s\<lparr>pending := remove1 (j, r) (pending s), cancelled := insert r (cancelled s)\<rparr>)"

inductive reachable_runs ::
  "(string \<Rightarrow> run_id \<Rightarrow> table \<Rightarrow> bool \<times> table) \<Rightarrow> (string \<Rightarrow> table \<Rightarrow> table) \<Rightarrow>
   (ctx_err option \<Rightarrow> string \<Rightarrow> table \<Rightarrow> kill_error + run_id) \<Rightarrow> runs \<Rightarrow> bool"
  for reg unreg kill where
  start: "reachable_runs reg unreg kill init_runs"
| step: "reachable_runs reg unreg kill s \<Longrightarrow> run_step reg unreg kill s t \<Longrightarrow>
    reachable_runs reg unreg kill t"

inductive_cases run_stepE: "run_step reg unreg kill s t"

text \<open>The table is exactly the set of active runs; whoever is cancelled was refused, has ended, or
  was named by a kill; and a pending kill names a run that was active under its job id.\<close>

definition table_inv :: "runs \<Rightarrow> bool" where
  "table_inv s =
     ((\<forall>j r. table s j = Some r \<longleftrightarrow> phases s r = Active j)
      \<and> (\<forall>j r. (j, r) \<in> set (pending s) \<longrightarrow> phases s r = Active j \<or> phases s r = Ended j)
      \<and> (\<forall>r. phases s r = Fresh \<longrightarrow> r \<notin> cancelled s))"

section \<open>The interface\<close>

locale run_table =
  fixes reg :: "string \<Rightarrow> run_id \<Rightarrow> table \<Rightarrow> bool \<times> table"
    and unreg :: "string \<Rightarrow> table \<Rightarrow> table"
    and kill :: "ctx_err option \<Rightarrow> string \<Rightarrow> table \<Rightarrow> kill_error + run_id"
  assumes reg_True: "reg j r t = (True, t') \<Longrightarrow> t j = None \<and> t' = t(j \<mapsto> r)"
    and reg_False: "reg j r t = (False, t') \<Longrightarrow> t j \<noteq> None \<and> t' = t"
    and unreg_eq: "unreg j t = t(j := None)"
    and kill_Inr: "kill c j t = Inr r \<longleftrightarrow> c = None \<and> t j = Some r"
begin

lemma reg_total: "t j = None \<Longrightarrow> reg j r t = (True, t(j \<mapsto> r))"
  by (cases "reg j r t"; cases "fst (reg j r t)") (auto dest: reg_True reg_False)

lemma reg_duplicate: "t j = Some r' \<Longrightarrow> reg j r t = (False, t)"
  by (cases "reg j r t"; cases "fst (reg j r t)") (auto dest: reg_True reg_False)

text \<open>A run that registers and later unregisters leaves the table as it found it.\<close>

lemma bracket: "reg j r t = (True, t') \<Longrightarrow> unreg j t' = t"
  by (auto simp: unreg_eq dest!: reg_True)

lemma table_inv_init: "table_inv init_runs"
  by (simp add: table_inv_def init_runs_def)

lemma table_inv_step: "run_step reg unreg kill s t \<Longrightarrow> table_inv s \<Longrightarrow> table_inv t"
proof (induction rule: run_step.induct)
  case (started s r j t)
  then have "table s j = None" and t: "t = (table s)(j \<mapsto> r)" by (auto dest: reg_True)
  moreover from started have "phases s r \<noteq> Active j'" and "(j', r) \<notin> set (pending s)" for j'
    by (auto simp: table_inv_def, force)
  moreover from started(3) \<open>table s j = None\<close> have "phases s r' \<noteq> Active j" for r'
    unfolding table_inv_def by (metis option.distinct(1))
  ultimately show ?case using started(3) by (auto simp: table_inv_def)
next
  case (refused s r j t)
  then have "t = table s" by (auto dest: reg_False)
  moreover from refused have "phases s r \<noteq> Active j'" and "(j', r) \<notin> set (pending s)" for j'
    by (auto simp: table_inv_def, force)
  ultimately show ?case using refused(3) by (auto simp: table_inv_def)
next
  case (run_end s r j)
  have inv: "table s j' = Some r' \<longleftrightarrow> phases s r' = Active j'"
    and pend: "(j', r') \<in> set (pending s) \<Longrightarrow> phases s r' = Active j' \<or> phases s r' = Ended j'"
    and "phases s r' = Fresh \<Longrightarrow> r' \<notin> cancelled s" for j' r'
    using run_end(2) by (auto simp: table_inv_def)
  moreover have "((table s)(j := None)) j' = Some r' \<longleftrightarrow> ((phases s)(r := Ended j)) r' = Active j'" for j' r'
    using inv [of j r] inv [of j r'] inv [of j' r'] run_end(1) by (cases "j' = j"; cases "r' = r") auto
  moreover have "(j', r) \<in> set (pending s) \<Longrightarrow> j' = j" for j'
    using pend [of j' r] run_end(1) by simp
  ultimately show ?case by (simp add: table_inv_def unreg_eq)
next
  case (kill_lookup j s r)
  then show ?case by (auto simp: table_inv_def kill_Inr)
next
  case (kill_fire j r s)
  then have "phases s r \<noteq> Fresh" unfolding table_inv_def by (metis phase.distinct(1,5))
  moreover have "x \<in> set (pending s)" if "x \<in> set (remove1 (j, r) (pending s))" for x
    using that set_remove1_subset by fast
  ultimately show ?case using kill_fire(2) by (auto simp: table_inv_def)
qed

lemma reachable_table_inv: "reachable_runs reg unreg kill s \<Longrightarrow> table_inv s"
  by (induction rule: reachable_runs.induct) (auto intro: table_inv_init table_inv_step)

lemma active_unique:
  "reachable_runs reg unreg kill s \<Longrightarrow> phases s r = Active j \<Longrightarrow> phases s r' = Active j \<Longrightarrow> r = r'"
  by (drule reachable_table_inv) (metis table_inv_def option.inject)

lemma kill_hits_active:
  "reachable_runs reg unreg kill s \<Longrightarrow> kill c j (table s) = Inr r \<longleftrightarrow> c = None \<and> phases s r = Active j"
  by (drule reachable_table_inv) (simp add: table_inv_def kill_Inr)

text \<open>Whatever a kill of job \<open>j\<close> cancels, it is a run of job \<open>j\<close>, even when the job has ended
  and another run has started under the same id since the lookup.\<close>

lemma pending_same_job:
  "reachable_runs reg unreg kill s \<Longrightarrow> (j, r) \<in> set (pending s) \<Longrightarrow> phases s r = Active j \<or> phases s r = Ended j"
  by (drule reachable_table_inv) (auto simp: table_inv_def)

end

interpretation restricted_table: run_table Restricted_register Restricted_unregister Restricted_Kill
  by unfold_locales
    (auto simp: Restricted_register_def Restricted_unregister_def Restricted_Kill_def
      split: option.splits)

interpretation firecracker_table: run_table Firecracker_register Firecracker_unregister Firecracker_Kill
  by unfold_locales
    (auto simp: Firecracker_register_def Firecracker_unregister_def Firecracker_Kill_def
      split: option.splits if_splits)

section \<open>Properties\<close>

text \<open>C11. One run per job id.  In every interleaving of registrations, refusals, ends and kills on
  the Firecracker executor, at most one run is active under a job id; a kill finds a run exactly
  when one is active under the id, and it is that run; and a cancel function that a kill has
  looked up but not yet called belongs to a run of that same job, so a later run that reuses the
  id is never the victim of a stale kill.\<close>

theorem Firecracker_run_exclusive:
  assumes "reachable_runs Firecracker_register Firecracker_unregister Firecracker_Kill s"
  shows "(phases s r = Active j \<and> phases s r' = Active j \<longrightarrow> r = r')
    \<and> (Firecracker_Kill c j (table s) = Inr r \<longleftrightarrow> c = None \<and> phases s r = Active j)
    \<and> ((j, r) \<in> set (pending s) \<longrightarrow> phases s r = Active j \<or> phases s r = Ended j)"
  using firecracker_table.active_unique [OF assms] firecracker_table.kill_hits_active [OF assms]
    firecracker_table.pending_same_job [OF assms] by blast

text \<open>The same for the restricted executor.\<close>

theorem Restricted_run_exclusive:
  assumes "reachable_runs Restricted_register Restricted_unregister Restricted_Kill s"
  shows "(phases s r = Active j \<and> phases s r' = Active j \<longrightarrow> r = r')
    \<and> (Restricted_Kill c j (table s) = Inr r \<longleftrightarrow> c = None \<and> phases s r = Active j)
    \<and> ((j, r) \<in> set (pending s) \<longrightarrow> phases s r = Active j \<or> phases s r = Ended j)"
  using restricted_table.active_unique [OF assms] restricted_table.kill_hits_active [OF assms]
    restricted_table.pending_same_job [OF assms] by blast

text \<open>A run in which the job is started, looked up by a kill, ends, and is started again before the
  kill fires.\<close>

definition stale_kill_state :: runs where
  "stale_kill_state = \<lparr>table = [''j'' \<mapsto> 1], phases = (\<lambda>_. Fresh)(0 := Ended ''j'', 1 := Active ''j''),
     cancelled = {0}, pending = [(''j'', 0)]\<rparr>"

lemma stale_kill_reachable:
  "reachable_runs Firecracker_register Firecracker_unregister Firecracker_Kill stale_kill_state"
proof -
  let ?step = "run_step Firecracker_register Firecracker_unregister Firecracker_Kill"
  let ?reach = "reachable_runs Firecracker_register Firecracker_unregister Firecracker_Kill"
  define s1 where "s1 = init_runs\<lparr>table := [''j'' \<mapsto> 0], phases := (\<lambda>_. Fresh)(0 := Active ''j'')\<rparr>"
  define s2 where "s2 = s1\<lparr>pending := [(''j'', 0)]\<rparr>"
  define s3 where "s3 = s2\<lparr>table := Map.empty, phases := (\<lambda>_. Fresh)(0 := Ended ''j''), cancelled := {0}\<rparr>"
  have "?step init_runs s1"
    using run_step.started [where s = init_runs and r = 0 and j = "''j''"]
    by (simp add: s1_def init_runs_def Firecracker_register_def)
  moreover have "?step s1 s2"
    using run_step.kill_lookup [where s = s1 and r = 0 and j = "''j''" and kill = Firecracker_Kill]
    by (simp add: s1_def s2_def init_runs_def Firecracker_Kill_def)
  moreover have "?step s2 s3"
    using run_step.run_end [where s = s2 and r = 0 and j = "''j''" and unreg = Firecracker_unregister]
    by (simp add: s1_def s2_def s3_def init_runs_def Firecracker_unregister_def)
  moreover have "?step s3 stale_kill_state"
    using run_step.started [where s = s3 and r = 1 and j = "''j''" and reg = Firecracker_register]
    by (simp add: s1_def s2_def s3_def stale_kill_state_def init_runs_def Firecracker_register_def)
  ultimately show ?thesis by (meson reachable_runs.intros)
qed

theorem Firecracker_run_exclusive_witness:
  "(''j'', 0) \<in> set (pending stale_kill_state)
    \<and> Firecracker_Kill None ''j'' (table stale_kill_state) = Inr 1
    \<and> (phases stale_kill_state 0 = Active ''j'' \<or> phases stale_kill_state 0 = Ended ''j'')"
  using Firecracker_run_exclusive [OF stale_kill_reachable, of 0 "''j''" 0 None]
    Firecracker_run_exclusive [OF stale_kill_reachable, of 1 "''j''" 1 None]
  by (simp add: stale_kill_state_def)

theorem Restricted_run_exclusive_witness:
  "Restricted_Kill None ''j'' (table init_runs) = Inr 0 \<longleftrightarrow> phases init_runs 0 = Active ''j''"
  using Restricted_run_exclusive [OF reachable_runs.start, of 0 "''j''" 0 None] by simp

end
