(* ===== verification/JobNet.thy ===== *)
theory JobNet
  imports Prelude
begin

unbundle bit_operations_syntax

text \<open>
  Job networking, platform-neutral part (\<^verbatim>\<open>internal/executor/jobnet.go\<close>): the allocator of
  \<^verbatim>\<open>/30\<close> subnets, the addresses and MAC address derived from a subnet index, and the boot
  argument.  The index is a \<^verbatim>\<open>uint32\<close> and the address bytes are \<^verbatim>\<open>byte\<close>s, kept at their
  widths.

  The lemmas: the allocator never hands out an index in use, finds one whenever one is free and
  keeps its invariant (interface \<open>subnet_pool\<close>, interpreted on the allocator); MAC addresses
  of distinct indices differ; but the addresses of distinct indices do not: two subnets of the
  pool have the same addresses exactly when their indices agree modulo 64 within a block of 256.
\<close>

type_synonym u8 = "8 word"
type_synonym u32 = "32 word"
type_synonym ipv4 = "u8 \<times> u8 \<times> u8 \<times> u8"

section \<open>Subnets\<close>

definition tapPrefix :: string where "tapPrefix = ''yk''"
definition hostOffset :: u8 where "hostOffset = 1"
definition guestOffset :: u8 where "guestOffset = 2"

record jobSubnet =
  snIdx :: u32
  snHostIP :: ipv4
  snGuestIP :: ipv4
  snMask :: ipv4

text \<open>\<^verbatim>\<open>byte((idx & 0xff) << 2)\<close> and \<^verbatim>\<open>byte(idx>>8)\<close>.\<close>

definition subnet_base :: "u32 \<Rightarrow> u8" where
  "subnet_base idx = ucast (push_bit 2 (idx AND 0xff))"

definition subnet_block :: "u32 \<Rightarrow> u8" where
  "subnet_block idx = ucast (drop_bit 8 idx)"

definition subnetForIndex :: "u32 \<Rightarrow> jobSubnet" where
  "subnetForIndex idx =
     (let base = subnet_base idx in
      \<lparr>snIdx = idx,
       snHostIP = (10, 255, subnet_block idx, base + hostOffset),
       snGuestIP = (10, 255, subnet_block idx, base + guestOffset),
       snMask = (255, 255, 255, 252)\<rparr>)"

definition guestMAC :: "u32 \<Rightarrow> string" where
  "guestMAC idx =
     ''02:00:00:00:'' @ hex_byte (ucast (drop_bit 8 idx)) @ '':'' @ hex_byte (ucast (idx AND 0xff))"

text \<open>\<^verbatim>\<open>%s\<close> of a \<^verbatim>\<open>net.IP\<close>.\<close>

definition fmt_ip :: "ipv4 \<Rightarrow> string" where
  "fmt_ip ip =
     (case ip of (a, b, c, d) \<Rightarrow>
        dec (unat a) @ ''.'' @ dec (unat b) @ ''.'' @ dec (unat c) @ ''.'' @ dec (unat d))"

definition guestBootNetArg :: "jobSubnet \<Rightarrow> string list \<Rightarrow> string" where
  "guestBootNetArg sub resolvers =
     foldl (\<lambda>arg r. arg @ '':'' @ r)
       (''ip='' @ fmt_ip (snGuestIP sub) @ ''::'' @ fmt_ip (snHostIP sub) @ '':255.255.255.252::eth0:off'')
       resolvers"

fun fcAPISockFromCmdline :: "string list \<Rightarrow> string" where
  "fcAPISockFromCmdline (a # b # rest) =
     (if a = ''--api-sock'' then b else fcAPISockFromCmdline (b # rest))"
| "fcAPISockFromCmdline _ = []"

section \<open>The allocator\<close>

record jobNetAllocator =
  alNext :: u32
  alUsed :: "u32 \<Rightarrow> bool"
  alLimit :: u32

definition newJobNetAllocator :: jobNetAllocator where
  "newJobNetAllocator = \<lparr>alNext = 0, alUsed = (\<lambda>_. False), alLimit = push_bit 14 1\<rparr>"

lemma unat_Suc_less: "(i :: u32) < l \<Longrightarrow> unat (i + 1) = Suc (unat i)"
  by unat_arith

function alloc_loop :: "u32 \<Rightarrow> jobNetAllocator \<Rightarrow> u32 option \<times> jobNetAllocator" where
  "alloc_loop i a =
     (if i < alLimit a then
        (let idx = (alNext a + i) mod alLimit a
         in if alUsed a idx then alloc_loop (i + 1) a
            else (Some idx, a\<lparr>alUsed := (alUsed a)(idx := True), alNext := idx + 1\<rparr>))
      else (None, a))"
  by pat_completeness auto
termination
  by (relation "measure (\<lambda>(i, a). unat (alLimit a) - unat i)")
    (auto simp: unat_Suc_less word_less_nat_alt)

declare alloc_loop.simps [simp del]

definition allocate :: "jobNetAllocator \<Rightarrow> jobSubnet option \<times> jobNetAllocator" where
  "allocate a = (case alloc_loop 0 a of (idx, a') \<Rightarrow> (map_option subnetForIndex idx, a'))"

definition release :: "u32 \<Rightarrow> jobNetAllocator \<Rightarrow> jobNetAllocator" where
  "release idx a = a\<lparr>alUsed := (alUsed a)(idx := False)\<rparr>"

section \<open>Correctness of the allocator\<close>

definition alloc_inv :: "jobNetAllocator \<Rightarrow> bool" where
  "alloc_inv a =
     (alLimit a = 2 ^ 14 \<and> unat (alNext a) \<le> 2 ^ 14 \<and> (\<forall>idx. alUsed a idx \<longrightarrow> unat idx < 2 ^ 14))"

lemma alloc_inv_new: "alloc_inv newJobNetAllocator"
  by (simp add: alloc_inv_def newJobNetAllocator_def push_bit_eq_mult)

lemma unat_limit: "alloc_inv a \<Longrightarrow> unat (alLimit a) = 2 ^ 14"
  by (simp add: alloc_inv_def)

text \<open>The probed index as a natural number: no overflow, because both summands are small.\<close>

lemma unat_probe:
  assumes "alloc_inv a" and "unat i < 2 ^ 14"
  shows "unat ((alNext a + i) mod alLimit a) = (unat (alNext a) + unat i) mod 2 ^ 14"
proof -
  have "unat (alNext a + i) = unat (alNext a) + unat i"
    using assms by (intro unat_add_lem [THEN iffD1]) (simp add: alloc_inv_def)
  then show ?thesis using unat_limit [OF assms(1)] by (simp add: unat_mod)
qed

lemma alloc_loop_Some:
  "alloc_inv a \<Longrightarrow> alloc_loop i a = (Some idx, a') \<Longrightarrow>
     \<not> alUsed a idx \<and> unat idx < 2 ^ 14 \<and> a' = a\<lparr>alUsed := (alUsed a)(idx := True), alNext := idx + 1\<rparr>"
proof (induction i a rule: alloc_loop.induct)
  case (1 i a)
  have lim: "i < alLimit a" using 1(3) by (subst (asm) alloc_loop.simps) (auto split: if_splits)
  show ?case
  proof (cases "alUsed a ((alNext a + i) mod alLimit a)")
    case True
    with 1(3) lim have "alloc_loop (i + 1) a = (Some idx, a')"
      by (simp add: alloc_loop.simps [of i a] Let_def)
    then show ?thesis by (rule 1(1) [OF lim refl True 1(2)])
  next
    case False
    with 1(3) lim have idx: "idx = (alNext a + i) mod alLimit a"
      and a': "a' = a\<lparr>alUsed := (alUsed a)(idx := True), alNext := idx + 1\<rparr>"
      by (subst (asm) alloc_loop.simps, simp add: Let_def)+
    have "unat idx < 2 ^ 14"
      using lim idx unat_probe [OF 1(2), of i] unat_limit [OF 1(2)] by (simp add: word_less_nat_alt)
    with False idx a' show ?thesis by blast
  qed
qed

lemma alloc_loop_None:
  "alloc_inv a \<Longrightarrow> alloc_loop i a = (None, a') \<Longrightarrow>
     a' = a \<and> (\<forall>k. unat i \<le> k \<and> k < 2 ^ 14 \<longrightarrow> alUsed a (word_of_nat ((unat (alNext a) + k) mod 2 ^ 14)))"
proof (induction i a rule: alloc_loop.induct)
  case (1 i a)
  show ?case
  proof (cases "i < alLimit a")
    case False
    with 1(3) unat_limit [OF 1(2)] show ?thesis
      by (subst (asm) alloc_loop.simps) (auto simp: word_less_nat_alt)
  next
    case True
    let ?idx = "(alNext a + i) mod alLimit a"
    have used: "alUsed a ?idx" and rec: "alloc_loop (i + 1) a = (None, a')"
      using 1(3) True by (subst (asm) alloc_loop.simps, auto simp: Let_def split: if_splits)+
    have i: "unat i < 2 ^ 14" using True unat_limit [OF 1(2)] by (simp add: word_less_nat_alt)
    have "?idx = word_of_nat ((unat (alNext a) + unat i) mod 2 ^ 14)"
      by (rule unsigned_word_eqI [where ?'a = nat]) (simp add: unat_probe [OF 1(2) i] unat_of_nat)
    with used 1(1) [OF True refl used 1(2) rec] show ?thesis
      using unat_Suc_less [OF True] by (metis le_antisym not_less_eq_eq)
  qed
qed

text \<open>The probe sequence visits every index.\<close>

lemma probe_covers:
  assumes "n \<le> L" and "m < L"
  shows "\<exists>k < L. (n + k) mod L = (m :: nat)"
proof (cases "n mod L \<le> m")
  case True
  then have "(n + (m - n mod L)) mod L = m"
    using assms by (metis le_add_diff_inverse mod_add_left_eq mod_less)
  then show ?thesis using assms by (intro exI [of _ "m - n mod L"]) auto
next
  case False
  have nl: "n mod L < L" using assms by simp
  have "(n + (L - n mod L + m)) mod L = (n mod L + (L - n mod L + m)) mod L"
    by (simp add: mod_add_left_eq)
  also have "\<dots> = (L + m) mod L" using nl by simp
  also have "\<dots> = m" using assms by simp
  finally show ?thesis using False nl by (intro exI [of _ "L - n mod L + m"]) linarith
qed

lemma allocate_Some:
  assumes "alloc_inv a" and "allocate a = (Some sn, a')"
  shows "sn = subnetForIndex (snIdx sn)" and "\<not> alUsed a (snIdx sn)" and "unat (snIdx sn) < 2 ^ 14"
    and "alUsed a' = (alUsed a)(snIdx sn := True)" and "alloc_inv a'"
proof -
  obtain idx where lo: "alloc_loop 0 a = (Some idx, a')" and sn: "sn = subnetForIndex idx"
    using assms(2) by (auto simp: allocate_def split: prod.splits)
  then have idx: "snIdx sn = idx" by (simp add: subnetForIndex_def Let_def)
  note al = alloc_loop_Some [OF assms(1) lo]
  show "sn = subnetForIndex (snIdx sn)" and "\<not> alUsed a (snIdx sn)" and "unat (snIdx sn) < 2 ^ 14"
    and "alUsed a' = (alUsed a)(snIdx sn := True)"
    using al sn idx by simp_all
  have "unat (idx + 1) \<le> 2 ^ 14" using al by unat_arith
  then show "alloc_inv a'" using al assms(1) by (simp add: alloc_inv_def)
qed

lemma allocate_None:
  assumes "alloc_inv a"
  shows "fst (allocate a) = None \<longleftrightarrow> (\<forall>idx. unat idx < 2 ^ 14 \<longrightarrow> alUsed a idx)"
proof (cases "alloc_loop 0 a")
  case (Pair r a')
  show ?thesis
  proof (cases r)
    case None
    have "alUsed a idx" if i: "unat idx < 2 ^ 14" for idx
    proof -
      obtain k where "k < 2 ^ 14" and k: "(unat (alNext a) + k) mod 2 ^ 14 = unat idx"
        using probe_covers [of "unat (alNext a)" "2 ^ 14" "unat idx"] assms i
        by (auto simp: alloc_inv_def)
      then have "alUsed a (word_of_nat (unat idx))"
        using alloc_loop_None [OF assms Pair [unfolded None]] by (metis unat_0 zero_le)
      moreover have "word_of_nat (unat idx) = idx"
        by (rule unsigned_word_eqI [where ?'a = nat]) (simp add: unat_of_nat)
      ultimately show ?thesis by simp
    qed
    then show ?thesis using Pair None by (simp add: allocate_def)
  next
    case (Some idx)
    then show ?thesis using alloc_loop_Some [OF assms] Pair by (auto simp: allocate_def)
  qed
qed

lemma release_inv: "alloc_inv a \<Longrightarrow> alloc_inv (release idx a)"
  by (simp add: alloc_inv_def release_def)

section \<open>The pool interface\<close>

text \<open>Jobs take subnets from a pool and give back what they took: any interleaving.\<close>

inductive pool_reach ::
  "('a \<Rightarrow> 'x option \<times> 'a) \<Rightarrow> ('k \<Rightarrow> 'a \<Rightarrow> 'a) \<Rightarrow> ('x \<Rightarrow> 'k) \<Rightarrow> 'a \<Rightarrow> 'a \<Rightarrow> 'x list \<Rightarrow> bool"
  for alloc rel key init where
  start: "pool_reach alloc rel key init init []"
| take: "pool_reach alloc rel key init a live \<Longrightarrow> alloc a = (Some x, a') \<Longrightarrow>
    pool_reach alloc rel key init a' (x # live)"
| exhausted: "pool_reach alloc rel key init a live \<Longrightarrow> alloc a = (None, a') \<Longrightarrow>
    pool_reach alloc rel key init a' live"
| give: "pool_reach alloc rel key init a live \<Longrightarrow> x \<in> set live \<Longrightarrow>
    pool_reach alloc rel key init (rel (key x) a) (remove1 x live)"

locale subnet_pool =
  fixes alloc :: "'a \<Rightarrow> 'x option \<times> 'a" and rel :: "'k \<Rightarrow> 'a \<Rightarrow> 'a" and key :: "'x \<Rightarrow> 'k"
    and init :: 'a and used :: "'a \<Rightarrow> 'k set" and inv :: "'a \<Rightarrow> bool"
  assumes init_inv: "inv init" and init_used: "used init = {}"
    and alloc_Some: "inv a \<Longrightarrow> alloc a = (Some x, a') \<Longrightarrow>
      inv a' \<and> key x \<notin> used a \<and> used a' = insert (key x) (used a)"
    and alloc_None: "inv a \<Longrightarrow> alloc a = (None, a') \<Longrightarrow> inv a' \<and> used a' = used a"
    and rel_used: "inv a \<Longrightarrow> inv (rel k a) \<and> used (rel k a) = used a - {k}"
begin

lemma pool_reach_inv:
  "pool_reach alloc rel key init a live \<Longrightarrow>
     inv a \<and> distinct (map key live) \<and> used a = set (map key live)"
proof (induction rule: pool_reach.induct)
  case (take a live x a')
  then show ?case by (auto dest: alloc_Some)
next
  case (exhausted a live a')
  then show ?case by (auto dest: alloc_None)
next
  case (give a live x)
  then have "distinct live" by (simp add: distinct_map)
  moreover have "inj_on key (set live)" using give by (simp add: distinct_map)
  ultimately have "key ` set (remove1 x live) = key ` set live - {key x}"
    using give(2) by (auto simp: inj_on_def)
  then show ?case
    using give rel_used by (auto simp: distinct_map inj_on_def \<open>distinct live\<close>)
qed (simp add: init_inv init_used)

end

interpretation alloc_pool:
  subnet_pool allocate release snIdx newJobNetAllocator "\<lambda>a. {idx. alUsed a idx}" alloc_inv
proof unfold_locales
  fix a x a' assume "alloc_inv a" "allocate a = (Some x, a')"
  from allocate_Some [OF this] show "alloc_inv a' \<and> snIdx x \<notin> {idx. alUsed a idx}
      \<and> {idx. alUsed a' idx} = insert (snIdx x) {idx. alUsed a idx}"
    by auto
next
  fix a a' assume "alloc_inv a" "allocate a = (None, a')"
  then have "a' = a"
    by (auto simp: allocate_def split: prod.splits dest: alloc_loop_None)
  then show "alloc_inv a' \<and> {idx. alUsed a' idx} = {idx. alUsed a idx}" using \<open>alloc_inv a\<close> by simp
qed (auto simp: alloc_inv_new release_inv, auto simp: newJobNetAllocator_def release_def split: if_splits)

abbreviation subnets_live :: "jobNetAllocator \<Rightarrow> jobSubnet list \<Rightarrow> bool" where
  "subnets_live \<equiv> pool_reach allocate release snIdx newJobNetAllocator"

section \<open>Addresses\<close>

lemma unat_byte: "unat (ucast (x :: u32) :: u8) = unat x mod 256"
  by (simp add: unsigned_ucast_eq take_bit_eq_mod)

lemma unat_low_byte: "unat ((x :: u32) AND 0xff) = unat x mod 256"
proof -
  have "x AND 0xff = take_bit 8 x" by (simp add: take_bit_eq_mask mask_eq_exp_minus_1)
  then show ?thesis by (simp only: unsigned_take_bit_eq) (simp add: take_bit_eq_mod)
qed

lemma unat_shift8: "unat (drop_bit 8 (x :: u32)) = unat x div 256"
  by (simp only: unat_drop_bit_eq) (simp add: drop_bit_eq_div)

lemma unat_shl2: "unat (push_bit 2 (x :: u32)) = 4 * unat x mod 2 ^ 32"
  by (simp add: push_bit_eq_mult unat_word_ariths mult.commute)

lemma unat_subnet_base: "unat (subnet_base idx) = 4 * (unat idx mod 64)"
proof -
  have "unat (subnet_base idx) = 4 * (unat idx mod 256) mod 2 ^ 32 mod 256"
    by (simp only: subnet_base_def unat_byte unat_shl2 unat_low_byte)
  also have "\<dots> = 4 * (unat idx mod 256) mod 256" by simp
  also have "\<dots> = 4 * (unat idx mod 256 mod 64)" using mult_mod_right [of "4 :: nat" _ 64] by simp
  also have "unat idx mod 256 mod 64 = unat idx mod 64" by (rule mod_mod_cancel) simp
  finally show ?thesis .
qed

lemma unat_subnet_block: "unat (subnet_block idx) = unat idx div 256 mod 256"
  by (simp only: subnet_block_def unat_byte unat_shift8)

lemma subnet_ips_eq_iff:
  "(snHostIP (subnetForIndex i) = snHostIP (subnetForIndex j) \<longleftrightarrow>
     subnet_block i = subnet_block j \<and> subnet_base i = subnet_base j)
   \<and> (snGuestIP (subnetForIndex i) = snGuestIP (subnetForIndex j) \<longleftrightarrow>
     subnet_block i = subnet_block j \<and> subnet_base i = subnet_base j)"
  by (simp add: subnetForIndex_def Let_def)

lemma word_eq_unat: "(a :: 'a::len word) = b \<longleftrightarrow> unat a = unat b"
  by (auto intro: unsigned_word_eqI)

lemma subnet_ips_coincide:
  assumes "unat i < 2 ^ 14" and "unat j < 2 ^ 14"
  shows "snGuestIP (subnetForIndex i) = snGuestIP (subnetForIndex j) \<longleftrightarrow>
    unat i div 256 = unat j div 256 \<and> unat i mod 64 = unat j mod 64"
  using assms subnet_ips_eq_iff [of i j]
  by (simp add: word_eq_unat [of "subnet_block i"] word_eq_unat [of "subnet_base i"]
      unat_subnet_base unat_subnet_block)

lemma guestMAC_eq_iff:
  assumes "unat i < 2 ^ 16" and "unat j < 2 ^ 16"
  shows "guestMAC i = guestMAC j \<longleftrightarrow> i = j"
proof
  assume "guestMAC i = guestMAC j"
  then have "hex_byte (ucast (drop_bit 8 i)) = hex_byte (ucast (drop_bit 8 j))"
    and "hex_byte (ucast (i AND 0xff)) = hex_byte (ucast (j AND 0xff))"
    by (auto simp: guestMAC_def)
  then have "(ucast (drop_bit 8 i) :: u8) = ucast (drop_bit 8 j)"
    and "(ucast (i AND 0xff) :: u8) = ucast (j AND 0xff)"
    by (blast dest: hex_byte_inj)+
  then have "unat i div 256 mod 256 = unat j div 256 mod 256" and "unat i mod 256 mod 256 = unat j mod 256 mod 256"
    using unat_byte [of "drop_bit 8 i"] unat_byte [of "drop_bit 8 j"]
      unat_byte [of "i AND 0xff"] unat_byte [of "j AND 0xff"]
    by (simp_all only: unat_shift8 unat_low_byte)
  then have "unat i div 256 = unat j div 256" and "unat i mod 256 = unat j mod 256"
    using assms by simp_all
  then have "unat i = unat j" by (metis div_mult_mod_eq)
  then show "i = j" by (simp add: word_eq_unat)
qed simp

section \<open>Properties\<close>

text \<open>C27. The allocator.  In every interleaving of jobs taking and giving back subnets, the live
  subnets have pairwise different indices below \<open>2 ^ 14\<close> and pairwise different guest MAC
  addresses, the allocator records exactly the live indices as used, and it reports exhaustion
  only when every index is live.\<close>

theorem subnets_live_distinct:
  assumes "subnets_live a live"
  shows "distinct (map snIdx live) \<and> distinct (map (guestMAC \<circ> snIdx) live)
    \<and> (\<forall>idx. alUsed a idx \<longleftrightarrow> idx \<in> set (map snIdx live))
    \<and> (\<forall>sn \<in> set live. unat (snIdx sn) < 2 ^ 14)
    \<and> (fst (allocate a) = None \<longleftrightarrow> (\<forall>idx. unat idx < 2 ^ 14 \<longrightarrow> idx \<in> set (map snIdx live)))"
proof -
  have inv: "alloc_inv a" and dist: "distinct (map snIdx live)"
    and "{idx. alUsed a idx} = set (map snIdx live)"
    using alloc_pool.pool_reach_inv [OF assms] by simp_all
  then have used: "alUsed a idx \<longleftrightarrow> idx \<in> set (map snIdx live)" for idx by auto
  have small: "\<forall>sn \<in> set live. unat (snIdx sn) < 2 ^ 14"
    using inv used by (auto simp: alloc_inv_def)
  have "inj_on (guestMAC \<circ> snIdx) (set live)"
  proof (rule inj_onI)
    fix x y assume "x \<in> set live" "y \<in> set live" "(guestMAC \<circ> snIdx) x = (guestMAC \<circ> snIdx) y"
    moreover from this small have "snIdx x = snIdx y"
      using guestMAC_eq_iff [of "snIdx x" "snIdx y"] by force
    ultimately show "x = y" using dist by (auto simp: distinct_map inj_on_def)
  qed
  with inv dist used small show ?thesis
    using allocate_None [OF inv] by (auto simp: distinct_map)
qed

text \<open>Which subnets share addresses.  Two indices of the pool get the same guest (and host)
  address exactly when they lie in the same block of 256 and agree modulo 64: the byte that
  holds \<^verbatim>\<open>(idx & 0xff) << 2\<close> keeps only six bits of the index, so of the \<open>2 ^ 14\<close> indices
  only one in four has an address of its own.\<close>

theorem subnet_addresses_coincide:
  assumes "unat i < 2 ^ 14" and "unat j < 2 ^ 14"
  shows "(snGuestIP (subnetForIndex i) = snGuestIP (subnetForIndex j) \<longleftrightarrow>
      unat i div 256 = unat j div 256 \<and> unat i mod 64 = unat j mod 64)
    \<and> (snHostIP (subnetForIndex i) = snHostIP (subnetForIndex j) \<longleftrightarrow>
      unat i div 256 = unat j div 256 \<and> unat i mod 64 = unat j mod 64)"
  using subnet_ips_coincide [OF assms] subnet_ips_eq_iff [of i j] by simp

text \<open>Taking \<open>n\<close> subnets one after the other.\<close>

fun take_subnets :: "nat \<Rightarrow> jobNetAllocator \<Rightarrow> jobSubnet list \<Rightarrow> jobNetAllocator \<times> jobSubnet list" where
  "take_subnets 0 a live = (a, live)"
| "take_subnets (Suc n) a live =
     (case allocate a of
        (Some sn, a') \<Rightarrow> take_subnets n a' (sn # live)
      | (None, a') \<Rightarrow> (a', live))"

lemma take_subnets_live:
  "subnets_live a live \<Longrightarrow> take_subnets n a live = (a', live') \<Longrightarrow> subnets_live a' live'"
  by (induction n arbitrary: a live)
    (auto split: prod.splits option.splits intro: pool_reach.take pool_reach.exhausted)

text \<open>The collision is reached in ordinary use: after sixty-five jobs have taken a subnet from a
  fresh allocator and none has ended, two live subnets with different indices have the same
  host address and the same guest address, although a subnet is documented as a unique
  \<^verbatim>\<open>/30\<close> allocation for one job.\<close>

theorem subnet_collision_reached:
  "\<exists>a live x y. subnets_live a live \<and> length live = 65 \<and> x \<in> set live \<and> y \<in> set live
     \<and> snIdx x \<noteq> snIdx y \<and> snHostIP x = snHostIP y \<and> snGuestIP x = snGuestIP y"
proof -
  obtain a live where t: "take_subnets 65 newJobNetAllocator [] = (a, live)" by fastforce
  have ev: "length (snd (take_subnets 65 newJobNetAllocator [])) = 65
      \<and> subnetForIndex 0 \<in> set (snd (take_subnets 65 newJobNetAllocator []))
      \<and> subnetForIndex 64 \<in> set (snd (take_subnets 65 newJobNetAllocator []))"
    by code_simp
  have "subnets_live a live"
    using take_subnets_live [OF pool_reach.start t] .
  moreover have "snHostIP (subnetForIndex 0) = snHostIP (subnetForIndex 64)"
    and "snGuestIP (subnetForIndex 0) = snGuestIP (subnetForIndex 64)"
    and "snIdx (subnetForIndex 0) \<noteq> snIdx (subnetForIndex 64)"
    by code_simp+
  ultimately show ?thesis using ev t by force
qed

theorem subnets_live_distinct_witness:
  "\<exists>a sn. allocate newJobNetAllocator = (Some sn, a) \<and> distinct (map snIdx [sn])
     \<and> (alUsed a 0 \<longleftrightarrow> 0 \<in> set (map snIdx [sn]))"
proof -
  have "fst (allocate newJobNetAllocator) = Some (subnetForIndex 0)" by code_simp
  then obtain a where al: "allocate newJobNetAllocator = (Some (subnetForIndex 0), a)"
    by (cases "allocate newJobNetAllocator") simp
  have "subnets_live a [subnetForIndex 0]"
    using pool_reach.take [OF pool_reach.start, of allocate newJobNetAllocator] al by blast
  from subnets_live_distinct [OF this] al show ?thesis by blast
qed

theorem subnet_addresses_coincide_witness:
  "snGuestIP (subnetForIndex 5) = snGuestIP (subnetForIndex 69)
    \<and> snGuestIP (subnetForIndex 5) \<noteq> snGuestIP (subnetForIndex 6)"
  using subnet_addresses_coincide [of 5 69] subnet_addresses_coincide [of 5 6] by simp

end
