(* ===== verification/Restricted.thy ===== *)
theory Restricted
  imports Registry EventStream
begin

text \<open>
  The restricted executor (\<^verbatim>\<open>internal/executor/restricted.go\<close>): it runs \<^verbatim>\<open>/bin/echo\<close> on the
  host and nothing else.  The operating system's process execution is a parameter, a function
  from program, arguments and directory to what the process does: the chunks it writes, the
  error of \<^verbatim>\<open>cmd.Run\<close>, the process state, and how the job's context stands afterwards.  The
  clock is a parameter too.  \<^verbatim>\<open>Run\<close> is one function from the job, the output functions and
  the table of running jobs to the result, the error and the new states.

  The interface \<open>executor\<close> is what the worker relies on of any executor: a run appends output
  events to the stream and nothing else.
\<close>

section \<open>Errors and process execution\<close>

text \<open>The errors of both executors.\<close>

datatype exec_error =
  CommandRejected string
| AlreadyRunning string
| RunCommand string
| NoWorkspaceRoot
| MakeStateDir string
| PrepareDisk string
| PrepareLimits string
| NetworkUnavailable "string option"
| PrepareNetwork string
| VsockListen string
| StartVM string
| PlaceInCgroup string
| ConfigureVM string
| AcceptGuest string
| GuestNotConnected
| VMExitedEarly
| ContextDone ctx_err
| SendJob string
| GuestClosed string
| DecodeGuest string
| WriteStdout
| WriteStderr
| CollectArtifact string
| ResultMissing

datatype stream = Stdout | Stderr

record process_state =
  psUserMillis :: int
  psSystemMillis :: int
  psExitCode :: int

record process_run =
  prChunks :: "(stream \<times> bytes) list"
  prError :: "string option" \<comment> \<open>the process did not start or did not succeed\<close>
  prState :: "process_state option"
  prCtx :: "ctx_err option" \<comment> \<open>\<^verbatim>\<open>jobCtx.Err()\<close> after the run\<close>

type_synonym os_exec = "string \<Rightarrow> string list \<Rightarrow> string \<Rightarrow> process_run"

text \<open>\<^verbatim>\<open>exec.Cmd\<close> copies each stream to its writer; a failed write ends the copying of that
  stream and is the error of \<^verbatim>\<open>Run\<close> when the process itself succeeded.\<close>

fun copy_streams ::
  "(bytes \<Rightarrow> 's \<Rightarrow> sink_error option \<times> 's) \<Rightarrow> (bytes \<Rightarrow> 's \<Rightarrow> sink_error option \<times> 's) \<Rightarrow>
   (stream \<times> bytes) list \<Rightarrow> bool \<Rightarrow> bool \<Rightarrow> 's \<Rightarrow> bool \<times> 's" where
  "copy_streams wo we [] outOk errOk s = (outOk \<and> errOk, s)"
| "copy_streams wo we ((Stdout, d) # cs) outOk errOk s =
     (if outOk then case wo d s of (r, s') \<Rightarrow> copy_streams wo we cs (r = None) errOk s'
      else copy_streams wo we cs outOk errOk s)"
| "copy_streams wo we ((Stderr, d) # cs) outOk errOk s =
     (if errOk then case we d s of (r, s') \<Rightarrow> copy_streams wo we cs outOk (r = None) s'
      else copy_streams wo we cs outOk errOk s)"

text \<open>\<^verbatim>\<open>t.Sub(u).Milliseconds()\<close> of two instants in nanoseconds.\<close>

definition millis_between :: "int \<Rightarrow> int \<Rightarrow> int" where
  "millis_between started ended = go_div (ended - started) 1000000"

section \<open>Operations\<close>

definition Restricted_Capabilities :: "string \<Rightarrow> string \<Rightarrow> executor_capability list" where
  "Restricted_Capabilities goos goarch =
     [\<lparr>capPlatform = \<lparr>pOS = goos, pArch = goarch\<rparr>, capIsolation = ''restricted-host-process''\<rparr>]"

text \<open>The result after the process has run, before the context is looked at.\<close>

definition restricted_result :: "int \<Rightarrow> int \<Rightarrow> process_state option \<Rightarrow> job_result" where
  "restricted_result started ended ps =
     (let r = zero_result\<lparr>rStartedAt := started, rEndedAt := ended,
                rDurationMillis := millis_between started ended, rExitCode := 0,
                rTerminationReason := ''completed''\<rparr>
      in case ps of
           None \<Rightarrow> r
         | Some p \<Rightarrow>
             (let r1 = r\<lparr>rCPUTimeMillis := psUserMillis p + psSystemMillis p\<rparr>
              in if psExitCode p \<ge> 0 then r1\<lparr>rExitCode := psExitCode p\<rparr> else r1))"

definition Restricted_Run ::
  "os_exec \<Rightarrow> int \<Rightarrow> int \<Rightarrow> run_id \<Rightarrow> job \<Rightarrow> string \<Rightarrow>
   (bytes \<Rightarrow> 's \<Rightarrow> sink_error option \<times> 's) \<Rightarrow> (bytes \<Rightarrow> 's \<Rightarrow> sink_error option \<times> 's) \<Rightarrow>
   table \<Rightarrow> 's \<Rightarrow> job_result \<times> exec_error option \<times> table \<times> 's" where
  "Restricted_Run exec started ended rid spec root wo we running s =
     (let result = zero_result\<lparr>rStartedAt := started, rTerminationReason := ''executor_error''\<rparr>
      in if jCommand spec \<noteq> ''echo'' then (result, Some (CommandRejected (jCommand spec)), running, s)
         else case Restricted_register (jID spec) rid running of
           (False, running1) \<Rightarrow> (result, Some (AlreadyRunning (jID spec)), running1, s)
         | (True, running1) \<Rightarrow>
             (let p = exec ''/bin/echo'' (jArgs spec) root;
                  (copied, s1) = copy_streams wo we (prChunks p) True True s;
                  err = (case prError p of
                           Some e \<Rightarrow> Some e
                         | None \<Rightarrow> if copied then None else Some ''copy'');
                  result = restricted_result started ended (prState p);
                  running2 = Restricted_unregister (jID spec) running1
              in case prCtx p of
                   Some DeadlineExceeded \<Rightarrow>
                     (result\<lparr>rExitCode := 124, rTerminationReason := ''timeout''\<rparr>, None, running2, s1)
                 | Some Canceled \<Rightarrow>
                     (result\<lparr>rExitCode := 130, rTerminationReason := ''cancelled''\<rparr>, None, running2, s1)
                 | None \<Rightarrow>
                     (case err of
                        Some e \<Rightarrow> (result\<lparr>rTerminationReason := ''command_failed''\<rparr>,
                                   Some (RunCommand e), running2, s1)
                      | None \<Rightarrow> (result, None, running2, s1))))"

section \<open>The executor interface\<close>

text \<open>What the worker calls, with the stream as the state.\<close>

type_synonym 's runner = "job \<Rightarrow> string \<Rightarrow> int \<Rightarrow> 's \<Rightarrow> job_result \<times> exec_error option \<times> 's"

locale executor =
  fixes run :: "'s runner" and sent :: "'s \<Rightarrow> event list" and keeps :: "'s \<Rightarrow> bool"
  assumes run_appends: "run spec root used s = (r, e, s') \<Longrightarrow>
      \<exists>evs. sent s' = sent s @ evs \<and> list_all output_event evs"
    and run_keeps: "run spec root used s = (r, e, s') \<Longrightarrow> keeps s \<Longrightarrow> keeps s'"

context job_output
begin

lemma copy_streams_appends:
  "copy_streams write_out write_err cs a b s = (ok, s') \<Longrightarrow>
     \<exists>evs. sent s' = sent s @ evs \<and> list_all output_event evs"
proof (induction cs arbitrary: a b s)
  case (Cons c cs)
  obtain st d where c: "c = (st, d)" by fastforce
  obtain s1 a1 b1 where rest: "copy_streams write_out write_err cs a1 b1 s1 = (ok, s')"
    and "\<exists>evs. sent s1 = sent s @ evs \<and> list_all output_event evs"
    using Cons.prems c write_out_appends [of d s] write_err_appends [of d s]
    by (cases st) (fastforce split: if_splits prod.splits)+
  then show ?case using Cons.IH [OF rest] by auto
qed simp

lemma Restricted_Run_appends:
  "Restricted_Run exec t0 t1 rid spec root write_out write_err running s = (r, e, running', s') \<Longrightarrow>
     \<exists>evs. sent s' = sent s @ evs \<and> list_all output_event evs"
  by (auto simp: Restricted_Run_def Let_def split: if_splits prod.splits bool.splits option.splits
      ctx_err.splits dest: copy_streams_appends intro: exI [of _ "[]"])

end

text \<open>A property of the stream that each output function keeps is kept by a whole run.\<close>

lemma copy_streams_keeps:
  assumes "\<And>d s r s'. wo d s = (r, s') \<Longrightarrow> I s \<Longrightarrow> I s'" and "\<And>d s r s'. we d s = (r, s') \<Longrightarrow> I s \<Longrightarrow> I s'"
  shows "copy_streams wo we cs a b s = (ok, s') \<Longrightarrow> I s \<Longrightarrow> I s'"
  using assms
  by (induction wo we cs a b s rule: copy_streams.induct) (auto split: if_splits prod.splits)

lemma Restricted_Run_keeps:
  assumes "\<And>d s r s'. wo d s = (r, s') \<Longrightarrow> I s \<Longrightarrow> I s'" and "\<And>d s r s'. we d s = (r, s') \<Longrightarrow> I s \<Longrightarrow> I s'"
  shows "Restricted_Run exec t0 t1 rid spec root wo we running s = (r, e, running', s') \<Longrightarrow> I s \<Longrightarrow> I s'"
  using copy_streams_keeps [of wo I we, OF assms]
  by (auto simp: Restricted_Run_def Let_def split: if_splits prod.splits bool.splits option.splits
      ctx_err.splits)

lemma write_to_counted: "write_to t d s = (r, s') \<Longrightarrow> sink_counted s \<Longrightarrow> sink_counted s'"
  by (auto simp: write_to_Emit intro: Emit_counted)

text \<open>The executor as the worker sees it, with the table as it stands when the run is called.\<close>

definition restricted_runner :: "os_exec \<Rightarrow> int \<Rightarrow> int \<Rightarrow> run_id \<Rightarrow> table \<Rightarrow> sink runner" where
  "restricted_runner exec t0 t1 rid running spec root used s =
     (case Restricted_Run exec t0 t1 rid spec root (write_to EventStdout) (write_to EventStderr) running s of
        (r, e, _, s') \<Rightarrow> (r, e, s'))"

text \<open>The contract as the worker needs it: the run keeps the byte count right, and keeps a sink
  without faults free of them.\<close>

locale sink_executor =
  counted: executor run skSent sink_counted + healthy: executor run skSent sink_healthy
  for run :: "sink runner"

lemma write_to_healthy: "write_to t d s = (r, s') \<Longrightarrow> sink_healthy s \<Longrightarrow> sink_healthy s'"
  by (auto simp: write_to_Emit intro: Emit_healthy)

interpretation restricted_executor: sink_executor "restricted_runner exec t0 t1 rid running"
  by unfold_locales
    (auto simp: restricted_runner_def split: prod.splits dest: sink_out.Restricted_Run_appends
      intro: Restricted_Run_keeps [where I = sink_counted, OF write_to_counted write_to_counted]
        Restricted_Run_keeps [where I = sink_healthy, OF write_to_healthy write_to_healthy])

section \<open>Properties\<close>

text \<open>General commands never run on the host.  What the restricted executor returns, emits and
  leaves in its table depends on the operating system's process execution only through
  \<^verbatim>\<open>/bin/echo\<close> with the job's own arguments in the job's workspace; for any other command not
  even that: the job is refused with nothing emitted and the table untouched.\<close>

theorem Restricted_only_echo:
  assumes "exec ''/bin/echo'' (jArgs spec) root = exec' ''/bin/echo'' (jArgs spec) root"
  shows "Restricted_Run exec t0 t1 rid spec root wo we running s =
      Restricted_Run exec' t0 t1 rid spec root wo we running s
    \<and> (jCommand spec \<noteq> ''echo'' \<longrightarrow>
        (\<exists>r. Restricted_Run exec t0 t1 rid spec root wo we running s =
           (r, Some (CommandRejected (jCommand spec)), running, s)))"
  unfolding Restricted_Run_def assms by (simp add: Let_def)

text \<open>How a run ends.  A run of \<^verbatim>\<open>echo\<close> that is not a duplicate reports 124 and \<^verbatim>\<open>timeout\<close>
  when the deadline passed, 130 and \<^verbatim>\<open>cancelled\<close> when it was cancelled, and otherwise the exit
  code of the process; an error is returned exactly when the context is still live and the
  process or the copying failed; and the table of running jobs is as before the call.\<close>

theorem Restricted_Run_outcome:
  assumes "jCommand spec = ''echo''" and "running (jID spec) = None"
    and "exec ''/bin/echo'' (jArgs spec) root = p"
    and "copy_streams wo we (prChunks p) True True s = (copied, s1)"
    and "Restricted_Run exec t0 t1 rid spec root wo we running s = (r, e, running', s')"
  shows "running' = running \<and> s' = s1
    \<and> (prCtx p = Some DeadlineExceeded \<longrightarrow> rExitCode r = 124 \<and> rTerminationReason r = ''timeout'')
    \<and> (prCtx p = Some Canceled \<longrightarrow> rExitCode r = 130 \<and> rTerminationReason r = ''cancelled'')
    \<and> (prCtx p = None \<longrightarrow>
         rExitCode r = (case prState p of None \<Rightarrow> 0 | Some ps \<Rightarrow> max 0 (psExitCode ps)))
    \<and> (e = None \<longleftrightarrow> prCtx p \<noteq> None \<or> prError p = None \<and> copied)"
proof -
  have reg: "Restricted_register (jID spec) rid running = (True, running(jID spec \<mapsto> rid))"
    using assms(2) by (rule restricted_table.reg_total)
  have restored: "Restricted_unregister (jID spec) (running(jID spec \<mapsto> rid)) = running"
    using reg by (rule restricted_table.bracket)
  have code: "rExitCode (restricted_result t0 t1 ps) =
      (case ps of None \<Rightarrow> 0 | Some q \<Rightarrow> max 0 (psExitCode q))" for ps
    by (simp add: restricted_result_def Let_def split: option.splits)
  show ?thesis
  proof (cases "prCtx p")
    case None
    with assms reg restored code show ?thesis
      by (auto simp: Restricted_Run_def Let_def split: option.splits if_splits)
  next
    case (Some c)
    with assms reg restored code show ?thesis
      by (cases c) (auto simp: Restricted_Run_def Let_def)
  qed
qed

definition echo_exec :: os_exec where
  "echo_exec prog args dir =
     (if prog = ''/bin/echo''
      then \<lparr>prChunks = [(Stdout, Join CHR '' '' args @ [CHR 0x0A])], prError = None,
            prState = Some \<lparr>psUserMillis = 1, psSystemMillis = 0, psExitCode = 0\<rparr>, prCtx = None\<rparr>
      else \<lparr>prChunks = [], prError = Some ''not found'', prState = None, prCtx = None\<rparr>)"

theorem Restricted_only_echo_witness:
  "Restricted_Run echo_exec 0 0 0 sample_job ''/w'' (write_to EventStdout) (write_to EventStderr)
      Map.empty (NewSink [] False) =
    Restricted_Run (\<lambda>_. echo_exec ''/bin/echo'') 0 0 0 sample_job ''/w''
      (write_to EventStdout) (write_to EventStderr) Map.empty (NewSink [] False)"
  by (rule Restricted_only_echo [THEN conjunct1]) (rule refl)

theorem Restricted_Run_outcome_witness:
  "\<exists>r e running' s'. Restricted_Run echo_exec 0 0 0 sample_job ''/w'' (write_to EventStdout)
      (write_to EventStderr) Map.empty (NewSink [] False) = (r, e, running', s')
    \<and> e = None \<and> rExitCode r = 0 \<and> running' = Map.empty"
proof -
  let ?p = "echo_exec ''/bin/echo'' (jArgs sample_job) ''/w''"
  obtain copied s1 where c: "copy_streams (write_to EventStdout) (write_to EventStderr) (prChunks ?p)
      True True (NewSink [] False) = (copied, s1)" by fastforce
  obtain r e t s' where run: "Restricted_Run echo_exec 0 0 0 sample_job ''/w'' (write_to EventStdout)
      (write_to EventStderr) Map.empty (NewSink [] False) = (r, e, t, s')"
    by (metis prod_cases4)
  have copied: "fst (copy_streams (write_to EventStdout) (write_to EventStderr) (prChunks ?p)
      True True (NewSink [] False))" by code_simp
  have "jCommand sample_job = ''echo''" by code_simp
  then have "t = Map.empty \<and> e = None \<and> rExitCode r = 0"
    using Restricted_Run_outcome [OF _ _ refl c run] copied c by (simp add: echo_exec_def)
  with run show ?thesis by blast
qed

end
