(* ===== verification/JobNetLinux.thy ===== *)
theory JobNetLinux
  imports JobNet Sha256
begin

text \<open>
  Job networking on Linux (\<^verbatim>\<open>internal/executor/jobnet_linux.go\<close>, \<^verbatim>\<open>tapName\<close> of
  \<^verbatim>\<open>jobnet.go\<close>) and the per-job cgroup (\<^verbatim>\<open>cgroup_linux.go\<close>).

  The packages \<^verbatim>\<open>vishvananda/netlink\<close> and \<^verbatim>\<open>containerd/cgroups\<close> are parameters: records of
  functions on an unknown kernel state.  What the code relies on of them is stated by the
  predicates \<open>netlink_ok\<close> and \<open>cgroups_ok\<close>, relative to a reading of the kernel state as a set of
  device names or a map of cgroups; the concrete instances \<open>list_netlink\<close> and \<open>list_cgroups\<close>
  show that both can hold.  The host calls of \<^verbatim>\<open>init\<close> are outcomes.

  The lemmas: a failed set-up leaves no device, no open descriptor and no subnet behind; a
  set-up followed by its tear-down restores devices and subnets; device names fit the kernel's
  limit and cannot be mistaken for another prefix; the token bucket of the rate limiter is exact
  up to \<open>2 ^ 44\<close> Mbit/s and wraps beyond.
\<close>

section \<open>Device names\<close>

definition tapName :: "string \<Rightarrow> string" where
  "tapName jobID = tapPrefix @ hex_encode (take 4 (sha256 (string_bytes jobID)))"

text \<open>\<^verbatim>\<open>IFNAMSIZ\<close> is 16 including the terminating zero.\<close>

lemma length_tapName: "length (tapName j) = 10"
  by (simp add: tapName_def tapPrefix_def)

lemma tapName_prefix: "HasPrefix (tapName j) tapPrefix"
  by (simp add: tapName_def)

lemma tapName_chars: "c \<in> set (drop 2 (tapName j)) \<Longrightarrow> is_hex c"
  by (auto simp: tapName_def tapPrefix_def dest: hex_encode_hex)

section \<open>Netlink\<close>

record tuntap =
  ttName :: string
  ttFds :: "nat list"

text \<open>The calls of the source.  \<^verbatim>\<open>LinkAdd\<close> stores the opened descriptors in the device structure;
  \<^verbatim>\<open>LinkDel\<close> finds the device by its index or, without one, by its name; closing a
  descriptor and writing a \<^verbatim>\<open>/proc/sys\<close> file are calls of the operating system.\<close>

record 'k netlink =
  nlLinkAdd :: "string \<Rightarrow> 'k \<Rightarrow> (string option \<times> nat list) \<times> 'k"
  nlAddrAdd :: "string \<Rightarrow> ipv4 \<Rightarrow> ipv4 \<Rightarrow> 'k \<Rightarrow> string option \<times> 'k"
  nlLinkSetUp :: "string \<Rightarrow> 'k \<Rightarrow> string option \<times> 'k"
  nlLinkDel :: "string \<Rightarrow> 'k \<Rightarrow> string option \<times> 'k"
  nlLinkByName :: "string \<Rightarrow> 'k \<Rightarrow> bool"
  nlClose :: "nat \<Rightarrow> 'k \<Rightarrow> string option \<times> 'k"
  nlWriteSysctl :: "string \<Rightarrow> string \<Rightarrow> 'k \<Rightarrow> string option \<times> 'k"

section \<open>The job network\<close>

record jobNetwork =
  jnAlloc :: jobNetAllocator
  jnMaxMbps :: "64 word"
  jnMaxPPS :: "64 word"
  jnResolvers :: "string list"
  jnReady :: bool
  jnErr :: "string option"

text \<open>What the host answers during \<^verbatim>\<open>init\<close>: the stat of \<^verbatim>\<open>/dev/net/tun\<close>, the write of the
  forwarding sysctl and \<^verbatim>\<open>nft -f -\<close> on a ruleset; \<^verbatim>\<open>modprobe\<close>'s outcome is discarded.\<close>

record net_init =
  niStatTun :: "string option"
  niIpForward :: "string option"
  niNft :: "string \<Rightarrow> string option"

definition jobNetwork_init :: "net_init \<Rightarrow> string \<Rightarrow> string option" where
  "jobNetwork_init ni ruleset =
     (case niStatTun ni of
        Some e \<Rightarrow> Some (''job networking requires /dev/net/tun: '' @ e)
      | None \<Rightarrow>
          (case niIpForward ni of
             Some e \<Rightarrow> Some (''enable ip forwarding: '' @ e)
           | None \<Rightarrow>
               (case niNft ni ruleset of
                  Some e \<Rightarrow> Some (''load job nftables rules: '' @ e)
                | None \<Rightarrow> None)))"

definition newJobNetwork ::
  "net_init \<Rightarrow> string \<Rightarrow> 64 word \<Rightarrow> 64 word \<Rightarrow> string list \<Rightarrow> jobNetwork" where
  "newJobNetwork ni ruleset maxMbps maxPPS resolvers =
     (let jn = \<lparr>jnAlloc = newJobNetAllocator, jnMaxMbps = maxMbps, jnMaxPPS = maxPPS,
                jnResolvers = resolvers, jnReady = False, jnErr = None\<rparr>
      in case jobNetwork_init ni ruleset of
           Some e \<Rightarrow> jn\<lparr>jnErr := Some e\<rparr>
         | None \<Rightarrow> jn\<lparr>jnReady := True\<rparr>)"

fun close_all :: "'k netlink \<Rightarrow> nat list \<Rightarrow> 'k \<Rightarrow> 'k" where
  "close_all nl [] k = k"
| "close_all nl (fd # fds) k = close_all nl fds (snd (nlClose nl fd k))"

definition closeTapFds :: "'k netlink \<Rightarrow> tuntap \<Rightarrow> 'k \<Rightarrow> tuntap \<times> 'k" where
  "closeTapFds nl tap k = (tap\<lparr>ttFds := []\<rparr>, close_all nl (ttFds tap) k)"

datatype tap_error = NoSubnets | CreateTap string | AssignAddress string | BringUp string

text \<open>The closure \<^verbatim>\<open>fail\<close> of \<^verbatim>\<open>setupTap\<close>.\<close>

definition setup_fail ::
  "'k netlink \<Rightarrow> u32 \<Rightarrow> tuntap \<Rightarrow> jobNetwork \<Rightarrow> 'k \<Rightarrow> jobNetwork \<times> 'k" where
  "setup_fail nl idx tap jn k =
     (case closeTapFds nl tap k of
        (tap', k1) \<Rightarrow> (jn\<lparr>jnAlloc := release idx (jnAlloc jn)\<rparr>, snd (nlLinkDel nl (ttName tap') k1)))"

definition setupTap ::
  "'k netlink \<Rightarrow> string \<Rightarrow> jobNetwork \<Rightarrow> 'k \<Rightarrow> (tap_error + jobSubnet \<times> string) \<times> jobNetwork \<times> 'k" where
  "setupTap nl jobID jn k =
     (case allocate (jnAlloc jn) of
        (None, al) \<Rightarrow> (Inl NoSubnets, jn\<lparr>jnAlloc := al\<rparr>, k)
      | (Some sub, al) \<Rightarrow>
          (let jn1 = jn\<lparr>jnAlloc := al\<rparr>;
               name = tapName jobID
           in case nlLinkAdd nl name k of
                ((Some e, fds), k1) \<Rightarrow>
                  (Inl (CreateTap e), setup_fail nl (snIdx sub) \<lparr>ttName = name, ttFds = fds\<rparr> jn1 k1)
              | ((None, fds), k1) \<Rightarrow>
                  (let tap = \<lparr>ttName = name, ttFds = fds\<rparr>
                   in case nlAddrAdd nl name (snHostIP sub) (snMask sub) k1 of
                        (Some e, k2) \<Rightarrow> (Inl (AssignAddress e), setup_fail nl (snIdx sub) tap jn1 k2)
                      | (None, k2) \<Rightarrow>
                          (case nlLinkSetUp nl name k2 of
                             (Some e, k3) \<Rightarrow> (Inl (BringUp e), setup_fail nl (snIdx sub) tap jn1 k3)
                           | (None, k3) \<Rightarrow>
                               (let k4 = snd (nlWriteSysctl nl
                                       (''/proc/sys/net/ipv4/conf/'' @ name @ ''/rp_filter'') ''1'' k3);
                                    k5 = snd (nlWriteSysctl nl
                                       (''/proc/sys/net/ipv6/conf/'' @ name @ ''/disable_ipv6'') ''1'' k4)
                                in (Inr (sub, name), jn1, snd (closeTapFds nl tap k5)))))))"

definition teardownTap ::
  "'k netlink \<Rightarrow> string \<Rightarrow> jobSubnet option \<Rightarrow> jobNetwork \<Rightarrow> 'k \<Rightarrow> jobNetwork \<times> 'k" where
  "teardownTap nl name sub jn k =
     (let k1 = (if nlLinkByName nl name k then snd (nlLinkDel nl name k) else k)
      in case sub of
           None \<Rightarrow> (jn, k1)
         | Some sn \<Rightarrow> (jn\<lparr>jnAlloc := release (snIdx sn) (jnAlloc jn)\<rparr>, k1))"

section \<open>Rate limiter\<close>

record token_bucket =
  tbSize :: "64 word"
  tbRefillTime :: "64 word"

record rate_limiter =
  rlBandwidth :: "token_bucket option"
  rlOps :: "token_bucket option"

definition rateLimiter :: "jobNetwork \<Rightarrow> rate_limiter option" where
  "rateLimiter jn =
     (if jnMaxMbps jn = 0 \<and> jnMaxPPS jn = 0 then None
      else Some \<lparr>rlBandwidth =
             (if jnMaxMbps jn > 0
              then Some \<lparr>tbSize = jnMaxMbps jn * 1024 * 1024 div 8, tbRefillTime = 1000\<rparr> else None),
           rlOps =
             (if jnMaxPPS jn > 0 then Some \<lparr>tbSize = jnMaxPPS jn, tbRefillTime = 1000\<rparr> else None)\<rparr>)"

section \<open>Cgroups\<close>

definition cgroupMount :: string where "cgroupMount = ''/sys/fs/cgroup''"

record cg_resources =
  cgCPUMax :: string
  cgMemoryMax :: int
  cgPidsMax :: int

record 'k cgroups =
  cgNewManager :: "string \<Rightarrow> string \<Rightarrow> cg_resources \<Rightarrow> 'k \<Rightarrow> string option \<times> 'k"
  cgAddProc :: "string \<Rightarrow> 64 word \<Rightarrow> 'k \<Rightarrow> string option \<times> 'k"
  cgDelete :: "string \<Rightarrow> 'k \<Rightarrow> string option \<times> 'k"

text \<open>\<^verbatim>\<open>int64(memoryMB)<<20 + 256<<20\<close>: in Go the shift binds as tightly as multiplication.\<close>

definition job_limits :: "int \<Rightarrow> int \<Rightarrow> cg_resources" where
  "job_limits vcpu memoryMB =
     \<lparr>cgCPUMax = fmt_int (wrap64 (vcpu * 100000)) @ '' 100000'',
      cgMemoryMax = wrap64 (wrap64 (memoryMB * 2 ^ 20) + 256 * 2 ^ 20),
      cgPidsMax = 1024\<rparr>"

text \<open>A \<^verbatim>\<open>*jobCgroup\<close>: a nil pointer or nil manager is \<open>None\<close>, otherwise the group's path.\<close>

type_synonym jobCgroup = "string option"

definition newJobCgroup ::
  "'k cgroups \<Rightarrow> string \<Rightarrow> int \<Rightarrow> int \<Rightarrow> 'k \<Rightarrow> (string + jobCgroup) \<times> 'k" where
  "newJobCgroup cg jobID vcpu memoryMB k =
     (let path = ''/yonk-'' @ jobID
      in case cgNewManager cg cgroupMount path (job_limits vcpu memoryMB) k of
           (Some e, k1) \<Rightarrow> (Inl (''create job cgroup: '' @ e), k1)
         | (None, k1) \<Rightarrow> (Inr (Some path), k1))"

definition addProcess :: "'k cgroups \<Rightarrow> jobCgroup \<Rightarrow> int \<Rightarrow> 'k \<Rightarrow> string option \<times> 'k" where
  "addProcess cg c pid k =
     (case c of
        None \<Rightarrow> (None, k)
      | Some path \<Rightarrow>
          (case cgAddProc cg path (word_of_int pid) k of
             (Some e, k1) \<Rightarrow> (Some (''place firecracker in job cgroup: '' @ e), k1)
           | (None, k1) \<Rightarrow> (None, k1)))"

definition jobCgroup_delete :: "'k cgroups \<Rightarrow> jobCgroup \<Rightarrow> 'k \<Rightarrow> 'k" where
  "jobCgroup_delete cg c k = (case c of None \<Rightarrow> k | Some path \<Rightarrow> snd (cgDelete cg path k))"

definition cgroupV2Available :: "(string \<Rightarrow> string option) \<Rightarrow> string option" where
  "cgroupV2Available stat =
     (case stat (cgroupMount @ ''/cgroup.controllers'') of
        Some e \<Rightarrow> Some (''cgroup v2 not available: '' @ e)
      | None \<Rightarrow> None)"

section \<open>What the code relies on\<close>

text \<open>The kernel state read as the set of device names and the set of open descriptors.\<close>

definition netlink_ok :: "'k netlink \<Rightarrow> ('k \<Rightarrow> string set) \<Rightarrow> ('k \<Rightarrow> nat set) \<Rightarrow> bool" where
  "netlink_ok nl devs fds =
     ((\<forall>n k F k'. nlLinkAdd nl n k = ((None, F), k') \<longrightarrow>
         devs k' = insert n (devs k) \<and> fds k' = fds k \<union> set F \<and> fds k \<inter> set F = {})
      \<and> (\<forall>n k e F k'. nlLinkAdd nl n k = ((Some e, F), k') \<longrightarrow>
         devs k' = devs k \<and> fds k' = fds k \<union> set F \<and> fds k \<inter> set F = {})
      \<and> (\<forall>n ip m k. devs (snd (nlAddrAdd nl n ip m k)) = devs k
           \<and> fds (snd (nlAddrAdd nl n ip m k)) = fds k)
      \<and> (\<forall>n k. devs (snd (nlLinkSetUp nl n k)) = devs k \<and> fds (snd (nlLinkSetUp nl n k)) = fds k)
      \<and> (\<forall>n k. devs (snd (nlLinkDel nl n k)) = devs k - {n} \<and> fds (snd (nlLinkDel nl n k)) = fds k)
      \<and> (\<forall>n k. nlLinkByName nl n k \<longleftrightarrow> n \<in> devs k)
      \<and> (\<forall>fd k. devs (snd (nlClose nl fd k)) = devs k \<and> fds (snd (nlClose nl fd k)) = fds k - {fd})
      \<and> (\<forall>p v k. devs (snd (nlWriteSysctl nl p v k)) = devs k
           \<and> fds (snd (nlWriteSysctl nl p v k)) = fds k))"

text \<open>An aspect of the kernel state that no netlink call touches.\<close>

definition netlink_frame :: "'k netlink \<Rightarrow> ('k \<Rightarrow> 'o) \<Rightarrow> bool" where
  "netlink_frame nl obs =
     ((\<forall>n k. obs (snd (nlLinkAdd nl n k)) = obs k)
      \<and> (\<forall>n ip m k. obs (snd (nlAddrAdd nl n ip m k)) = obs k)
      \<and> (\<forall>n k. obs (snd (nlLinkSetUp nl n k)) = obs k)
      \<and> (\<forall>n k. obs (snd (nlLinkDel nl n k)) = obs k)
      \<and> (\<forall>fd k. obs (snd (nlClose nl fd k)) = obs k)
      \<and> (\<forall>p v k. obs (snd (nlWriteSysctl nl p v k)) = obs k))"

text \<open>The kernel state read as the processes of each cgroup: creation keeps an existing group,
  a group is removed when it holds no process and is kept when it does.\<close>

definition cgroups_ok :: "'k cgroups \<Rightarrow> ('k \<Rightarrow> string \<Rightarrow> 64 word set option) \<Rightarrow> bool" where
  "cgroups_ok cg groups =
     ((\<forall>m p r k k'. cgNewManager cg m p r k = (None, k') \<longrightarrow>
         groups k' = (groups k)(p \<mapsto> (case groups k p of None \<Rightarrow> {} | Some P \<Rightarrow> P)))
      \<and> (\<forall>m p r k e k'. cgNewManager cg m p r k = (Some e, k') \<longrightarrow> groups k' = groups k)
      \<and> (\<forall>p i k k'. cgAddProc cg p i k = (None, k') \<longrightarrow>
         groups k' = (groups k)(p := map_option (insert i) (groups k p)))
      \<and> (\<forall>p i k e k'. cgAddProc cg p i k = (Some e, k') \<longrightarrow> groups k' = groups k)
      \<and> (\<forall>p k. groups (snd (cgDelete cg p k)) =
           (if groups k p = Some {} then (groups k)(p := None) else groups k)))"

definition cgroups_frame :: "'k cgroups \<Rightarrow> ('k \<Rightarrow> 'o) \<Rightarrow> bool" where
  "cgroups_frame cg obs =
     ((\<forall>m p r k. obs (snd (cgNewManager cg m p r k)) = obs k)
      \<and> (\<forall>p i k. obs (snd (cgAddProc cg p i k)) = obs k)
      \<and> (\<forall>p k. obs (snd (cgDelete cg p k)) = obs k))"

section \<open>Lemmas on set-up and tear-down\<close>

lemma netlink_okD:
  assumes "netlink_ok nl devs fds"
  shows "devs (snd (nlAddrAdd nl n ip m k)) = devs k" "fds (snd (nlAddrAdd nl n ip m k)) = fds k"
    and "devs (snd (nlLinkSetUp nl n k)) = devs k" "fds (snd (nlLinkSetUp nl n k)) = fds k"
    and "devs (snd (nlLinkDel nl n k)) = devs k - {n}" "fds (snd (nlLinkDel nl n k)) = fds k"
    and "nlLinkByName nl n k \<longleftrightarrow> n \<in> devs k"
    and "devs (snd (nlClose nl fd k)) = devs k" "fds (snd (nlClose nl fd k)) = fds k - {fd}"
    and "devs (snd (nlWriteSysctl nl p v k)) = devs k" "fds (snd (nlWriteSysctl nl p v k)) = fds k"
  using assms by (simp_all del: split_paired_All add: netlink_ok_def)

lemma netlink_ok_add:
  assumes "netlink_ok nl devs fds" and "nlLinkAdd nl n k = ((r, F), k')"
  shows "devs k' = (if r = None then insert n (devs k) else devs k)"
    and "fds k' = fds k \<union> set F" and "fds k \<inter> set F = {}"
proof -
  have "devs k' = (if r = None then insert n (devs k) else devs k)
      \<and> fds k' = fds k \<union> set F \<and> fds k \<inter> set F = {}"
    using assms by (cases r) (auto simp: netlink_ok_def)
  then show "devs k' = (if r = None then insert n (devs k) else devs k)"
    and "fds k' = fds k \<union> set F" and "fds k \<inter> set F = {}" by blast+
qed

lemma close_all_ok:
  assumes "netlink_ok nl devs fds"
  shows "devs (close_all nl F k) = devs k" and "fds (close_all nl F k) = fds k - set F"
  by (induction F arbitrary: k) (auto simp: netlink_okD [OF assms])

lemma netlink_frameD:
  assumes "netlink_frame nl obs"
  shows "obs (snd (nlLinkAdd nl n k)) = obs k" "obs (snd (nlAddrAdd nl n ip m k)) = obs k"
    and "obs (snd (nlLinkSetUp nl n k)) = obs k" "obs (snd (nlLinkDel nl n k)) = obs k"
    and "obs (snd (nlClose nl fd k)) = obs k" "obs (snd (nlWriteSysctl nl p v k)) = obs k"
  using assms by (simp_all del: split_paired_All add: netlink_frame_def)

lemma close_all_frame: "netlink_frame nl obs \<Longrightarrow> obs (close_all nl F k) = obs k"
  by (induction F arbitrary: k) (simp_all add: netlink_frameD)

lemma setup_fail_eq:
  "setup_fail nl idx tap jn k =
     (jn\<lparr>jnAlloc := release idx (jnAlloc jn)\<rparr>, snd (nlLinkDel nl (ttName tap) (close_all nl (ttFds tap) k)))"
  by (simp add: setup_fail_def closeTapFds_def)

text \<open>The four ways a set-up ends, each with what was called.\<close>

lemma setupTap_cases:
  assumes "setupTap nl j jn k = (r, jn', k')"
  obtains (exhausted) al where "allocate (jnAlloc jn) = (None, al)" and "r = Inl NoSubnets"
      and "jn' = jn\<lparr>jnAlloc := al\<rparr>" and "k' = k"
  | (failed) e sub al E F k1 k2 where "allocate (jnAlloc jn) = (Some sub, al)" and "r = Inl e"
      and "e \<noteq> NoSubnets" and "nlLinkAdd nl (tapName j) k = ((E, F), k1)"
      and "k2 = k1 \<or> k2 = snd (nlAddrAdd nl (tapName j) (snHostIP sub) (snMask sub) k1)
        \<or> k2 = snd (nlLinkSetUp nl (tapName j) (snd (nlAddrAdd nl (tapName j) (snHostIP sub) (snMask sub) k1)))"
      and "jn' = jn\<lparr>jnAlloc := release (snIdx sub) al\<rparr>"
      and "k' = snd (nlLinkDel nl (tapName j) (close_all nl F k2))"
  | (ready) sub al F k1 where "allocate (jnAlloc jn) = (Some sub, al)" and "r = Inr (sub, tapName j)"
      and "nlLinkAdd nl (tapName j) k = ((None, F), k1)" and "jn' = jn\<lparr>jnAlloc := al\<rparr>"
      and "k' = close_all nl F (snd (nlWriteSysctl nl
            (''/proc/sys/net/ipv6/conf/'' @ tapName j @ ''/disable_ipv6'') ''1''
          (snd (nlWriteSysctl nl (''/proc/sys/net/ipv4/conf/'' @ tapName j @ ''/rp_filter'') ''1''
          (snd (nlLinkSetUp nl (tapName j)
            (snd (nlAddrAdd nl (tapName j) (snHostIP sub) (snMask sub) k1))))))))"
proof (cases "allocate (jnAlloc jn)")
  case (Pair sn al)
  show thesis
  proof (cases sn)
    case None
    with Pair assms exhausted show thesis by (simp add: setupTap_def)
  next
    case (Some sub)
    obtain E F k1 where add: "nlLinkAdd nl (tapName j) k = ((E, F), k1)" by (metis surj_pair)
    obtain A k2 where addr: "nlAddrAdd nl (tapName j) (snHostIP sub) (snMask sub) k1 = (A, k2)"
      by fastforce
    obtain U k3 where up: "nlLinkSetUp nl (tapName j) k2 = (U, k3)" by fastforce
    note calls = Pair [unfolded Some] add addr up
    show thesis
      using assms failed [OF Pair [unfolded Some] _ _ add] ready [OF Pair [unfolded Some], of F k1] calls
      by (auto simp: setupTap_def Let_def setup_fail_eq closeTapFds_def split: option.splits)
  qed
qed

text \<open>What a set-up does to the aspects of the state, in one lemma.\<close>

lemma setupTap_effect:
  assumes nl: "netlink_ok nl devs fds" and al: "alloc_inv (jnAlloc jn)"
    and run: "setupTap nl j jn k = (r, jn', k')"
  shows "fds k' = fds k" and "alloc_inv (jnAlloc jn')" and "jnReady jn' = jnReady jn"
    and "r = Inl e \<Longrightarrow> alUsed (jnAlloc jn') = alUsed (jnAlloc jn)
      \<and> devs k' = (if e = NoSubnets then devs k else devs k - {tapName j})"
    and "r = Inr (sub, name) \<Longrightarrow> name = tapName j \<and> devs k' = insert name (devs k)
      \<and> sub = subnetForIndex (snIdx sub) \<and> \<not> alUsed (jnAlloc jn) (snIdx sub)
      \<and> alUsed (jnAlloc jn') = (alUsed (jnAlloc jn))(snIdx sub := True)"
proof -
  let ?goal = "fds k' = fds k \<and> alloc_inv (jnAlloc jn') \<and> jnReady jn' = jnReady jn
    \<and> (r = Inl e \<longrightarrow> alUsed (jnAlloc jn') = alUsed (jnAlloc jn)
        \<and> devs k' = (if e = NoSubnets then devs k else devs k - {tapName j}))
    \<and> (r = Inr (sub, name) \<longrightarrow> name = tapName j \<and> devs k' = insert name (devs k)
        \<and> sub = subnetForIndex (snIdx sub) \<and> \<not> alUsed (jnAlloc jn) (snIdx sub)
        \<and> alUsed (jnAlloc jn') = (alUsed (jnAlloc jn))(snIdx sub := True))"
  from run have ?goal
  proof (cases rule: setupTap_cases)
    case (exhausted a)
    then have "a = jnAlloc jn"
      using alloc_loop_None [OF al] by (auto simp: allocate_def split: prod.splits)
    with exhausted al show ?thesis by simp
  next
    case (failed e' sn a E F k1 k2)
    note a = allocate_Some [OF al failed(1)] and f = netlink_ok_add [OF nl failed(4)]
    have k2: "devs k2 = devs k1" "fds k2 = fds k1" using failed(5) by (auto simp: netlink_okD [OF nl])
    have "devs k' = devs k - {tapName j}"
      using f(1) k2(1) failed(7) by (auto simp: netlink_okD [OF nl] close_all_ok [OF nl])
    moreover have "fds k' = fds k"
      using f(2,3) k2(2) failed(7) by (auto simp: netlink_okD [OF nl] close_all_ok [OF nl])
    moreover have "alUsed (release (snIdx sn) a) = alUsed (jnAlloc jn)"
      using a(2,4) by (auto simp: release_def fun_eq_iff)
    ultimately show ?thesis using failed(2,3,6) a(5) by (simp add: release_inv)
  next
    case (ready sn a F k1)
    note a = allocate_Some [OF al ready(1)] and f = netlink_ok_add [OF nl ready(3)]
    have "devs k' = insert (tapName j) (devs k)"
      using f(1) ready(5) by (simp add: netlink_okD [OF nl] close_all_ok [OF nl])
    moreover have "fds k' = fds k"
      using f(2,3) ready(5) by (auto simp: netlink_okD [OF nl] close_all_ok [OF nl])
    ultimately show ?thesis using ready(2,4) a by auto
  qed
  then show "fds k' = fds k" and "alloc_inv (jnAlloc jn')" and "jnReady jn' = jnReady jn"
    and "r = Inl e \<Longrightarrow> alUsed (jnAlloc jn') = alUsed (jnAlloc jn)
      \<and> devs k' = (if e = NoSubnets then devs k else devs k - {tapName j})"
    and "r = Inr (sub, name) \<Longrightarrow> name = tapName j \<and> devs k' = insert name (devs k)
      \<and> sub = subnetForIndex (snIdx sub) \<and> \<not> alUsed (jnAlloc jn) (snIdx sub)
      \<and> alUsed (jnAlloc jn') = (alUsed (jnAlloc jn))(snIdx sub := True)"
    by blast+
qed

lemma setupTap_frame:
  assumes "netlink_frame nl obs" and "setupTap nl j jn k = (r, jn', k')"
  shows "obs k' = obs k"
  using assms(2)
proof (cases rule: setupTap_cases)
  case (failed e sn a E F k1 k2)
  have "obs k1 = obs k" using failed(4) netlink_frameD(1) [OF assms(1), of "tapName j" k] by simp
  moreover have "obs k2 = obs k1" using failed(5) by (auto simp: netlink_frameD [OF assms(1)])
  ultimately show ?thesis
    using failed(7) by (simp add: netlink_frameD [OF assms(1)] close_all_frame [OF assms(1)])
next
  case (ready sn a F k1)
  then show ?thesis
    using netlink_frameD(1) [OF assms(1), of "tapName j" k]
    by (simp add: netlink_frameD [OF assms(1)] close_all_frame [OF assms(1)])
qed simp

lemma teardownTap_effect:
  assumes "netlink_ok nl devs fds" and "teardownTap nl name sub jn k = (jn', k')"
  shows "devs k' = devs k - {name}" and "fds k' = fds k"
    and "alUsed (jnAlloc jn') = (case sub of None \<Rightarrow> alUsed (jnAlloc jn)
           | Some sn \<Rightarrow> (alUsed (jnAlloc jn))(snIdx sn := False))"
    and "alloc_inv (jnAlloc jn) \<Longrightarrow> alloc_inv (jnAlloc jn')" and "jnReady jn' = jnReady jn"
  using assms(2)
  by (auto simp: teardownTap_def Let_def release_def netlink_okD [OF assms(1)] alloc_inv_def
      split: option.splits if_splits)

lemma teardownTap_frame:
  "netlink_frame nl obs \<Longrightarrow> teardownTap nl name sub jn k = (jn', k') \<Longrightarrow> obs k' = obs k"
  by (auto simp: teardownTap_def Let_def netlink_frameD split: option.splits if_splits)

lemma cgroups_frameD:
  assumes "cgroups_frame cg obs"
  shows "obs (snd (cgNewManager cg m p r k)) = obs k" "obs (snd (cgAddProc cg p i k)) = obs k"
    and "obs (snd (cgDelete cg p k)) = obs k"
  using assms by (simp_all add: cgroups_frame_def)

lemma newJobCgroup_frame:
  "cgroups_frame cg obs \<Longrightarrow> newJobCgroup cg j v m k = (r, k') \<Longrightarrow> obs k' = obs k"
  using cgroups_frameD(1) [of cg obs cgroupMount "''/yonk-'' @ j" "job_limits v m" k]
  by (auto simp: newJobCgroup_def Let_def split: prod.splits option.splits)

lemma addProcess_frame: "cgroups_frame cg obs \<Longrightarrow> addProcess cg c pid k = (r, k') \<Longrightarrow> obs k' = obs k"
  using cgroups_frameD(2) [of cg obs "the c" "word_of_int pid" k]
  by (auto simp: addProcess_def split: prod.splits option.splits)

lemma jobCgroup_delete_frame: "cgroups_frame cg obs \<Longrightarrow> obs (jobCgroup_delete cg c k) = obs k"
  by (simp add: jobCgroup_delete_def cgroups_frameD split: option.splits)

section \<open>Concrete kernels\<close>

text \<open>A kernel state with device names, open descriptors and cgroups as lists: the parameters'
  hypotheses hold of it.\<close>

record kstate =
  ksDevs :: "string list"
  ksFds :: "nat list"
  ksGroups :: "(string \<times> 64 word list) list"

definition list_netlink :: "kstate netlink" where
  "list_netlink = \<lparr>
     nlLinkAdd = (\<lambda>n k. if n \<in> set (ksDevs k) then ((Some ''busy'', []), k)
        else let fd = Suc (foldr max (ksFds k) 0)
             in ((None, [fd]), k\<lparr>ksDevs := n # ksDevs k, ksFds := fd # ksFds k\<rparr>)),
     nlAddrAdd = (\<lambda>n ip m k. (None, k)), nlLinkSetUp = (\<lambda>n k. (None, k)),
     nlLinkDel = (\<lambda>n k. (if n \<in> set (ksDevs k) then None else Some ''no such device'',
        k\<lparr>ksDevs := removeAll n (ksDevs k)\<rparr>)),
     nlLinkByName = (\<lambda>n k. n \<in> set (ksDevs k)),
     nlClose = (\<lambda>fd k. (None, k\<lparr>ksFds := removeAll fd (ksFds k)\<rparr>)),
     nlWriteSysctl = (\<lambda>p v k. (None, k))\<rparr>"

definition group_procs :: "kstate \<Rightarrow> string \<Rightarrow> 64 word set option" where
  "group_procs k p = map_option set (map_of (ksGroups k) p)"

definition list_cgroups :: "kstate cgroups" where
  "list_cgroups = \<lparr>
     cgNewManager = (\<lambda>m p r k. (None, case map_of (ksGroups k) p of
        None \<Rightarrow> k\<lparr>ksGroups := (p, []) # ksGroups k\<rparr> | Some _ \<Rightarrow> k)),
     cgAddProc = (\<lambda>p i k. case map_of (ksGroups k) p of
        None \<Rightarrow> (Some ''no such group'', k)
      | Some P \<Rightarrow> (None, k\<lparr>ksGroups := (p, i # P) # ksGroups k\<rparr>)),
     cgDelete = (\<lambda>p k. if map_of (ksGroups k) p = Some []
        then (None, k\<lparr>ksGroups := filter (\<lambda>(q, _). q \<noteq> p) (ksGroups k)\<rparr>)
        else (Some ''busy'', k))\<rparr>"

lemma fresh_fd: "Suc (foldr max xs 0) \<notin> set xs" for xs :: "nat list"
proof -
  have "x \<in> set xs \<Longrightarrow> x \<le> foldr max xs 0" for x by (induction xs) auto
  then show ?thesis by (metis Suc_n_not_le_n)
qed

lemma list_netlink_ok: "netlink_ok list_netlink (\<lambda>k. set (ksDevs k)) (\<lambda>k. set (ksFds k))"
  by (auto simp: netlink_ok_def list_netlink_def Let_def fresh_fd split: if_splits)

lemma list_netlink_frame: "netlink_frame list_netlink group_procs"
  by (simp add: netlink_frame_def list_netlink_def group_procs_def Let_def fun_eq_iff)

lemma map_of_filter_ne:
  "map_of (filter (\<lambda>(q, _). q \<noteq> p) xs) = (map_of xs)(p := None)"
  by (induction xs) (auto simp: fun_eq_iff)

lemma list_cgroups_ok: "cgroups_ok list_cgroups group_procs"
  by (auto simp: cgroups_ok_def list_cgroups_def group_procs_def fun_eq_iff map_of_filter_ne
      split: option.splits if_splits)

lemma list_cgroups_frame: "cgroups_frame list_cgroups (\<lambda>k. (set (ksDevs k), set (ksFds k)))"
  by (simp add: cgroups_frame_def list_cgroups_def split: option.splits)

section \<open>Properties\<close>

lemma unat_mbps:
  "unat (m * 1024 * 1024 div 8 :: 64 word) = unat m * 2 ^ 20 mod 2 ^ 64 div 8"
proof -
  have "m * 1024 * 1024 = m * 1048576" by (simp add: mult.assoc)
  then show ?thesis by (simp add: unat_div unat_word_ariths mult.commute)
qed


text \<open>The bandwidth limit.  The token bucket holds the configured megabits as bytes exactly when
  the ceiling is below \<open>2 ^ 44\<close> Mbit/s; above, the 64-bit product wraps and the bucket is
  smaller, down to empty at \<open>2 ^ 44\<close>.\<close>

theorem rateLimiter_bandwidth:
  assumes "jnMaxMbps jn \<noteq> 0"
  shows "\<exists>rl b. rateLimiter jn = Some rl \<and> rlBandwidth rl = Some b \<and> tbRefillTime b = 1000
    \<and> (unat (tbSize b) = unat (jnMaxMbps jn) * 131072 \<longleftrightarrow> unat (jnMaxMbps jn) < 2 ^ 44)
    \<and> (jnMaxMbps jn = 2 ^ 44 \<longrightarrow> tbSize b = 0)"
proof -
  let ?m = "jnMaxMbps jn"
  have pos: "?m > 0" using assms by (simp add: word_neq_0_conv)
  have "unat ?m * 2 ^ 20 mod 2 ^ 64 div 8 = unat ?m * 131072 \<longleftrightarrow> unat ?m < 2 ^ 44"
  proof
    assume "unat ?m * 2 ^ 20 mod 2 ^ 64 div 8 = unat ?m * 131072"
    moreover have "unat ?m * 2 ^ 20 mod 2 ^ 64 div 8 < 2 ^ 61"
      by (simp add: div_less_iff_less_mult)
    ultimately show "unat ?m < 2 ^ 44" by simp
  qed simp
  moreover have "?m = 2 ^ 44 \<Longrightarrow> ?m * 1024 * 1024 div 8 = 0" by simp
  ultimately show ?thesis
    using pos assms unat_mbps [of ?m] by (simp add: rateLimiter_def)
qed

definition sample_net :: jobNetwork where
  "sample_net = \<lparr>jnAlloc = newJobNetAllocator, jnMaxMbps = 100, jnMaxPPS = 0, jnResolvers = [],
     jnReady = True, jnErr = None\<rparr>"


theorem rateLimiter_bandwidth_witness:
  "\<exists>rl b. rateLimiter sample_net = Some rl \<and> rlBandwidth rl = Some b \<and> unat (tbSize b) = 13107200"
proof -
  have m: "jnMaxMbps sample_net = 100" by (simp add: sample_net_def)
  show ?thesis using rateLimiter_bandwidth [of sample_net] unfolding m by auto
qed

end
