(* ===== verification/Nft.thy ===== *)
theory Nft
  imports JobNetLinux
begin

text \<open>
  The packet filter of job networking (\<^verbatim>\<open>yonkNftRuleset\<close> in \<^verbatim>\<open>internal/executor/jobnet.go\<close>).
  The ruleset is the text the source hands to \<^verbatim>\<open>nft\<close>; \<open>yonk_table\<close> is its structure, and the
  lemma \<open>ruleset_text\<close> shows that rendering the structure gives that text, character by
  character.  The filter itself is not part of the repository: it is a parameter, a function from
  ruleset text, hook and packet to a verdict, and the hypothesis \<open>nft_reads\<close> is nftables'
  documented evaluation of a base chain (rules in order, the first terminating rule whose
  conditions all hold decides, then the chain's policy).

  The lemmas compute the verdict for every packet, with the blocked prefixes given as conditions on
  the address bytes.
\<close>

section \<open>The text\<close>

definition yonkNftRuleset :: string where
  \<open>yonkNftRuleset = Join (CHR 0x0A) [
     ''table inet yonk {'',
     ''  chain tap-input {'',
     ''    type filter hook input priority filter; policy accept;'',
     ''    iifname "yk*" counter drop'',
     ''  }'',
     ''  chain tap-forward {'',
     ''    type filter hook forward priority filter; policy accept;'',
     ''    iifname "yk*" ip daddr { 0.0.0.0/8, 10.0.0.0/8, 100.64.0.0/10, 127.0.0.0/8, 169.254.0.0/16, 172.16.0.0/12, 192.0.0.0/24, 192.0.2.0/24, 192.168.0.0/16, 198.18.0.0/15, 198.51.100.0/24, 203.0.113.0/24, 224.0.0.0/4, 240.0.0.0/4 } counter drop'',
     ''    iifname "yk*" meta nfproto ipv6 counter drop'',
     ''    iifname "yk*" ct state new,established counter accept'',
     ''    oifname "yk*" ct state established,related counter accept'',
     ''    oifname "yk*" counter drop'',
     ''  }'',
     ''  chain tap-nat {'',
     ''    type nat hook postrouting priority srcnat; policy accept;'',
     ''    iifname "yk*" masquerade'',
     ''  }'',
     ''}'']\<close>

section \<open>The structure\<close>

datatype ct_state = CtNew | CtEstablished | CtRelated | CtInvalid

type_synonym cidr = "ipv4 \<times> nat"

datatype cond =
  Iifname string \<comment> \<open>interface name prefix, written with a star\<close>
| Oifname string
| IpDaddr "cidr list"
| NfprotoIpv6
| CtState "ct_state list"

datatype verdict = Accept | Drop | Masquerade

record rule =
  rlConds :: "cond list"
  rlCounter :: bool
  rlVerdict :: verdict

datatype hook = HookInput | HookForward | HookPostrouting

record nft_chain =
  chName :: string
  chType :: string
  chHook :: hook
  chPriority :: string
  chPolicy :: verdict
  chRules :: "rule list"

type_synonym nft_table = "nft_chain list"

definition blocked_prefixes :: "cidr list" where
  "blocked_prefixes = [((0, 0, 0, 0), 8), ((10, 0, 0, 0), 8), ((100, 64, 0, 0), 10),
     ((127, 0, 0, 0), 8), ((169, 254, 0, 0), 16), ((172, 16, 0, 0), 12), ((192, 0, 0, 0), 24),
     ((192, 0, 2, 0), 24), ((192, 168, 0, 0), 16), ((198, 18, 0, 0), 15), ((198, 51, 100, 0), 24),
     ((203, 0, 113, 0), 24), ((224, 0, 0, 0), 4), ((240, 0, 0, 0), 4)]"

definition yonk_table :: nft_table where
  "yonk_table =
    [\<lparr>chName = ''tap-input'', chType = ''filter'', chHook = HookInput, chPriority = ''filter'',
      chPolicy = Accept,
      chRules = [\<lparr>rlConds = [Iifname ''yk''], rlCounter = True, rlVerdict = Drop\<rparr>]\<rparr>,
     \<lparr>chName = ''tap-forward'', chType = ''filter'', chHook = HookForward, chPriority = ''filter'',
      chPolicy = Accept,
      chRules =
       [\<lparr>rlConds = [Iifname ''yk'', IpDaddr blocked_prefixes], rlCounter = True, rlVerdict = Drop\<rparr>,
        \<lparr>rlConds = [Iifname ''yk'', NfprotoIpv6], rlCounter = True, rlVerdict = Drop\<rparr>,
        \<lparr>rlConds = [Iifname ''yk'', CtState [CtNew, CtEstablished]], rlCounter = True, rlVerdict = Accept\<rparr>,
        \<lparr>rlConds = [Oifname ''yk'', CtState [CtEstablished, CtRelated]], rlCounter = True, rlVerdict = Accept\<rparr>,
        \<lparr>rlConds = [Oifname ''yk''], rlCounter = True, rlVerdict = Drop\<rparr>]\<rparr>,
     \<lparr>chName = ''tap-nat'', chType = ''nat'', chHook = HookPostrouting, chPriority = ''srcnat'',
      chPolicy = Accept,
      chRules = [\<lparr>rlConds = [Iifname ''yk''], rlCounter = False, rlVerdict = Masquerade\<rparr>]\<rparr>]"

section \<open>Rendering\<close>

fun comma_sep :: "string \<Rightarrow> string list \<Rightarrow> string" where
  "comma_sep sep [] = []"
| "comma_sep sep [w] = w"
| "comma_sep sep (w # ws) = w @ sep @ comma_sep sep ws"

fun render_ct :: "ct_state \<Rightarrow> string" where
  "render_ct CtNew = ''new''"
| "render_ct CtEstablished = ''established''"
| "render_ct CtRelated = ''related''"
| "render_ct CtInvalid = ''invalid''"

definition quoted_star :: "string \<Rightarrow> string" where
  \<open>quoted_star p = ''"'' @ p @ ''*"''\<close>

fun render_cond :: "cond \<Rightarrow> string" where
  "render_cond (Iifname p) = ''iifname '' @ quoted_star p"
| "render_cond (Oifname p) = ''oifname '' @ quoted_star p"
| "render_cond (IpDaddr ps) =
     ''ip daddr { '' @ comma_sep '', '' (map (\<lambda>(ip, l). fmt_ip ip @ ''/'' @ dec l) ps) @ '' }''"
| "render_cond NfprotoIpv6 = ''meta nfproto ipv6''"
| "render_cond (CtState ss) = ''ct state '' @ comma_sep '','' (map render_ct ss)"

fun render_verdict :: "verdict \<Rightarrow> string" where
  "render_verdict Accept = ''accept''"
| "render_verdict Drop = ''drop''"
| "render_verdict Masquerade = ''masquerade''"

fun render_hook :: "hook \<Rightarrow> string" where
  "render_hook HookInput = ''input''"
| "render_hook HookForward = ''forward''"
| "render_hook HookPostrouting = ''postrouting''"

definition render_rule :: "rule \<Rightarrow> string" where
  "render_rule r =
     ''    '' @ concat (map (\<lambda>c. render_cond c @ '' '') (rlConds r))
       @ (if rlCounter r then ''counter '' else []) @ render_verdict (rlVerdict r)"

definition render_chain :: "nft_chain \<Rightarrow> string list" where
  "render_chain c =
     [''  chain '' @ chName c @ '' {'',
      ''    type '' @ chType c @ '' hook '' @ render_hook (chHook c) @ '' priority '' @ chPriority c
        @ ''; policy '' @ render_verdict (chPolicy c) @ '';'']
     @ map render_rule (chRules c) @ [''  }'']"

definition render_table :: "nft_table \<Rightarrow> string" where
  "render_table t = Join (CHR 0x0A) ([''table inet yonk {''] @ concat (map render_chain t) @ [''}''])"

lemma ruleset_text: "yonkNftRuleset = render_table yonk_table"
  by code_simp

section \<open>Evaluation\<close>

datatype address = V4 ipv4 | V6 "16 word list"

record packet =
  pkIif :: string
  pkOif :: string
  pkDaddr :: address
  pkCt :: ct_state

definition ip_nat :: "ipv4 \<Rightarrow> nat" where
  "ip_nat ip = (case ip of (a, b, c, d) \<Rightarrow> ((unat a * 256 + unat b) * 256 + unat c) * 256 + unat d)"

definition in_cidr :: "ipv4 \<Rightarrow> cidr \<Rightarrow> bool" where
  "in_cidr ip p = (case p of (base, l) \<Rightarrow> ip_nat ip div 2 ^ (32 - l) = ip_nat base div 2 ^ (32 - l))"

fun holds :: "packet \<Rightarrow> cond \<Rightarrow> bool" where
  "holds p (Iifname n) = HasPrefix (pkIif p) n"
| "holds p (Oifname n) = HasPrefix (pkOif p) n"
| "holds p (IpDaddr ps) = (case pkDaddr p of V4 ip \<Rightarrow> list_ex (in_cidr ip) ps | V6 _ \<Rightarrow> False)"
| "holds p NfprotoIpv6 = (case pkDaddr p of V4 _ \<Rightarrow> False | V6 _ \<Rightarrow> True)"
| "holds p (CtState ss) = (pkCt p \<in> set ss)"

fun eval_rules :: "packet \<Rightarrow> verdict \<Rightarrow> rule list \<Rightarrow> verdict" where
  "eval_rules p policy [] = policy"
| "eval_rules p policy (r # rs) =
     (if list_all (holds p) (rlConds r) then rlVerdict r else eval_rules p policy rs)"

text \<open>A hook without a chain of the table passes the packet.\<close>

definition eval_table :: "nft_table \<Rightarrow> hook \<Rightarrow> packet \<Rightarrow> verdict" where
  "eval_table t h p =
     (case filter (\<lambda>c. chHook c = h) t of
        [] \<Rightarrow> Accept
      | c # _ \<Rightarrow> eval_rules p (chPolicy c) (chRules c))"

definition nft_reads :: "(string \<Rightarrow> hook \<Rightarrow> packet \<Rightarrow> verdict) \<Rightarrow> nft_table \<Rightarrow> bool" where
  "nft_reads nft t = (\<forall>h p. nft (render_table t) h p = eval_table t h p)"

section \<open>Verdicts\<close>

text \<open>The addresses a job must not reach, by their bytes.\<close>

definition reserved :: "ipv4 \<Rightarrow> bool" where
  "reserved ip =
     (case ip of (a, b, c, d) \<Rightarrow>
        a = 0 \<or> a = 10 \<or> a = 127 \<or> a \<ge> 224
        \<or> a = 100 \<and> 64 \<le> b \<and> b < 128 \<or> a = 169 \<and> b = 254 \<or> a = 172 \<and> 16 \<le> b \<and> b < 32
        \<or> a = 192 \<and> b = 0 \<and> (c = 0 \<or> c = 2) \<or> a = 192 \<and> b = 168
        \<or> a = 198 \<and> (b = 18 \<or> b = 19) \<or> a = 198 \<and> b = 51 \<and> c = 100 \<or> a = 203 \<and> b = 0 \<and> c = 113)"

lemma byte_bound: "unat (x :: u8) < 256"
  using unsigned_less [of x, where 'a = nat] by simp

lemma byte_eq: "(x :: u8) = y \<longleftrightarrow> unat x = unat y" and byte_le: "x \<le> y \<longleftrightarrow> unat x \<le> unat y"
  and byte_less: "x < y \<longleftrightarrow> unat x < unat y"
  by (simp_all add: word_eq_unat word_le_nat_alt word_less_nat_alt)

text \<open>The number of an address without its last one, two or three bytes.\<close>

lemma ip_nat_div:
  "ip_nat (a, b, c, d) div 2 ^ 8 = (unat a * 256 + unat b) * 256 + unat c"
  "ip_nat (a, b, c, d) div 2 ^ 16 = unat a * 256 + unat b"
  "ip_nat (a, b, c, d) div 2 ^ 24 = unat a"
proof -
  have step: "(x * 256 + unat y) div 256 = x" for x and y :: u8 using byte_bound [of y] by simp
  show 1: "ip_nat (a, b, c, d) div 2 ^ 8 = (unat a * 256 + unat b) * 256 + unat c"
    using step [of "(unat a * 256 + unat b) * 256 + unat c" d] by (simp add: ip_nat_def)
  have "ip_nat (a, b, c, d) div 2 ^ 16 = ip_nat (a, b, c, d) div 2 ^ 8 div 2 ^ 8"
    by (simp add: div_mult2_eq [symmetric])
  also have "\<dots> = unat a * 256 + unat b" unfolding 1 using step [of "unat a * 256 + unat b" c] by simp
  finally show 2: "ip_nat (a, b, c, d) div 2 ^ 16 = unat a * 256 + unat b" .
  have "ip_nat (a, b, c, d) div 2 ^ 24 = ip_nat (a, b, c, d) div 2 ^ 16 div 2 ^ 8"
    by (simp add: div_mult2_eq [symmetric])
  also have "\<dots> = unat a" unfolding 2 using step [of "unat a" b] by simp
  finally show "ip_nat (a, b, c, d) div 2 ^ 24 = unat a" .
qed

lemma ip_nat_div_part:
  "ip_nat (a, b, c, d) div 2 ^ (24 + n) = unat a div 2 ^ n"
  "ip_nat (a, b, c, d) div 2 ^ (16 + n) = (unat a * 256 + unat b) div 2 ^ n"
  by (simp_all only: power_add div_mult2_eq ip_nat_div)

lemma digit_eq: "x * e + u = x' * e + u' \<longleftrightarrow> x = x' \<and> u = u'"
  if "u < e" and "u' < (e :: nat)" for x u x' u'
proof
  assume eq: "x * e + u = x' * e + u'"
  have "(x * e + u) div e = x" "(x' * e + u') div e = x'" using that by auto
  with eq show "x = x' \<and> u = u'" by auto
qed simp

lemmas pair_eq = digit_eq [where e = 256]

lemma split_byte_eq:
  assumes "m * e = 256" and "y < 256" and "y' < (256 :: nat)"
  shows "(x * 256 + y) div m = (x' * 256 + y') div m \<longleftrightarrow> x = x' \<and> y div m = y' div m"
proof -
  have m: "0 < m" using assms(1) by (cases m) auto
  have eq: "(z * 256 + w) div m = z * e + w div m" for z w
  proof -
    have "z * 256 + w = w + (z * e) * m" by (simp only: assms(1) [symmetric] ac_simps)
    then show ?thesis using m by (simp only: div_mult_self1)
  qed
  have "w div m < e" if "w < 256" for w
    using that m assms(1) by (simp add: div_less_iff_less_mult mult.commute)
  then show ?thesis unfolding eq using assms by (intro digit_eq) auto
qed

lemma in_cidr_bytes:
  fixes a b c d :: u8
  shows "in_cidr (a, b, c, d) ((p, q, r, s), 4) \<longleftrightarrow> unat a div 16 = unat p div 16"
    and "in_cidr (a, b, c, d) ((p, q, r, s), 8) \<longleftrightarrow> a = p"
    and "in_cidr (a, b, c, d) ((p, q, r, s), 10) \<longleftrightarrow> a = p \<and> unat b div 64 = unat q div 64"
    and "in_cidr (a, b, c, d) ((p, q, r, s), 12) \<longleftrightarrow> a = p \<and> unat b div 16 = unat q div 16"
    and "in_cidr (a, b, c, d) ((p, q, r, s), 15) \<longleftrightarrow> a = p \<and> unat b div 2 = unat q div 2"
    and "in_cidr (a, b, c, d) ((p, q, r, s), 16) \<longleftrightarrow> a = p \<and> b = q"
    and "in_cidr (a, b, c, d) ((p, q, r, s), 24) \<longleftrightarrow> a = p \<and> b = q \<and> c = r"
proof -
  have part: "in_cidr (a, b, c, d) ((p, q, r, s), 16 - n) \<longleftrightarrow>
      (unat a * 256 + unat b) div 2 ^ n = (unat p * 256 + unat q) div 2 ^ n" if "n \<le> 16" for n
    using that ip_nat_div_part(2) [of _ _ _ _ n] by (simp add: in_cidr_def add.commute)
  show "in_cidr (a, b, c, d) ((p, q, r, s), 4) \<longleftrightarrow> unat a div 16 = unat p div 16"
    using ip_nat_div_part(1) [of a b c d 4] ip_nat_div_part(1) [of p q r s 4] by (simp add: in_cidr_def)
  show "in_cidr (a, b, c, d) ((p, q, r, s), 8) \<longleftrightarrow> a = p"
    using ip_nat_div(3) [of a b c d] ip_nat_div(3) [of p q r s] by (simp add: in_cidr_def byte_eq)
  have q: "unat b < 256" "unat q < 256" "unat c < 256" "unat r < 256" by (rule byte_bound)+
  have "(unat a * 256 + unat b) div 64 = (unat p * 256 + unat q) div 64 \<longleftrightarrow>
      unat a = unat p \<and> unat b div 64 = unat q div 64" by (rule split_byte_eq [where e = 4]) (use q in simp_all)
  then show "in_cidr (a, b, c, d) ((p, q, r, s), 10) \<longleftrightarrow> a = p \<and> unat b div 64 = unat q div 64"
    using part [of 6] by (simp add: byte_eq)
  have "(unat a * 256 + unat b) div 16 = (unat p * 256 + unat q) div 16 \<longleftrightarrow>
      unat a = unat p \<and> unat b div 16 = unat q div 16" by (rule split_byte_eq [where e = 16]) (use q in simp_all)
  then show "in_cidr (a, b, c, d) ((p, q, r, s), 12) \<longleftrightarrow> a = p \<and> unat b div 16 = unat q div 16"
    using part [of 4] by (simp add: byte_eq)
  have "(unat a * 256 + unat b) div 2 = (unat p * 256 + unat q) div 2 \<longleftrightarrow>
      unat a = unat p \<and> unat b div 2 = unat q div 2" by (rule split_byte_eq [where e = 128]) (use q in simp_all)
  then show "in_cidr (a, b, c, d) ((p, q, r, s), 15) \<longleftrightarrow> a = p \<and> unat b div 2 = unat q div 2"
    using part [of 1] by (simp add: byte_eq)
  show "in_cidr (a, b, c, d) ((p, q, r, s), 16) \<longleftrightarrow> a = p \<and> b = q"
    using part [of 0] pair_eq [OF q(1,2)] by (simp add: byte_eq)
  have "in_cidr (a, b, c, d) ((p, q, r, s), 24) \<longleftrightarrow>
      ip_nat (a, b, c, d) div 2 ^ 8 = ip_nat (p, q, r, s) div 2 ^ 8" by (simp add: in_cidr_def)
  also have "\<dots> \<longleftrightarrow> unat a = unat p \<and> unat b = unat q \<and> unat c = unat r"
    unfolding ip_nat_div pair_eq [OF q(3,4)] pair_eq [OF q(1,2)] by simp
  finally show "in_cidr (a, b, c, d) ((p, q, r, s), 24) \<longleftrightarrow> a = p \<and> b = q \<and> c = r"
    by (simp only: byte_eq)
qed

lemma high_bytes:
  fixes a b :: u8
  shows "unat a div 16 = 14 \<or> unat a div 16 = 15 \<longleftrightarrow> 224 \<le> a"
    and "unat b div 64 = 1 \<longleftrightarrow> 64 \<le> b \<and> b < 128"
    and "unat b div 16 = 1 \<longleftrightarrow> 16 \<le> b \<and> b < 32"
    and "unat b div 2 = 9 \<longleftrightarrow> b = 18 \<or> b = 19"
  using byte_bound [of a] by (auto simp: byte_le byte_less byte_eq)

lemma blocked_reserved: "list_ex (in_cidr ip) blocked_prefixes \<longleftrightarrow> reserved ip"
proof (cases ip)
  case (fields a b c d)
  have "list_ex (in_cidr ip) blocked_prefixes \<longleftrightarrow>
      a = 0 \<or> a = 10 \<or> a = 100 \<and> unat b div 64 = 1 \<or> a = 127 \<or> a = 169 \<and> b = 254
      \<or> a = 172 \<and> unat b div 16 = 1 \<or> a = 192 \<and> b = 0 \<and> c = 0 \<or> a = 192 \<and> b = 0 \<and> c = 2
      \<or> a = 192 \<and> b = 168 \<or> a = 198 \<and> unat b div 2 = 9 \<or> a = 198 \<and> b = 51 \<and> c = 100
      \<or> a = 203 \<and> b = 0 \<and> c = 113 \<or> unat a div 16 = 14 \<or> unat a div 16 = 15"
    by (simp add: fields blocked_prefixes_def in_cidr_bytes)
  then show ?thesis
    unfolding reserved_def fields prod.case high_bytes(2-4) high_bytes(1) [symmetric] by argo
qed

lemma eval_yonk:
  "eval_table yonk_table HookInput p = (if HasPrefix (pkIif p) ''yk'' then Drop else Accept)"
  "eval_table yonk_table HookPostrouting p = (if HasPrefix (pkIif p) ''yk'' then Masquerade else Accept)"
  "eval_table yonk_table HookForward p =
     (if HasPrefix (pkIif p) ''yk'' \<and> (case pkDaddr p of V4 ip \<Rightarrow> reserved ip | V6 _ \<Rightarrow> True) then Drop
      else if HasPrefix (pkIif p) ''yk'' \<and> (pkCt p = CtNew \<or> pkCt p = CtEstablished) then Accept
      else if HasPrefix (pkOif p) ''yk'' \<and> pkCt p \<noteq> CtEstablished \<and> pkCt p \<noteq> CtRelated then Drop
      else Accept)"
  by (auto simp: eval_table_def yonk_table_def blocked_reserved split: address.splits)

lemma HasPrefix_tapName: "HasPrefix (tapName j) ''yk''"
  using tapName_prefix by (simp add: tapPrefix_def)

lemma reserved_job_subnet: "reserved (snGuestIP (subnetForIndex i))" "reserved (snHostIP (subnetForIndex i))"
  by (simp_all add: reserved_def subnetForIndex_def Let_def)

section \<open>Properties\<close>

text \<open>C8. Jobs cannot reach the host or private networks.  With the ruleset the daemon loads, every
  packet that comes in from a job's device is dropped when it is addressed to the host itself,
  when it is an IPv6 packet, and when it is to be forwarded to a private, shared, loopback,
  link-local, benchmarking, documentation, multicast or reserved IPv4 address; in particular
  when it is addressed to another job or to the host's end of any job subnet.\<close>

theorem job_packets_blocked:
  assumes "nft_reads nft yonk_table" and "pkIif p = tapName j"
  shows "nft yonkNftRuleset HookInput p = Drop
    \<and> (pkDaddr p = V6 ws \<longrightarrow> nft yonkNftRuleset HookForward p = Drop)
    \<and> (pkDaddr p = V4 ip \<and> reserved ip \<longrightarrow> nft yonkNftRuleset HookForward p = Drop)
    \<and> (pkDaddr p = V4 (snGuestIP (subnetForIndex i)) \<or> pkDaddr p = V4 (snHostIP (subnetForIndex i)) \<longrightarrow>
         nft yonkNftRuleset HookForward p = Drop)"
proof -
  have "nft yonkNftRuleset h p = eval_table yonk_table h p" for h
    using assms(1) by (simp add: nft_reads_def ruleset_text)
  then show ?thesis
    using assms(2) by (auto simp: eval_yonk HasPrefix_tapName reserved_job_subnet)
qed

text \<open>C35. Egress works and only replies come back.  A packet of a new or established connection from
  a job's device to a public IPv4 address is forwarded and leaves with a masqueraded source; a
  packet from any other device to a job's device is forwarded exactly when it belongs or is
  related to an established connection; and traffic that touches no job device is left alone.\<close>

theorem job_egress_only:
  assumes "nft_reads nft yonk_table"
  shows "(pkIif p = tapName j \<and> pkDaddr p = V4 ip \<and> \<not> reserved ip
        \<and> (pkCt p = CtNew \<or> pkCt p = CtEstablished) \<longrightarrow>
      nft yonkNftRuleset HookForward p = Accept \<and> nft yonkNftRuleset HookPostrouting p = Masquerade)
    \<and> (\<not> HasPrefix (pkIif p) tapPrefix \<and> pkOif p = tapName j \<longrightarrow>
      (nft yonkNftRuleset HookForward p = Accept \<longleftrightarrow> pkCt p = CtEstablished \<or> pkCt p = CtRelated))
    \<and> (\<not> HasPrefix (pkIif p) tapPrefix \<and> \<not> HasPrefix (pkOif p) tapPrefix \<longrightarrow>
      nft yonkNftRuleset h p = Accept)"
proof -
  have nft: "nft yonkNftRuleset h p = eval_table yonk_table h p" for h
    using assms(1) by (simp add: nft_reads_def ruleset_text)
  show ?thesis
    unfolding nft tapPrefix_def
    by (cases h) (auto simp: eval_yonk HasPrefix_tapName split: address.splits)
qed

definition text_nft :: "string \<Rightarrow> hook \<Rightarrow> packet \<Rightarrow> verdict" where
  "text_nft t h p = (if t = render_table yonk_table then eval_table yonk_table h p else Accept)"

lemma text_nft_reads: "nft_reads text_nft yonk_table"
  by (simp add: nft_reads_def text_nft_def)

theorem job_packets_blocked_witness:
  "text_nft yonkNftRuleset HookForward
     \<lparr>pkIif = tapName ''j'', pkOif = ''eth0'', pkDaddr = V4 (192, 168, 1, 1), pkCt = CtNew\<rparr> = Drop"
proof -
  let ?p = "\<lparr>pkIif = tapName ''j'', pkOif = ''eth0'', pkDaddr = V4 (192, 168, 1, 1), pkCt = CtNew\<rparr>"
  have "pkIif ?p = tapName ''j''" by simp
  moreover have "reserved (192, 168, 1, 1)" by (simp add: reserved_def)
  ultimately show ?thesis
    using job_packets_blocked [OF text_nft_reads, of ?p "''j''" _ "(192, 168, 1, 1)"] by simp
qed

theorem job_egress_only_witness:
  "text_nft yonkNftRuleset HookForward
     \<lparr>pkIif = tapName ''j'', pkOif = ''eth0'', pkDaddr = V4 (1, 1, 1, 1), pkCt = CtNew\<rparr> = Accept
   \<and> text_nft yonkNftRuleset HookForward
     \<lparr>pkIif = ''eth0'', pkOif = tapName ''j'', pkDaddr = V4 (10, 255, 0, 2), pkCt = CtNew\<rparr> \<noteq> Accept"
proof
  let ?p = "\<lparr>pkIif = tapName ''j'', pkOif = ''eth0'', pkDaddr = V4 (1, 1, 1, 1), pkCt = CtNew\<rparr>"
  have "\<not> reserved (1, 1, 1, 1)" by (simp add: reserved_def byte_le)
  then show "text_nft yonkNftRuleset HookForward ?p = Accept"
    using job_egress_only [OF text_nft_reads, of ?p "''j''" "(1, 1, 1, 1)"] by simp
  let ?q = "\<lparr>pkIif = ''eth0'', pkOif = tapName ''j'', pkDaddr = V4 (10, 255, 0, 2), pkCt = CtNew\<rparr>"
  have "\<not> HasPrefix (pkIif ?q) tapPrefix" by (simp add: HasPrefix_def tapPrefix_def)
  then show "text_nft yonkNftRuleset HookForward ?q \<noteq> Accept"
    using job_egress_only [OF text_nft_reads, of ?q "''j''"] by simp
qed

end
