(* ===== verification/Firecracker.thy ===== *)
theory Firecracker
  imports Restricted Nft
begin

text \<open>
  The parts of the Firecracker executor (\<^verbatim>\<open>internal/executor/firecracker.go\<close>,
  \<^verbatim>\<open>internal/firecracker\<close>): configuration and its checks, the API requests that configure a
  VM, waiting for the API socket, accepting the guest, the loop that reads the untrusted guest's
  messages, and the small functions (\<^verbatim>\<open>clampInt\<close>, \<^verbatim>\<open>workspaceImageSize\<close>, the log buffer).
  \<^verbatim>\<open>Run\<close> itself, which composes them, is in the theory \<open>FirecrackerRun\<close>.

  Times are nanoseconds.  What the host, the VM and the guest answer are arguments: functions of
  what was asked.  The guest's bytes are split into lines as \<^verbatim>\<open>bufio.Scanner\<close> does with a
  maximal token size; the JSON decoder is an argument
  (\<open>unmarshal_message\<close> of the theory \<open>Wire\<close>).

  The lemmas: requests are sent in order, the VM is started last and only when all the others
  were acknowledged; waiting ends; the reading loop appends output events only (through the
  interface \<open>job_output\<close>) and never hands the decoder more than the bound; sizes stay within
  the ceilings, and where they do not.
\<close>

section \<open>Configuration\<close>

definition second :: int where "second = 1000000000"
definition bootGrace :: int where "bootGrace = 45 * second"
definition teardownGrace :: int where "teardownGrace = 10 * second"
definition maxVMLogBytes :: nat where "maxVMLogBytes = 64 * 1024"
definition minGuestCPUs :: int where "minGuestCPUs = 1"
definition minGuestMemoryMB :: int where "minGuestMemoryMB = 128"
definition minGuestDiskMB :: int where "minGuestDiskMB = 64"
definition defaultMaxDiskMB :: int where "defaultMaxDiskMB = 8192"
definition initialGuestReadSize :: nat where "initialGuestReadSize = 64 * 1024"
definition maxGuestMessageBytes :: nat where "maxGuestMessageBytes = 768 * 2 ^ 20"

record FirecrackerConfig =
  cfBinPath :: string
  cfKernelPath :: string
  cfRootfsPath :: string
  cfWorkDir :: string
  cfMaxVCPU :: int
  cfMaxMemoryMB :: int
  cfMaxDiskMB :: int
  cfMaxEgressMbps :: "64 word"
  cfMaxEgressPPS :: "64 word"
  cfGuestResolvers :: "string list"

datatype new_error =
  MaxVCPUTooSmall | MaxMemoryTooSmall | MaxDiskTooSmall
| AssetMissing string | AssetIsDirectory string | NoKVM | NoMkfs | NoCgroupV2 | VersionFailed

text \<open>\<^verbatim>\<open>NewFirecracker\<close> up to the checks of the ceilings; \<open>tmp\<close> is \<^verbatim>\<open>os.TempDir()\<close>.\<close>

definition with_defaults :: "string \<Rightarrow> FirecrackerConfig \<Rightarrow> FirecrackerConfig" where
  "with_defaults tmp cfg =
     cfg\<lparr>cfWorkDir := (if cfWorkDir cfg = [] then tmp else cfWorkDir cfg),
         cfMaxVCPU := (if cfMaxVCPU cfg = 0 then 4 else cfMaxVCPU cfg),
         cfMaxMemoryMB := (if cfMaxMemoryMB cfg = 0 then 4096 else cfMaxMemoryMB cfg),
         cfMaxDiskMB := (if cfMaxDiskMB cfg = 0 then defaultMaxDiskMB else cfMaxDiskMB cfg)\<rparr>"

definition check_ceilings :: "FirecrackerConfig \<Rightarrow> new_error option" where
  "check_ceilings cfg =
     (if cfMaxVCPU cfg < minGuestCPUs then Some MaxVCPUTooSmall
      else if cfMaxMemoryMB cfg < minGuestMemoryMB then Some MaxMemoryTooSmall
      else if cfMaxDiskMB cfg < minGuestDiskMB then Some MaxDiskTooSmall
      else None)"

text \<open>What \<^verbatim>\<open>preflight\<close> asks of the host: whether a path exists and is a directory, whether a
  program is on the path, and whether \<^verbatim>\<open>--version\<close> runs.\<close>

record host_probe =
  hpStat :: "string \<Rightarrow> bool option"
  hpLookPath :: "string \<Rightarrow> bool"
  hpVersion :: "string \<Rightarrow> bool"

fun check_assets :: "host_probe \<Rightarrow> string list \<Rightarrow> new_error option" where
  "check_assets hp [] = None"
| "check_assets hp (path # paths) =
     (case hpStat hp path of
        None \<Rightarrow> Some (AssetMissing path)
      | Some isDir \<Rightarrow> if isDir then Some (AssetIsDirectory path) else check_assets hp paths)"

definition preflight :: "host_probe \<Rightarrow> FirecrackerConfig \<Rightarrow> new_error option" where
  "preflight hp cfg =
     (case check_assets hp [cfBinPath cfg, cfKernelPath cfg, cfRootfsPath cfg] of
        Some e \<Rightarrow> Some e
      | None \<Rightarrow>
          if hpStat hp ''/dev/kvm'' = None then Some NoKVM
          else if \<not> hpLookPath hp ''mkfs.ext4'' then Some NoMkfs
          else if cgroupV2Available (\<lambda>p. if hpStat hp p = None then Some p else None) \<noteq> None
               then Some NoCgroupV2
          else if \<not> hpVersion hp (cfBinPath cfg) then Some VersionFailed
          else None)"

definition Firecracker_Capabilities :: "string \<Rightarrow> string \<Rightarrow> (string + executor_capability list)" where
  "Firecracker_Capabilities goos goarch =
     (if goos \<noteq> ''linux'' \<or> goarch \<noteq> ''amd64''
      then Inl ''firecracker executor requires linux/amd64''
      else Inr [\<lparr>capPlatform = \<lparr>pOS = ''linux'', pArch = ''amd64''\<rparr>, capIsolation = ''microvm''\<rparr>])"

definition NetworkModes :: "jobNetwork option \<Rightarrow> string list" where
  "NetworkModes net =
     (case net of
        Some jn \<Rightarrow> if jnReady jn then [''none'', ''egress''] else [''none'']
      | None \<Rightarrow> [''none''])"

section \<open>Sizes\<close>

definition clampInt :: "int \<Rightarrow> int \<Rightarrow> int \<Rightarrow> int" where
  "clampInt v lo hi = (if v < lo then lo else if v > hi then hi else v)"

text \<open>All operations are on \<^verbatim>\<open>int64\<close>.\<close>

definition workspaceImageSize :: "int \<Rightarrow> int \<Rightarrow> int" where
  "workspaceImageSize contentBytes requestedDiskMB =
     (let minImageBytes = 16 * 2 ^ 20;
          content = (if contentBytes < 0 then 0 else contentBytes);
          size0 = wrap64 (wrap64 (content + go_div content 10) + 8 * 2 ^ 20);
          size1 = (if size0 < minImageBytes then minImageBytes else size0);
          requested = (if requestedDiskMB < 1 then 64 else requestedDiskMB);
          mx = wrap64 (requested * 2 ^ 20)
      in if size1 < mx then mx else size1)"

text \<open>\<^verbatim>\<open>syncBuffer\<close>.\<close>

definition syncBuffer_Write :: "bytes \<Rightarrow> bytes \<Rightarrow> bytes" where
  "syncBuffer_Write p buf =
     (let buf1 = (if length buf + length p > maxVMLogBytes
                  then (if length buf > maxVMLogBytes then drop (length buf - maxVMLogBytes) buf else buf)
                  else buf)
      in buf1 @ p)"

definition consoleTail :: "bytes option \<Rightarrow> bytes" where
  "consoleTail content =
     (case content of
        None \<Rightarrow> []
      | Some d \<Rightarrow> if length d > 8 * 1024 then drop (length d - 8 * 1024) d else d)"

section \<open>API requests\<close>

record BootSource =
  bsKernelImagePath :: string
  bsInitrdPath :: string
  bsBootArgs :: string

record Drive =
  drDriveID :: string
  drPathOnHost :: string
  drIsRootDevice :: bool
  drIsReadOnly :: bool

record MachineConfig =
  mcVCPUCount :: int
  mcMemSizeMiB :: int
  mcSMT :: bool

record VSock =
  vsGuestCID :: nat
  vsUDSPath :: string

record Serial =
  seSerialOutPath :: string

record NetworkInterface =
  niIfaceID :: string
  niHostDevName :: string
  niGuestMAC :: string
  niRxRateLimiter :: "rate_limiter option"
  niTxRateLimiter :: "rate_limiter option"

datatype api_body =
  BBoot BootSource | BMachine MachineConfig | BVSock VSock | BSerial Serial | BEntropy
| BDrive Drive | BNet NetworkInterface | BAction string

type_synonym request = "string \<times> api_body"

datatype put_reply = TransportError string | HttpStatus nat bytes

definition StatusNoContent :: nat where "StatusNoContent = 204"

text \<open>\<^verbatim>\<open>Put\<close>: the answer may depend on every request so far.  The requests sent are kept.\<close>

definition Put ::
  "(request list \<Rightarrow> put_reply) \<Rightarrow> request \<Rightarrow> request list \<Rightarrow> string option \<times> request list" where
  "Put api req log =
     (let log' = log @ [req]
      in case api log' of
           TransportError e \<Rightarrow> (Some (''PUT '' @ fst req @ '': '' @ e), log')
         | HttpStatus code body \<Rightarrow>
             if code \<noteq> StatusNoContent
             then (Some (''PUT '' @ fst req @ '': HTTP '' @ dec code @ '': '' @ take (2 ^ 16) body), log')
             else (None, log'))"

fun put_all ::
  "(request list \<Rightarrow> put_reply) \<Rightarrow> request list \<Rightarrow> request list \<Rightarrow> string option \<times> request list" where
  "put_all api [] log = (None, log)"
| "put_all api (req # reqs) log =
     (case Put api req log of
        (Some e, log') \<Rightarrow> (Some (''configure firecracker: '' @ e), log')
      | (None, log') \<Rightarrow> put_all api reqs log')"

text \<open>\<^verbatim>\<open>WaitForSocket\<close>: the \<open>i\<close>-th turn dials, looks at the context and at the clock, and sleeps
  50 ms.  The number of turns is bounded by \<open>fuel\<close>; running out is \<open>None\<close>.\<close>

record sock_env =
  sockDial :: "nat \<Rightarrow> string option"
  sockCtx :: "nat \<Rightarrow> ctx_err option"
  sockNow :: "nat \<Rightarrow> int" \<comment> \<open>the clock at the \<open>i\<close>-th turn\<close>
  sockStart :: int

datatype wait_error = WaitCtx ctx_err | NeverReady string

fun wait_loop :: "sock_env \<Rightarrow> nat \<Rightarrow> nat \<Rightarrow> wait_error option option" where
  "wait_loop env 0 i = None"
| "wait_loop env (Suc fuel) i =
     (case sockDial env i of
        None \<Rightarrow> Some None
      | Some e \<Rightarrow>
          (case sockCtx env i of
             Some c \<Rightarrow> Some (Some (WaitCtx c))
           | None \<Rightarrow> if sockNow env i > sockStart env + 10 * second then Some (Some (NeverReady e))
                     else wait_loop env fuel (Suc i)))"

definition WaitForSocket :: "sock_env \<Rightarrow> wait_error option option" where
  "WaitForSocket env = wait_loop env 202 0"

definition vm_requests ::
  "BootSource \<Rightarrow> Drive list \<Rightarrow> MachineConfig \<Rightarrow> VSock \<Rightarrow> Serial \<Rightarrow> NetworkInterface option \<Rightarrow> request list" where
  "vm_requests boot drives machine vsock serial net =
     [(''/boot-source'', BBoot boot), (''/machine-config'', BMachine machine), (''/vsock'', BVSock vsock),
      (''/serial'', BSerial serial), (''/entropy'', BEntropy)]
     @ map (\<lambda>d. (''/drives/'' @ drDriveID d, BDrive d)) drives
     @ (case net of None \<Rightarrow> [] | Some n \<Rightarrow> [(''/network-interfaces/'' @ niIfaceID n, BNet n)])
     @ [(''/actions'', BAction ''InstanceStart'')]"

definition configureVM ::
  "sock_env \<Rightarrow> (request list \<Rightarrow> put_reply) \<Rightarrow> request list \<Rightarrow> exec_error option \<times> request list" where
  "configureVM env api reqs =
     (case WaitForSocket env of
        None \<Rightarrow> (Some (ConfigureVM ''still waiting''), [])
      | Some (Some (WaitCtx c)) \<Rightarrow> (Some (ConfigureVM ''wait for firecracker api socket''), [])
      | Some (Some (NeverReady e)) \<Rightarrow> (Some (ConfigureVM (''never became ready: '' @ e)), [])
      | Some None \<Rightarrow>
          (case put_all api reqs [] of
             (Some e, log) \<Rightarrow> (Some (ConfigureVM e), log)
           | (None, log) \<Rightarrow> (None, log)))"

section \<open>Accepting the guest\<close>

text \<open>Which case of the \<^verbatim>\<open>select\<close> is taken, with what it carries.\<close>

datatype accept_event =
  Accepted
| AcceptFailed string "ctx_err option" \<comment> \<open>with \<^verbatim>\<open>jobCtx.Err()\<close> at that moment\<close>
| BootTimeout
| ProcessExited
| JobDone ctx_err

text \<open>The error, and whether the VM process is killed.\<close>

definition acceptGuest :: "accept_event \<Rightarrow> exec_error option \<times> bool" where
  "acceptGuest ev =
     (case ev of
        Accepted \<Rightarrow> (None, False)
      | AcceptFailed e (Some c) \<Rightarrow> (Some (ContextDone c), False)
      | AcceptFailed e None \<Rightarrow> (Some (AcceptGuest e), False)
      | BootTimeout \<Rightarrow> (Some GuestNotConnected, True)
      | ProcessExited \<Rightarrow> (Some VMExitedEarly, False)
      | JobDone c \<Rightarrow> (Some (ContextDone c), True))"

definition classifyContext :: "ctx_err \<Rightarrow> int \<times> string" where
  "classifyContext c = (if c = DeadlineExceeded then (124, ''timeout'') else (130, ''cancelled''))"

definition end_at :: "int \<Rightarrow> int \<Rightarrow> job_result \<Rightarrow> job_result" where
  "end_at started ended r = r\<lparr>rEndedAt := ended, rDurationMillis := millis_between started ended\<rparr>"

definition finishEarly ::
  "job_result \<Rightarrow> int \<Rightarrow> int \<Rightarrow> exec_error option \<Rightarrow> job_result \<times> exec_error option" where
  "finishEarly result started ended err =
     (case err of
        None \<Rightarrow> (result, None)
      | Some (ContextDone c) \<Rightarrow>
          (end_at started ended (result\<lparr>rExitCode := fst (classifyContext c),
              rTerminationReason := snd (classifyContext c)\<rparr>), None)
      | Some e \<Rightarrow> (end_at started ended result, Some e))"

section \<open>Reading the guest\<close>

text \<open>\<^verbatim>\<open>bufio.Scanner\<close> with \<^verbatim>\<open>ScanLines\<close> on the bytes the connection will deliver: a line with
  its newline must fit into the buffer; a last line without newline must be shorter than the
  buffer, which is otherwise full before the end of input is seen.\<close>

datatype scan_result = Token bytes bytes | ScanEnd | ScanTooLong

definition drop_cr :: "bytes \<Rightarrow> bytes" where
  "drop_cr l = (if l \<noteq> [] \<and> last l = CHR 0x0D then butlast l else l)"

definition scan :: "nat \<Rightarrow> bytes \<Rightarrow> scan_result" where
  "scan limit data =
     (let line = takeWhile (\<lambda>c. c \<noteq> CHR 0x0A) data
      in case dropWhile (\<lambda>c. c \<noteq> CHR 0x0A) data of
           _ # rest \<Rightarrow> if length line + 1 \<le> limit then Token (drop_cr line) rest else ScanTooLong
         | [] \<Rightarrow> if length data \<ge> limit then ScanTooLong
                 else if data = [] then ScanEnd else Token (drop_cr data) [])"

lemma scan_smaller: "scan limit data = Token t rest \<Longrightarrow> length rest < length data"
proof -
  assume "scan limit data = Token t rest"
  moreover have "length (dropWhile (\<lambda>c. c \<noteq> CHR 0x0A) data) \<le> length data" by (rule length_dropWhile_le)
  ultimately show ?thesis by (auto simp: scan_def Let_def split: list.splits if_splits)
qed

lemma length_drop_cr: "length (drop_cr l) \<le> length l"
  by (simp add: drop_cr_def)

lemma scan_bounded:
  assumes "scan limit data = Token t rest"
  shows "length t < limit"
proof (cases "dropWhile (\<lambda>c. c \<noteq> CHR 0x0A) data")
  case Nil
  with assms have "length data < limit" and "t = drop_cr data"
    by (simp_all add: scan_def Let_def not_le split: if_splits)
  then show ?thesis using length_drop_cr [of data] by simp
next
  case (Cons c r)
  let ?l = "takeWhile (\<lambda>c. c \<noteq> CHR 0x0A) data"
  from Cons assms have "length ?l + 1 \<le> limit" and "t = drop_cr ?l"
    by (simp_all add: scan_def Let_def split: if_splits)
  then show ?thesis using length_drop_cr [of ?l] by simp
qed

lemma scan_line:
  assumes "CHR 0x0A \<notin> set l" "length l < limit" "l \<noteq> []" "last l \<noteq> CHR 0x0D"
  shows "scan limit (l @ CHR 0x0A # rest) = Token l rest"
proof -
  have p: "\<And>c. c \<in> set l \<Longrightarrow> c \<noteq> CHR 0x0A" using assms(1) by auto
  have "takeWhile (\<lambda>c. c \<noteq> CHR 0x0A) (l @ CHR 0x0A # rest) = l"
    by (subst takeWhile_append2) (auto dest: p)
  moreover have "dropWhile (\<lambda>c. c \<noteq> CHR 0x0A) (l @ CHR 0x0A # rest) = CHR 0x0A # rest"
    by (subst dropWhile_append2) (auto dest: p)
  moreover note assms
  ultimately show ?thesis by (simp add: scan_def Let_def drop_cr_def)
qed

text \<open>How the loop ends.\<close>

datatype loop_exit =
  ConnClosed bool \<comment> \<open>no more lines; true when a line was too long\<close>
| Undecodable string
| LoopError exec_error
| GotResult guest_result

function guest_loop ::
  "nat \<Rightarrow> (bytes \<Rightarrow> string + message) \<Rightarrow>
   (bytes \<Rightarrow> 's \<Rightarrow> sink_error option \<times> 's) \<Rightarrow> (bytes \<Rightarrow> 's \<Rightarrow> sink_error option \<times> 's) \<Rightarrow>
   (string \<Rightarrow> bytes \<Rightarrow> 's \<Rightarrow> sink_error option \<times> 's) option \<Rightarrow> bytes \<Rightarrow> 's \<Rightarrow> loop_exit \<times> 's" where
  "guest_loop limit um wo we art data s =
     (case scan limit data of
        ScanEnd \<Rightarrow> (ConnClosed False, s)
      | ScanTooLong \<Rightarrow> (ConnClosed True, s)
      | Token line rest \<Rightarrow>
          (case um line of
             Inl e \<Rightarrow> (Undecodable e, s)
           | Inr msg \<Rightarrow>
               (case mType msg of
                  MsgStdout \<Rightarrow>
                    (case wo (mData msg) s of
                       (Some _, s1) \<Rightarrow> (LoopError WriteStdout, s1)
                     | (None, s1) \<Rightarrow> guest_loop limit um wo we art rest s1)
                | MsgStderr \<Rightarrow>
                    (case we (mData msg) s of
                       (Some _, s1) \<Rightarrow> (LoopError WriteStderr, s1)
                     | (None, s1) \<Rightarrow> guest_loop limit um wo we art rest s1)
                | MsgArtifact \<Rightarrow>
                    (if mName msg = [] \<or> mName msg \<noteq> Base (mName msg)
                     then guest_loop limit um wo we art rest s
                     else case art of
                            None \<Rightarrow> guest_loop limit um wo we art rest s
                          | Some f \<Rightarrow>
                              (case f (mName msg) (mData msg) s of
                                 (Some _, s1) \<Rightarrow> (LoopError (CollectArtifact (mName msg)), s1)
                               | (None, s1) \<Rightarrow> guest_loop limit um wo we art rest s1))
                | MsgResult \<Rightarrow>
                    (case mResult msg of
                       None \<Rightarrow> (LoopError ResultMissing, s)
                     | Some g \<Rightarrow> (GotResult g, s))
                | _ \<Rightarrow> guest_loop limit um wo we art rest s)))"
  by pat_completeness auto
termination
  by (relation "measure (\<lambda>(limit, um, wo, we, art, data, s). length data)") (auto dest: scan_smaller)

declare guest_loop.simps [simp del]

text \<open>\<^verbatim>\<open>readGuest\<close>: \<open>readErr\<close> is the connection's error after its last byte, \<open>ctx\<close> is
  \<^verbatim>\<open>jobCtx.Err()\<close> when the scanner stops.\<close>

definition readGuest ::
  "nat \<Rightarrow> (bytes \<Rightarrow> string + message) \<Rightarrow>
   (bytes \<Rightarrow> 's \<Rightarrow> sink_error option \<times> 's) \<Rightarrow> (bytes \<Rightarrow> 's \<Rightarrow> sink_error option \<times> 's) \<Rightarrow>
   (string \<Rightarrow> bytes \<Rightarrow> 's \<Rightarrow> sink_error option \<times> 's) option \<Rightarrow>
   bytes \<Rightarrow> string option \<Rightarrow> ctx_err option \<Rightarrow> int \<Rightarrow> int \<Rightarrow> job_result \<Rightarrow> 's \<Rightarrow>
   job_result \<times> exec_error option \<times> 's" where
  "readGuest limit um wo we art data readErr ctx started ended result s =
     (case guest_loop limit um wo we art data s of
        (ConnClosed tooLong, s1) \<Rightarrow>
          (case ctx of
             Some c \<Rightarrow>
               (end_at started ended (result\<lparr>rExitCode := fst (classifyContext c),
                   rTerminationReason := snd (classifyContext c)\<rparr>), None, s1)
           | None \<Rightarrow>
               (end_at started ended (result\<lparr>rExitCode := 137, rTerminationReason := ''guest_crash''\<rparr>),
                Some (GuestClosed (if tooLong then ''token too long''
                        else case readErr of None \<Rightarrow> ''EOF'' | Some e \<Rightarrow> e)), s1))
      | (Undecodable e, s1) \<Rightarrow>
          (end_at started ended (result\<lparr>rExitCode := 137, rTerminationReason := ''guest_crash''\<rparr>),
           Some (DecodeGuest e), s1)
      | (LoopError e, s1) \<Rightarrow> (result, Some e, s1)
      | (GotResult g, s1) \<Rightarrow>
          (end_at started ended (result\<lparr>rExitCode := gExitCode g, rTerminationReason := gTerminationReason g,
              rCPUTimeMillis := gCPUTimeMillis g, rPeakMemoryBytes := gPeakMemoryBytes g\<rparr>), None, s1))"

section \<open>Lemmas: configuring\<close>

lemma Put_log: "Put api req log = (r, log') \<Longrightarrow> log' = log @ [req]"
  by (auto simp: Put_def Let_def split: put_reply.splits if_splits)

lemma Put_ok: "Put api req log = (None, log') \<Longrightarrow> \<exists>b. api (log @ [req]) = HttpStatus StatusNoContent b"
  by (auto simp: Put_def Let_def split: put_reply.splits if_splits)

text \<open>The requests acknowledged: the answer to the first \<open>n\<close> requests of \<open>reqs\<close>.\<close>

definition acknowledged :: "(request list \<Rightarrow> put_reply) \<Rightarrow> request list \<Rightarrow> nat \<Rightarrow> bool" where
  "acknowledged api reqs n = (\<forall>i < n. \<exists>b. api (take (Suc i) reqs) = HttpStatus StatusNoContent b)"

lemma put_all_sends:
  assumes "put_all api reqs log = (r, log')" and "acknowledged api (log @ reqs) (length log)"
  shows "\<exists>n. log' = log @ take n reqs \<and> n \<le> length reqs
    \<and> (if r = None then n = length reqs \<and> acknowledged api (log @ reqs) (length log + n)
       else n > 0 \<and> acknowledged api (log @ reqs) (length log + n - 1))"
  using assms
proof (induction reqs arbitrary: log)
  case (Cons req reqs)
  obtain q log1 where put: "Put api req log = (q, log1)" by fastforce
  have log1: "log1 = log @ [req]" using put by (rule Put_log)
  show ?case
  proof (cases q)
    case None
    then obtain b where "api (log @ [req]) = HttpStatus StatusNoContent b" using Put_ok put by blast
    with Cons.prems(2) have ack: "acknowledged api (log1 @ reqs) (length log1)"
      by (auto simp: acknowledged_def log1 less_Suc_eq)
    have "put_all api reqs log1 = (r, log')" using Cons.prems(1) put None by simp
    from Cons.IH [OF this ack] obtain n where "log' = log1 @ take n reqs" "n \<le> length reqs"
      "if r = None then n = length reqs \<and> acknowledged api (log1 @ reqs) (length log1 + n)
       else n > 0 \<and> acknowledged api (log1 @ reqs) (length log1 + n - 1)" by blast
    then show ?thesis by (intro exI [of _ "Suc n"]) (auto simp: log1 split: if_splits)
  next
    case (Some e)
    with Cons.prems put log1 show ?thesis by (intro exI [of _ 1]) auto
  qed
qed simp

lemma wait_loop_ends:
  assumes step: "\<And>i. sockNow env (Suc i) \<ge> sockNow env i + 50000000"
    and "fuel > 0" and "sockNow env i + int (fuel - 1) * 50000000 > sockStart env + 10 * second"
  shows "wait_loop env fuel i \<noteq> None"
  using assms(2,3)
proof (induction fuel arbitrary: i)
  case (Suc fuel)
  show ?case
  proof (cases "fuel = 0")
    case True
    with Suc.prems show ?thesis by (simp split: option.splits)
  next
    case False
    then have "int (fuel - 1) = int fuel - 1" by simp
    with False Suc.prems(2) step [of i] have "sockNow env (Suc i) + int (fuel - 1) * 50000000 > sockStart env + 10 * second"
      by (simp add: algebra_simps)
    from Suc.IH [OF _ this] False show ?thesis by (auto split: option.splits)
  qed
qed simp

section \<open>Lemmas: reading the guest\<close>

text \<open>The specification: the lines of the input, and the events and the end they stand for.\<close>

function scan_all :: "nat \<Rightarrow> bytes \<Rightarrow> bytes list \<times> bool" where
  "scan_all limit data =
     (case scan limit data of
        ScanEnd \<Rightarrow> ([], False)
      | ScanTooLong \<Rightarrow> ([], True)
      | Token line rest \<Rightarrow> (case scan_all limit rest of (ls, b) \<Rightarrow> (line # ls, b)))"
  by pat_completeness auto
termination
  by (relation "measure (\<lambda>(limit, data). length data)") (auto dest: scan_smaller)

declare scan_all.simps [simp del]

definition safe_name :: "string \<Rightarrow> bool" where
  "safe_name n = (n \<noteq> [] \<and> n = Base n)"

definition msg_events :: "bool \<Rightarrow> message \<Rightarrow> event list" where
  "msg_events collect m =
     (case mType m of
        MsgStdout \<Rightarrow> [data_event EventStdout (mData m)]
      | MsgStderr \<Rightarrow> [data_event EventStderr (mData m)]
      | MsgArtifact \<Rightarrow> if collect \<and> safe_name (mName m) then [artifact_event (mName m) (mData m)] else []
      | _ \<Rightarrow> [])"

fun guest_spec :: "(bytes \<Rightarrow> string + message) \<Rightarrow> bool \<Rightarrow> bool \<Rightarrow> bytes list \<Rightarrow> event list \<times> loop_exit" where
  "guest_spec um collect tooLong [] = ([], ConnClosed tooLong)"
| "guest_spec um collect tooLong (l # ls) =
     (case um l of
        Inl e \<Rightarrow> ([], Undecodable e)
      | Inr m \<Rightarrow>
          if mType m = MsgResult
          then ([], case mResult m of None \<Rightarrow> LoopError ResultMissing | Some g \<Rightarrow> GotResult g)
          else (case guest_spec um collect tooLong ls of (evs, x) \<Rightarrow> (msg_events collect m @ evs, x)))"

definition spec_of :: "nat \<Rightarrow> (bytes \<Rightarrow> string + message) \<Rightarrow> bool \<Rightarrow> bytes \<Rightarrow> event list \<times> loop_exit" where
  "spec_of limit um collect data =
     (case scan_all limit data of (ls, tooLong) \<Rightarrow> guest_spec um collect tooLong ls)"

definition output_failed :: "loop_exit \<Rightarrow> bool" where
  "output_failed x =
     (x = LoopError WriteStdout \<or> x = LoopError WriteStderr \<or> (\<exists>n. x = LoopError (CollectArtifact n)))"

lemma spec_of_Token:
  "scan limit data = Token line rest \<Longrightarrow> spec_of limit um collect data =
     (case um line of
        Inl e \<Rightarrow> ([], Undecodable e)
      | Inr m \<Rightarrow>
          if mType m = MsgResult
          then ([], case mResult m of None \<Rightarrow> LoopError ResultMissing | Some g \<Rightarrow> GotResult g)
          else (case spec_of limit um collect rest of (evs, x) \<Rightarrow> (msg_events collect m @ evs, x)))"
  by (simp add: spec_of_def scan_all.simps [of limit data] split: prod.splits sum.splits)

text \<open>What the loop sends, relative to the specification.\<close>

definition sends_prefix :: "event list \<Rightarrow> event list \<Rightarrow> event list \<Rightarrow> loop_exit \<Rightarrow> loop_exit \<Rightarrow> bool" where
  "sends_prefix before after evs x y =
     (\<exists>n \<le> length evs. after = before @ take n evs
        \<and> (if output_failed x then n < length evs else n = length evs \<and> x = y))"

lemma sends_prefix_Cons:
  "sends_prefix (before @ [e]) after evs x y \<Longrightarrow> sends_prefix before after (e # evs) x y"
  unfolding sends_prefix_def by (elim exE conjE, rule_tac x = "Suc n" in exI) (auto split: if_splits)

lemma sends_prefix_fail: "output_failed x \<Longrightarrow> sends_prefix before before (e # evs) x y"
  unfolding sends_prefix_def by (intro exI [of _ 0]) simp

lemma sends_prefix_refl: "\<not> output_failed x \<Longrightarrow> sends_prefix before before [] x x"
  unfolding sends_prefix_def by simp

lemma not_failed [simp]:
  "\<not> output_failed (ConnClosed b)" "\<not> output_failed (Undecodable e)" "\<not> output_failed (GotResult g)"
  "\<not> output_failed (LoopError ResultMissing)" "output_failed (LoopError WriteStdout)"
  "output_failed (LoopError WriteStderr)" "output_failed (LoopError (CollectArtifact n))"
  by (simp_all add: output_failed_def)

lemma guest_loop_end:
  "scan limit data = ScanEnd \<Longrightarrow> guest_loop limit um wo we art data s = (ConnClosed False, s)"
  "scan limit data = ScanTooLong \<Longrightarrow> guest_loop limit um wo we art data s = (ConnClosed True, s)"
  by (simp_all add: guest_loop.simps [of limit um wo we art data s])

lemma spec_of_end:
  "scan limit data = ScanEnd \<Longrightarrow> spec_of limit um collect data = ([], ConnClosed False)"
  "scan limit data = ScanTooLong \<Longrightarrow> spec_of limit um collect data = ([], ConnClosed True)"
  by (simp_all add: spec_of_def scan_all.simps [of limit data])

context job_output
begin

lemma guest_message_refines:
  assumes tok: "scan limit data = Token line rest" and um: "um line = Inr m"
    and loop: "guest_loop limit um write_out write_err (if collect then Some artifact else None) data s = (x, s')"
    and spec: "spec_of limit um collect data = (evs, y)" and sp: "spec_of limit um collect rest = (evs1, y1)"
    and IH: "\<And>s1. guest_loop limit um write_out write_err (if collect then Some artifact else None) rest s1 = (x, s') \<Longrightarrow>
      sends_prefix (sent s1) (sent s') evs1 x y1"
  shows "sends_prefix (sent s) (sent s') evs x y"
proof -
  note loop = loop [unfolded guest_loop.simps [of limit um write_out write_err _ data s] tok scan_result.case um sum.case]
  note spec = spec [unfolded spec_of_Token [OF tok] um sum.case]
  show ?thesis
  proof (cases "mType m")
    case MsgStdout
    obtain r s1 where w: "write_out (mData m) s = (r, s1)" by fastforce
    show ?thesis
      using loop spec sp MsgStdout w out_ok [of "mData m" s s1] out_fail [of "mData m" s _ s1] IH [of s1]
      by (cases r) (auto simp: msg_events_def intro!: sends_prefix_Cons sends_prefix_fail)
  next
    case MsgStderr
    obtain r s1 where w: "write_err (mData m) s = (r, s1)" by fastforce
    show ?thesis
      using loop spec sp MsgStderr w err_ok [of "mData m" s s1] err_fail [of "mData m" s _ s1] IH [of s1]
      by (cases r) (auto simp: msg_events_def intro!: sends_prefix_Cons sends_prefix_fail)
  next
    case MsgArtifact
    obtain r s1 where w: "artifact (mName m) (mData m) s = (r, s1)" by fastforce
    show ?thesis
    proof (cases "collect \<and> safe_name (mName m)")
      case True
      then show ?thesis
        using loop spec sp MsgArtifact w art_ok [of "mName m" "mData m" s s1] art_fail [of "mName m" "mData m" s _ s1] IH [of s1]
        by (cases r) (auto simp: msg_events_def safe_name_def intro!: sends_prefix_Cons sends_prefix_fail)
    next
      case False
      with loop spec sp MsgArtifact IH [of s] show ?thesis
        by (auto simp: msg_events_def safe_name_def split: if_splits)
    qed
  next
    case MsgResult
    with loop spec show ?thesis by (auto split: option.splits intro: sends_prefix_refl)
  qed (use loop spec sp IH in \<open>auto simp: msg_events_def\<close>)
qed

lemma guest_loop_refines:
  assumes "guest_loop limit um write_out write_err (if collect then Some artifact else None) data s = (x, s')"
    and "spec_of limit um collect data = (evs, y)"
  shows "sends_prefix (sent s) (sent s') evs x y"
  using assms
proof (induction "length data" arbitrary: data s evs y rule: less_induct)
  case less
  show ?case
  proof (cases "scan limit data")
    case (Token line rest)
    obtain evs1 y1 where sp: "spec_of limit um collect rest = (evs1, y1)" by fastforce
    note IH = less.hyps [OF scan_smaller [OF Token] _ sp]
    show ?thesis
    proof (cases "um line")
      case (Inl e)
      with less.prems(1) [unfolded guest_loop.simps [of limit um write_out write_err _ data s] Token scan_result.case]
        less.prems(2) [unfolded spec_of_Token [OF Token]] show ?thesis by (auto intro: sends_prefix_refl)
    next
      case (Inr m)
      show ?thesis by (rule guest_message_refines [OF Token Inr less.prems sp IH])
    qed
  qed (use less.prems in \<open>auto simp: guest_loop_end spec_of_end intro: sends_prefix_refl\<close>)
qed

end

text \<open>Every line is shorter than the limit, and the loop depends on the decoder at such lines only.\<close>

lemma scan_all_bounded: "l \<in> set (fst (scan_all limit data)) \<Longrightarrow> length l < limit"
proof (induction "length data" arbitrary: data rule: less_induct)
  case less
  show ?case
  proof (cases "scan limit data")
    case (Token line rest)
    with less.prems have "l = line \<or> l \<in> set (fst (scan_all limit rest))"
      by (auto simp: scan_all.simps [of limit data] split: prod.splits)
    then show ?thesis using less.hyps [OF scan_smaller [OF Token]] scan_bounded [OF Token] by blast
  qed (use less.prems in \<open>simp_all add: scan_all.simps [of limit data]\<close>)
qed

lemma guest_loop_cong:
  assumes "\<And>l. length l < limit \<Longrightarrow> um l = um' l"
  shows "guest_loop limit um wo we art data s = guest_loop limit um' wo we art data s"
proof (induction "length data" arbitrary: data s rule: less_induct)
  case less
  show ?case
  proof (cases "scan limit data")
    case (Token line rest)
    have IH: "guest_loop limit um wo we art rest s1 = guest_loop limit um' wo we art rest s1" for s1
      using less.hyps [OF scan_smaller [OF Token]] .
    show ?thesis
      unfolding guest_loop.simps [of limit _ wo we art data s] Token scan_result.case
        assms [OF scan_bounded [OF Token]] IH ..
  qed (simp_all add: guest_loop_end)
qed

text \<open>The names an artifact event can carry.\<close>

lemma guest_spec_names:
  "ev \<in> set (fst (guest_spec um collect b ls)) \<Longrightarrow> output_event ev \<and> (evType ev = EventArtifact \<longrightarrow> safe_name (evName ev))"
  by (induction um collect b ls rule: guest_spec.induct)
    (auto simp: msg_events_def artifact_event_def data_event_def output_event_def
      split: sum.splits prod.splits if_splits msg_type.splits)

lemma safe_name_slash: "safe_name n \<Longrightarrow> n = ''/'' \<or> CHR ''/'' \<notin> set n"
  using Base_no_slash [of n] by (auto simp: safe_name_def)

lemma image_size_exact:
  assumes "0 \<le> content" "content < 2 ^ 62" "1 \<le> req" "req < 2 ^ 43"
  shows "workspaceImageSize content req =
    max (max (content + content div 10 + 8 * 2 ^ 20) (16 * 2 ^ 20)) (req * 2 ^ 20)"
proof -
  have d: "content div 10 < 2 ^ 59" using assms by simp
  then have w: "wrap64 (wrap64 (content + content div 10) + 8 * 2 ^ 20) = content + content div 10 + 8 * 2 ^ 20"
    and m: "wrap64 (req * 2 ^ 20) = req * 2 ^ 20"
    using assms by (simp_all add: int64_range_def)
  have "go_div content 10 = content div 10" and "\<not> content < 0" and "\<not> req < 1" using assms by simp_all
  then show ?thesis unfolding workspaceImageSize_def Let_def max_def by (simp only: if_False w m) auto
qed

lemma syncBuffer_bounded: "length (syncBuffer_Write p buf) \<le> maxVMLogBytes + length p"
  by (simp add: syncBuffer_Write_def Let_def)

section \<open>Properties\<close>

lemma last_in_take:
  assumes "xs = ys @ [z]" and "z \<notin> set ys" and "n \<le> length xs"
  shows "z \<in> set (take n xs) \<longleftrightarrow> n = length xs"
  using assms by (cases "n = length xs") (auto dest: in_set_takeD)

text \<open>C26. The VM is started last.  Whatever the API answers, the requests sent are a prefix of the
  list that configures the VM; the request that starts the guest is sent only after every other
  request was acknowledged with status 204, and configuring succeeds exactly when every request
  was sent and acknowledged.\<close>

theorem configureVM_start_last:
  assumes "configureVM env api (vm_requests boot drives machine vsock serial net) = (r, log)"
  shows "\<exists>n. log = take n (vm_requests boot drives machine vsock serial net)
      \<and> n \<le> length (vm_requests boot drives machine vsock serial net)
      \<and> acknowledged api (vm_requests boot drives machine vsock serial net) (n - 1)
      \<and> ((''/actions'', BAction ''InstanceStart'') \<in> set log \<longleftrightarrow>
           n = length (vm_requests boot drives machine vsock serial net))
      \<and> (r = None \<longrightarrow> n = length (vm_requests boot drives machine vsock serial net)
           \<and> acknowledged api (vm_requests boot drives machine vsock serial net) n)"
proof -
  let ?reqs = "vm_requests boot drives machine vsock serial net"
  let ?start = "(''/actions'', BAction ''InstanceStart'')"
  have split: "?reqs = butlast ?reqs @ [?start]" and len: "?reqs \<noteq> []"
    by (simp_all add: vm_requests_def butlast_append)
  have "?start \<notin> set (butlast ?reqs)"
    by (auto simp: vm_requests_def butlast_append split: option.splits)
  then have start: "?start \<in> set (take n ?reqs) \<longleftrightarrow> n = length ?reqs" if "n \<le> length ?reqs" for n
    using last_in_take [OF split] that by blast
  show ?thesis
  proof (cases "WaitForSocket env = Some None")
    case True
    obtain q l where put: "put_all api ?reqs [] = (q, l)" by fastforce
    then have "log = l" and r: "r = None \<longleftrightarrow> q = None"
      using assms True by (auto simp: configureVM_def split: option.splits)
    moreover have "acknowledged api ?reqs 0" by (simp add: acknowledged_def)
    ultimately obtain n where "log = take n ?reqs" "n \<le> length ?reqs"
      "if q = None then n = length ?reqs \<and> acknowledged api ?reqs n
       else n > 0 \<and> acknowledged api ?reqs (n - 1)"
      using put_all_sends [OF put, unfolded append_Nil list.size add_0] by blast
    then show ?thesis
      using start r by (intro exI [of _ n]) (auto simp: acknowledged_def split: if_splits)
  next
    case False
    then have "r \<noteq> None" and "log = []"
      using assms by (auto simp: configureVM_def split: option.splits wait_error.splits)
    then show ?thesis using len by (intro exI [of _ 0]) (simp add: acknowledged_def)
  qed
qed

text \<open>C36. Waiting for the API socket ends.  When the clock advances by at least the 50 ms that each
  turn sleeps, the loop returns within 202 turns: the socket answered, the job's context is done,
  or ten seconds have passed.\<close>

theorem WaitForSocket_ends:
  assumes "\<And>i. sockNow env (Suc i) \<ge> sockNow env i + 50000000" and "sockNow env 0 \<ge> sockStart env"
  shows "\<exists>r. WaitForSocket env = Some r"
  using wait_loop_ends [OF assms(1), of 202 0] assms(2) by (auto simp: WaitForSocket_def second_def)

text \<open>C7. Reading the guest.  The events an untrusted guest causes are those its messages stand for, in
  order: standard output, standard error and artifacts with a base name, up to its result or the
  first undecodable line; if a write fails they are a proper prefix of these and the run ends
  with that error.  Otherwise the run ends as the input does: with the guest's own exit code after
  a result message, with 137 and \<^verbatim>\<open>guest_crash\<close> after an undecodable line or a lost
  connection, and with the context's code when the connection ends after a cancellation or the
  deadline.\<close>

theorem readGuest_refines:
  assumes "readGuest limit um (write_to EventStdout) (write_to EventStderr) (Some emit_artifact)
      data readErr ctx started ended result s = (r, e, s')"
    and "spec_of limit um True data = (evs, y)"
  shows "\<exists>n \<le> length evs. skSent s' = skSent s @ take n evs
    \<and> (n < length evs \<longrightarrow> r = result \<and> e \<noteq> None)
    \<and> (n = length evs \<longrightarrow>
        (case y of
           GotResult g \<Rightarrow> e = None \<and> rExitCode r = gExitCode g \<and> rTerminationReason r = gTerminationReason g
         | Undecodable w \<Rightarrow> e = Some (DecodeGuest w) \<and> rExitCode r = 137 \<and> rTerminationReason r = ''guest_crash''
         | LoopError w \<Rightarrow> e = Some w \<and> r = result
         | ConnClosed _ \<Rightarrow>
             (case ctx of
                Some c \<Rightarrow> e = None \<and> (rExitCode r, rTerminationReason r) = classifyContext c
              | None \<Rightarrow> e \<noteq> None \<and> rExitCode r = 137 \<and> rTerminationReason r = ''guest_crash'')))"
proof -
  obtain x s1 where loop: "guest_loop limit um (write_to EventStdout) (write_to EventStderr)
      (Some emit_artifact) data s = (x, s1)" by fastforce
  then have "sends_prefix (skSent s) (skSent s1) evs x y"
    using sink_out.guest_loop_refines [of limit um True data s x s1 evs y] assms(2) by simp
  then obtain n where n: "n \<le> length evs" "skSent s1 = skSent s @ take n evs"
    and x: "if output_failed x then n < length evs else n = length evs \<and> x = y"
    by (auto simp: sends_prefix_def)
  have s': "s' = s1"
    using assms(1) loop by (simp add: readGuest_def split: loop_exit.splits option.splits)
  show ?thesis
  proof (cases "output_failed x")
    case True
    then show ?thesis
      using n x s' assms(1) loop by (intro exI [of _ n]) (auto simp: readGuest_def output_failed_def)
  next
    case False
    then show ?thesis
      using n x s' assms(1) loop
      by (intro exI [of _ n]) (auto simp: readGuest_def end_at_def split: loop_exit.splits option.splits)
  qed
qed

text \<open>C37. The daemon's memory.  Whatever bytes the guest sends, the message decoder only ever sees
  lines shorter than the bound: two decoders that agree on such lines give the same run.\<close>

theorem readGuest_bounded:
  assumes "\<And>l. length l < maxGuestMessageBytes \<Longrightarrow> um l = um' l"
  shows "readGuest maxGuestMessageBytes um wo we art data readErr ctx started ended result s =
    readGuest maxGuestMessageBytes um' wo we art data readErr ctx started ended result s"
  using guest_loop_cong [of maxGuestMessageBytes um um' wo we art data s, OF assms]
  by (simp add: readGuest_def)

text \<open>Disk size.  For the sizes that occur, the workspace image holds the content with a tenth and
  8 MiB to spare, is at least 16 MiB and at least what the job requested; it exceeds the request,
  already clamped to the provider's ceiling, exactly when the content with its headroom does (or
  the request is below 16 MiB).\<close>

theorem workspaceImageSize_bounds:
  assumes "0 \<le> content" "content < 2 ^ 62" "1 \<le> req" "req < 2 ^ 43"
  shows "content + content div 10 + 8 * 2 ^ 20 \<le> workspaceImageSize content req
    \<and> req * 2 ^ 20 \<le> workspaceImageSize content req
    \<and> 16 * 2 ^ 20 \<le> workspaceImageSize content req
    \<and> (workspaceImageSize content req > req * 2 ^ 20 \<longleftrightarrow>
         content + content div 10 + 8 * 2 ^ 20 > req * 2 ^ 20 \<or> req < 16)"
  unfolding image_size_exact [OF assms] by auto

text \<open>The VM log.  After any write the buffer is at most one write larger than its bound, but it is
  not within the bound itself: the bytes kept before the write are cut only when they already
  exceed it.\<close>

theorem syncBuffer_overrun:
  "length (syncBuffer_Write p buf) \<le> maxVMLogBytes + length p
   \<and> (length buf = maxVMLogBytes \<and> p \<noteq> [] \<longrightarrow> length (syncBuffer_Write p buf) > maxVMLogBytes)"
  using syncBuffer_bounded [of p buf] by (auto simp: syncBuffer_Write_def Let_def)

definition sample_requests :: "request list" where
  "sample_requests = vm_requests \<lparr>bsKernelImagePath = ''k'', bsInitrdPath = [], bsBootArgs = []\<rparr> []
     \<lparr>mcVCPUCount = 1, mcMemSizeMiB = 128, mcSMT = False\<rparr> \<lparr>vsGuestCID = 3, vsUDSPath = ''v''\<rparr>
     \<lparr>seSerialOutPath = ''c''\<rparr> None"

definition ready_sock :: sock_env where
  "ready_sock = \<lparr>sockDial = (\<lambda>i. if i = 2 then None else Some ''refused''), sockCtx = (\<lambda>_. None),
     sockNow = (\<lambda>i. int i * 50000000), sockStart = 0\<rparr>"

text \<open>A decoder for two kinds of lines.\<close>

definition toy_decode :: "bytes \<Rightarrow> string + message" where
  "toy_decode l = (case l of
       c # r \<Rightarrow> if c = CHR ''o'' then Inr (data_msg MsgStdout r)
               else if c = CHR ''r'' then Inr ((plain_msg MsgResult)\<lparr>mResult := Some
                 \<lparr>gExitCode = 7, gTerminationReason = ''completed'', gDurationMillis = 0,
                  gCPUTimeMillis = 0, gPeakMemoryBytes = 0, gMessage = []\<rparr>\<rparr>)
               else Inl ''bad'' | [] \<Rightarrow> Inl ''empty'')"

theorem configureVM_start_last_witness:
  "\<exists>n. snd (configureVM ready_sock (\<lambda>l. if length l < 3 then HttpStatus 204 [] else TransportError []) sample_requests) =
     take n sample_requests \<and> n < length sample_requests"
proof -
  let ?api = "\<lambda>l. if length l < 3 then HttpStatus 204 [] else TransportError []"
  obtain r log where c: "configureVM ready_sock ?api sample_requests = (r, log)" by fastforce
  have "\<not> list_ex (\<lambda>q. q = (''/actions'', BAction ''InstanceStart''))
      (snd (configureVM ready_sock ?api sample_requests))" by code_simp
  then have "(''/actions'', BAction ''InstanceStart'') \<notin> set log" by (auto simp: c list_ex_iff)
  then show ?thesis
    using configureVM_start_last [OF c [unfolded sample_requests_def]] c
    unfolding sample_requests_def by (auto simp: less_le)
qed

theorem WaitForSocket_ends_witness: "\<exists>r. WaitForSocket ready_sock = Some r"
  by (rule WaitForSocket_ends) (simp_all add: ready_sock_def)

theorem readGuest_refines_witness:
  "\<exists>r e s'. readGuest 100 toy_decode (write_to EventStdout) (write_to EventStderr) (Some emit_artifact)
      (''ohi'' @ [CHR 0x0A] @ ''r'' @ [CHR 0x0A] @ ''ono'') None None 0 0 zero_result (NewSink [] False) = (r, e, s')
    \<and> skSent s' \<in> {[], [data_event EventStdout ''hi'']}"
proof -
  let ?d = "''ohi'' @ [CHR 0x0A] @ ''r'' @ [CHR 0x0A] @ ''ono''"
  obtain r e s' where run: "readGuest 100 toy_decode (write_to EventStdout) (write_to EventStderr)
      (Some emit_artifact) ?d None None 0 0 zero_result (NewSink [] False) = (r, e, s')"
    by (metis prod_cases3)
  have "fst (spec_of 100 toy_decode True ?d) = [data_event EventStdout ''hi'']" by code_simp
  then obtain y where sp: "spec_of 100 toy_decode True ?d = ([data_event EventStdout ''hi''], y)"
    by (cases "spec_of 100 toy_decode True ?d") simp
  from readGuest_refines [OF run sp] obtain n where
    "skSent s' = skSent (NewSink [] False) @ take n [data_event EventStdout ''hi'']" by blast
  then have "skSent s' \<in> {[], [data_event EventStdout ''hi'']}" by (cases n) (auto simp: NewSink_def)
  with run show ?thesis by blast
qed

theorem readGuest_bounded_witness:
  "readGuest maxGuestMessageBytes toy_decode (write_to EventStdout) (write_to EventStderr) None ''ox'' None None 0 0
      zero_result (NewSink [] False) =
   readGuest maxGuestMessageBytes (\<lambda>l. if length l < maxGuestMessageBytes then toy_decode l else Inl ''long'')
      (write_to EventStdout) (write_to EventStderr) None ''ox'' None None 0 0 zero_result (NewSink [] False)"
  by (rule readGuest_bounded) simp

theorem workspaceImageSize_bounds_witness:
  "workspaceImageSize (2 ^ 33) 8192 > 8192 * 2 ^ 20 \<and> workspaceImageSize 0 8192 = 8192 * 2 ^ 20"
  using workspaceImageSize_bounds [of "2 ^ 33" 8192] workspaceImageSize_bounds [of 0 8192] by simp

theorem syncBuffer_overrun_witness:
  "length (syncBuffer_Write ''x'' (replicate maxVMLogBytes CHR ''y'')) = maxVMLogBytes + 1"
  using syncBuffer_overrun [of "''x''" "replicate maxVMLogBytes CHR ''y''"] by simp

end
