(* ===== verification/FirecrackerRun.thy ===== *)
theory FirecrackerRun
  imports Firecracker
begin

text \<open>
  \<^verbatim>\<open>Firecracker.Run\<close> (\<^verbatim>\<open>internal/executor/firecracker.go\<close>) as a whole: what it takes from the
  host, in order, and what its deferred calls give back on every path.  The function is split where
  the source registers a deferred call: \<open>Firecracker_Run\<close> holds the entry in the table of running
  jobs, \<open>run_in_dir\<close> the state directory, \<open>run_limited\<close> the cgroup, \<open>run_networked\<close> the tap
  device and subnet, \<open>run_listening\<close> the vsock listener, \<open>run_vm\<close> the VM process.

  The state is the executor's own state and the part of the host it changes; what the host, the VM
  and the guest answer during one run is the record \<open>vm_env\<close>.  \<^verbatim>\<open>netlink\<close> and \<^verbatim>\<open>cgroup2\<close> are the
  parameters of the theory \<open>JobNetLinux\<close>.  Cancelling the job's context kills the VM process:
  \<^verbatim>\<open>exec.CommandContext\<close>.

  The lemmas, one per level, say what each level leaves behind; together they show that every path
  gives back everything it took, except the cgroup on two paths.
\<close>

section \<open>State and environment\<close>

datatype signal = SIGTERM | SIGKILL

record 'k fc_state =
  fcRunning :: table
  fcNet :: "jobNetwork option"
  fcKernel :: 'k
  fcDirs :: "string set"
  fcListeners :: "string set"
  fcVMs :: "int set"
  fcSignals :: "(int \<times> signal) list"
  fcRequests :: "request list"

record 'k vm_kernel =
  vkNl :: "'k netlink"
  vkCg :: "'k cgroups"
  vkExit :: "int \<Rightarrow> 'k \<Rightarrow> 'k" \<comment> \<open>a process is gone\<close>

text \<open>The calls of \<^verbatim>\<open>MkfsExt4\<close>.\<close>

record mkfs_env =
  mkOpen :: "string \<Rightarrow> string option"
  mkTruncate :: "string \<Rightarrow> int \<Rightarrow> string option"
  mkClose :: "string \<Rightarrow> string option"
  mkExec :: "string list \<Rightarrow> string option"

definition MkfsExt4 :: "mkfs_env \<Rightarrow> string \<Rightarrow> string \<Rightarrow> int \<Rightarrow> string option" where
  "MkfsExt4 mk root img sizeBytes =
     (case mkOpen mk img of
        Some e \<Rightarrow> Some (''create workspace disk image: '' @ e)
      | None \<Rightarrow>
          (case mkTruncate mk img sizeBytes of
             Some e \<Rightarrow> Some (''size workspace disk image: '' @ e)
           | None \<Rightarrow>
               (case mkClose mk img of
                  Some e \<Rightarrow> Some (''close workspace disk image: '' @ e)
                | None \<Rightarrow>
                    (case mkExec mk [''mkfs.ext4'', ''-q'', ''-F'', ''-m'', ''0'', ''-d'', root, img] of
                       Some e \<Rightarrow> Some (''mkfs.ext4: '' @ e)
                     | None \<Rightarrow> None))))"

record vm_env =
  veTemp :: "string + string" \<comment> \<open>\<^verbatim>\<open>os.MkdirTemp\<close>: an error or the random part\<close>
  veMkfs :: mkfs_env
  veListen :: "string option"
  veStart :: "string + int"
  veGraceful :: bool \<comment> \<open>the process ends within the grace after SIGTERM\<close>
  veSock :: sock_env
  veApi :: "request list \<Rightarrow> put_reply"
  veAccept :: accept_event
  veSend :: "string option"
  veData :: bytes
  veReadErr :: "string option"
  veCtx :: "ctx_err option"
  veDecode :: "bytes \<Rightarrow> string + message"
  veStarted :: int
  veEnded :: int

type_synonym 's outputs =
  "(bytes \<Rightarrow> 's \<Rightarrow> sink_error option \<times> 's) \<times> (bytes \<Rightarrow> 's \<Rightarrow> sink_error option \<times> 's)
   \<times> (string \<Rightarrow> bytes \<Rightarrow> 's \<Rightarrow> sink_error option \<times> 's) option"

type_synonym ('k, 's) run_result = "job_result \<times> exec_error option \<times> 'k fc_state \<times> 's"

section \<open>The VM process\<close>

definition vm_gone :: "'k vm_kernel \<Rightarrow> int \<Rightarrow> 'k fc_state \<Rightarrow> 'k fc_state" where
  "vm_gone vk pid st = st\<lparr>fcVMs := fcVMs st - {pid}, fcKernel := vkExit vk pid (fcKernel st)\<rparr>"

definition signalled :: "int \<Rightarrow> signal list \<Rightarrow> 'k fc_state \<Rightarrow> 'k fc_state" where
  "signalled pid sigs st = st\<lparr>fcSignals := fcSignals st @ map (Pair pid) sigs\<rparr>"

text \<open>\<^verbatim>\<open>killProcess\<close> returns only when the process has exited.\<close>

definition killProcess :: "'k vm_kernel \<Rightarrow> bool \<Rightarrow> int \<Rightarrow> 'k fc_state \<Rightarrow> 'k fc_state" where
  "killProcess vk graceful pid st =
     vm_gone vk pid (signalled pid (if graceful then [SIGTERM] else [SIGTERM, SIGKILL]) st)"

definition run_vm ::
  "'k vm_kernel \<Rightarrow> vm_env \<Rightarrow> jobCgroup \<Rightarrow> request list \<Rightarrow> job_result \<Rightarrow> 's outputs \<Rightarrow>
   'k fc_state \<Rightarrow> 's \<Rightarrow> ('k, 's) run_result" where
  "run_vm vk env limits reqs result out st s =
     (case veStart env of
        Inl e \<Rightarrow> (result, Some (StartVM e), st, s)
      | Inr pid \<Rightarrow>
          (let kill = killProcess vk (veGraceful env) pid in
           case addProcess (vkCg vk) limits pid (fcKernel st) of
             (Some e, k) \<Rightarrow>
               (result, Some (PlaceInCgroup e), kill (st\<lparr>fcVMs := insert pid (fcVMs st), fcKernel := k\<rparr>), s)
           | (None, k) \<Rightarrow>
               (case configureVM (veSock env) (veApi env) reqs of
                  (cfgErr, log) \<Rightarrow>
                    (let st1 = st\<lparr>fcVMs := insert pid (fcVMs st), fcKernel := k,
                                  fcRequests := fcRequests st @ log\<rparr>
                     in case cfgErr of
                          Some e \<Rightarrow> (result, Some e, kill st1, s)
                        | None \<Rightarrow>
                            (case acceptGuest (veAccept env) of
                               (Some e, killed) \<Rightarrow>
                                 (case finishEarly result (veStarted env) (veEnded env) (Some e) of
                                    (r, err) \<Rightarrow>
                                      (r, err,
                                       (if killed then kill st1
                                        else if veAccept env = ProcessExited then vm_gone vk pid st1
                                        else st1), s))
                             | (None, _) \<Rightarrow>
                                 (case veSend env of
                                    Some e \<Rightarrow> (result, Some (SendJob e), st1, s)
                                  | None \<Rightarrow>
                                      (case out of (wo, we, art) \<Rightarrow>
                                       case readGuest maxGuestMessageBytes (veDecode env) wo we art
                                              (veData env) (veReadErr env) (veCtx env)
                                              (veStarted env) (veEnded env) result s of
                                         (r, err, s1) \<Rightarrow> (r, err, kill st1, s1))))))))"

section \<open>The levels of Run\<close>

definition run_listening ::
  "'k vm_kernel \<Rightarrow> vm_env \<Rightarrow> jobCgroup \<Rightarrow> request list \<Rightarrow> string \<Rightarrow> job_result \<Rightarrow> 's outputs \<Rightarrow>
   'k fc_state \<Rightarrow> 's \<Rightarrow> ('k, 's) run_result" where
  "run_listening vk env limits reqs vsockPath result out st s =
     (let path = vsockPath @ ''_'' @ dec HostPort in
      case veListen env of
        Some e \<Rightarrow> (result, Some (VsockListen e), st, s)
      | None \<Rightarrow>
          (case run_vm vk env limits reqs result out (st\<lparr>fcListeners := insert path (fcListeners st)\<rparr>) s of
             (r, e, st1, s1) \<Rightarrow> (r, e, st1\<lparr>fcListeners := fcListeners st1 - {path}\<rparr>, s1)))"

definition baseBootArgs :: string where
  "baseBootArgs = ''root=/dev/vda ro console=ttyS0 reboot=k panic=1 pci=off init=/usr/sbin/yonk-guest''"

text \<open>The requests of a run: the composite literals of the source.\<close>

definition run_requests ::
  "FirecrackerConfig \<Rightarrow> string \<Rightarrow> int \<Rightarrow> int \<Rightarrow> (jobNetwork \<times> jobSubnet \<times> string) option \<Rightarrow> request list" where
  "run_requests cfg jobDir vcpu memoryMB net =
     vm_requests
       \<lparr>bsKernelImagePath = cfKernelPath cfg, bsInitrdPath = [],
        bsBootArgs = baseBootArgs @ (case net of None \<Rightarrow> []
          | Some (jn, sub, tap) \<Rightarrow> '' '' @ guestBootNetArg sub (cfGuestResolvers cfg))\<rparr>
       [\<lparr>drDriveID = ''rootfs'', drPathOnHost = cfRootfsPath cfg, drIsRootDevice = True, drIsReadOnly = True\<rparr>,
        \<lparr>drDriveID = ''workspace'', drPathOnHost = PJoin jobDir ''workspace.ext4'',
         drIsRootDevice = False, drIsReadOnly = False\<rparr>]
       \<lparr>mcVCPUCount = vcpu, mcMemSizeMiB = memoryMB, mcSMT = False\<rparr>
       \<lparr>vsGuestCID = GuestCID, vsUDSPath = PJoin jobDir ''v''\<rparr>
       \<lparr>seSerialOutPath = PJoin jobDir ''console.log''\<rparr>
       (case net of None \<Rightarrow> None
        | Some (jn, sub, tap) \<Rightarrow>
            Some \<lparr>niIfaceID = ''eth0'', niHostDevName = tap, niGuestMAC = guestMAC (snIdx sub),
                  niRxRateLimiter = rateLimiter jn, niTxRateLimiter = rateLimiter jn\<rparr>)"

fun tap_error_text :: "string \<Rightarrow> tap_error \<Rightarrow> string" where
  "tap_error_text name NoSubnets = ''no job subnets available''"
| "tap_error_text name (CreateTap e) = ''create tap '' @ name @ '': '' @ e"
| "tap_error_text name (AssignAddress e) = ''assign host address to '' @ name @ '': '' @ e"
| "tap_error_text name (BringUp e) = ''bring up '' @ name @ '': '' @ e"

definition give_back_tap ::
  "'k vm_kernel \<Rightarrow> string \<Rightarrow> jobSubnet \<Rightarrow> 'k fc_state \<Rightarrow> 'k fc_state" where
  "give_back_tap vk tap sub st =
     (case fcNet st of
        None \<Rightarrow> st
      | Some jn \<Rightarrow>
          (case teardownTap (vkNl vk) tap (Some sub) jn (fcKernel st) of
             (jn', k') \<Rightarrow> st\<lparr>fcNet := Some jn', fcKernel := k'\<rparr>))"

definition run_networked ::
  "'k vm_kernel \<Rightarrow> vm_env \<Rightarrow> FirecrackerConfig \<Rightarrow> job \<Rightarrow> string \<Rightarrow> int \<Rightarrow> int \<Rightarrow> jobCgroup \<Rightarrow>
   job_result \<Rightarrow> 's outputs \<Rightarrow> 'k fc_state \<Rightarrow> 's \<Rightarrow> ('k, 's) run_result" where
  "run_networked vk env cfg spec jobDir vcpu memoryMB limits result out st s =
     (let go = (\<lambda>net st. run_listening vk env limits (run_requests cfg jobDir vcpu memoryMB net)
                   (PJoin jobDir ''v'') result out st s) in
      if jNetwork spec \<noteq> ''egress'' then go None st
      else case fcNet st of
             None \<Rightarrow> (result, Some (NetworkUnavailable None), st, s)
           | Some jn \<Rightarrow>
               if \<not> jnReady jn then (result, Some (NetworkUnavailable (jnErr jn)), st, s)
               else (case setupTap (vkNl vk) (jID spec) jn (fcKernel st) of
                       (Inl e, jn', k') \<Rightarrow>
                         (result, Some (PrepareNetwork (tap_error_text (tapName (jID spec)) e)),
                          st\<lparr>fcNet := Some jn', fcKernel := k'\<rparr>, s)
                     | (Inr (sub, tap), jn', k') \<Rightarrow>
                         (case go (Some (jn', sub, tap)) (st\<lparr>fcNet := Some jn', fcKernel := k'\<rparr>) of
                            (r, e, st1, s1) \<Rightarrow> (r, e, give_back_tap vk tap sub st1, s1))))"

definition run_limited ::
  "'k vm_kernel \<Rightarrow> vm_env \<Rightarrow> FirecrackerConfig \<Rightarrow> job \<Rightarrow> string \<Rightarrow> int \<Rightarrow> int \<Rightarrow>
   job_result \<Rightarrow> 's outputs \<Rightarrow> 'k fc_state \<Rightarrow> 's \<Rightarrow> ('k, 's) run_result" where
  "run_limited vk env cfg spec jobDir vcpu memoryMB result out st s =
     (case newJobCgroup (vkCg vk) (jID spec) vcpu memoryMB (fcKernel st) of
        (Inl e, k) \<Rightarrow> (result, Some (PrepareLimits e), st\<lparr>fcKernel := k\<rparr>, s)
      | (Inr limits, k) \<Rightarrow>
          (case run_networked vk env cfg spec jobDir vcpu memoryMB limits result out (st\<lparr>fcKernel := k\<rparr>) s of
             (r, e, st1, s1) \<Rightarrow>
               (r, e, st1\<lparr>fcKernel := jobCgroup_delete (vkCg vk) limits (fcKernel st1)\<rparr>, s1)))"

text \<open>The name \<^verbatim>\<open>os.MkdirTemp(dir, "vm-")\<close> makes.\<close>

definition temp_dir :: "string \<Rightarrow> string \<Rightarrow> string" where
  "temp_dir dir rand =
     (if dir \<noteq> [] \<and> last dir = CHR ''/'' then dir @ ''vm-'' @ rand else dir @ ''/vm-'' @ rand)"

definition run_in_dir ::
  "'k vm_kernel \<Rightarrow> vm_env \<Rightarrow> FirecrackerConfig \<Rightarrow> job \<Rightarrow> string \<Rightarrow> int \<Rightarrow>
   job_result \<Rightarrow> 's outputs \<Rightarrow> 'k fc_state \<Rightarrow> 's \<Rightarrow> ('k, 's) run_result" where
  "run_in_dir vk env cfg spec root contentBytes result out st s =
     (case veTemp env of
        Inl e \<Rightarrow> (result, Some (MakeStateDir e), st, s)
      | Inr rand \<Rightarrow>
          (let jobDir = temp_dir (cfWorkDir cfg) rand;
               st0 = st\<lparr>fcDirs := insert jobDir (fcDirs st)\<rparr>;
               vcpu = clampInt (resCPU (jResources spec)) minGuestCPUs (cfMaxVCPU cfg);
               memoryMB = clampInt (resMemoryMB (jResources spec)) minGuestMemoryMB (cfMaxMemoryMB cfg);
               diskMB = clampInt (resDiskMB (jResources spec)) minGuestDiskMB (cfMaxDiskMB cfg);
               img = PJoin jobDir ''workspace.ext4''
           in case (case MkfsExt4 (veMkfs env) root img (workspaceImageSize contentBytes diskMB) of
                      Some e \<Rightarrow> (result, Some (PrepareDisk e), st0, s)
                    | None \<Rightarrow> run_limited vk env cfg spec jobDir vcpu memoryMB result out st0 s) of
                (r, e, st1, s1) \<Rightarrow> (r, e, st1\<lparr>fcDirs := fcDirs st1 - {jobDir}\<rparr>, s1)))"

text \<open>Cancelling the context: a VM still running is killed.\<close>

definition cancel_vm :: "'k vm_kernel \<Rightarrow> vm_env \<Rightarrow> 'k fc_state \<Rightarrow> 'k fc_state" where
  "cancel_vm vk env st =
     (case veStart env of
        Inl _ \<Rightarrow> st
      | Inr pid \<Rightarrow> if pid \<in> fcVMs st then vm_gone vk pid (signalled pid [SIGKILL] st) else st)"

definition Firecracker_Run ::
  "'k vm_kernel \<Rightarrow> vm_env \<Rightarrow> run_id \<Rightarrow> FirecrackerConfig \<Rightarrow> job \<Rightarrow> string \<Rightarrow> int \<Rightarrow>
   's outputs \<Rightarrow> 'k fc_state \<Rightarrow> 's \<Rightarrow> ('k, 's) run_result" where
  "Firecracker_Run vk env rid cfg spec root contentBytes out st s =
     (let result = zero_result\<lparr>rStartedAt := veStarted env, rTerminationReason := ''executor_error''\<rparr>
      in if root = [] then (result, Some NoWorkspaceRoot, st, s)
         else case Firecracker_register (jID spec) rid (fcRunning st) of
           (False, t) \<Rightarrow> (result, Some (AlreadyRunning (jID spec)), st\<lparr>fcRunning := t\<rparr>, s)
         | (True, t) \<Rightarrow>
             (case run_in_dir vk env cfg spec root contentBytes result out (st\<lparr>fcRunning := t\<rparr>) s of
                (r, e, st1, s1) \<Rightarrow>
                  (let st2 = cancel_vm vk env st1
                   in (r, e, st2\<lparr>fcRunning := Firecracker_unregister (jID spec) (fcRunning st2)\<rparr>, s1))))"

section \<open>What the levels give back\<close>

text \<open>What the run relies on of the kernel: the hypotheses on the two packages, that neither touches
  the other's part, and that a process that is gone is in no cgroup.\<close>

definition kernel_ok ::
  "'k vm_kernel \<Rightarrow> ('k \<Rightarrow> string set) \<Rightarrow> ('k \<Rightarrow> nat set) \<Rightarrow> ('k \<Rightarrow> string \<Rightarrow> 64 word set option) \<Rightarrow> bool" where
  "kernel_ok vk devs fds groups =
     (netlink_ok (vkNl vk) devs fds \<and> netlink_frame (vkNl vk) groups
      \<and> cgroups_ok (vkCg vk) groups \<and> cgroups_frame (vkCg vk) (\<lambda>k. (devs k, fds k))
      \<and> (\<forall>pid k. devs (vkExit vk pid k) = devs k \<and> fds (vkExit vk pid k) = fds k
           \<and> groups (vkExit vk pid k) = map_option (\<lambda>P. P - {word_of_int pid}) \<circ> groups k))"

definition same_host ::
  "('k \<Rightarrow> string set) \<Rightarrow> ('k \<Rightarrow> nat set) \<Rightarrow> 'k fc_state \<Rightarrow> 'k fc_state \<Rightarrow> bool" where
  "same_host devs fds st st' =
     (fcRunning st' = fcRunning st \<and> fcDirs st' = fcDirs st \<and> fcListeners st' = fcListeners st
      \<and> devs (fcKernel st') = devs (fcKernel st) \<and> fds (fcKernel st') = fds (fcKernel st))"

text \<open>The two paths that return without waiting for the VM: the listener failed, or the job could
  not be sent.\<close>

definition abandoned :: "vm_env \<Rightarrow> bool" where
  "abandoned env =
     ((case veAccept env of AcceptFailed _ _ \<Rightarrow> True | _ \<Rightarrow> False)
      \<or> veAccept env = Accepted \<and> veSend env \<noteq> None)"

definition vm_over ::
  "('k \<Rightarrow> string \<Rightarrow> 64 word set option) \<Rightarrow> 'k fc_state \<Rightarrow> 'k fc_state \<Rightarrow> bool" where
  "vm_over groups st st' =
     (fcVMs st' = fcVMs st \<and> groups (fcKernel st') = groups (fcKernel st))"

definition vm_left ::
  "vm_env \<Rightarrow> ('k \<Rightarrow> string \<Rightarrow> 64 word set option) \<Rightarrow> string \<Rightarrow> 'k fc_state \<Rightarrow> 'k fc_state \<Rightarrow> bool" where
  "vm_left env groups path st st' =
     (abandoned env \<and> (\<exists>pid. veStart env = Inr pid \<and> fcVMs st' = insert pid (fcVMs st)
        \<and> groups (fcKernel st') = (groups (fcKernel st))(path \<mapsto> {word_of_int pid})))"

text \<open>The process is new.\<close>

definition new_pid ::
  "vm_env \<Rightarrow> ('k \<Rightarrow> string \<Rightarrow> 64 word set option) \<Rightarrow> 'k fc_state \<Rightarrow> bool" where
  "new_pid env groups st =
     (\<forall>pid. veStart env = Inr pid \<longrightarrow> pid \<notin> fcVMs st
        \<and> (\<forall>p P. groups (fcKernel st) p = Some P \<longrightarrow> word_of_int pid \<notin> P))"

lemma kernel_okD:
  assumes "kernel_ok vk devs fds groups"
  shows "netlink_ok (vkNl vk) devs fds" "netlink_frame (vkNl vk) groups" "cgroups_ok (vkCg vk) groups"
    and "cgroups_frame (vkCg vk) devs" "cgroups_frame (vkCg vk) fds"
    and "devs (vkExit vk pid k) = devs k" "fds (vkExit vk pid k) = fds k"
    and "groups (vkExit vk pid k) = map_option (\<lambda>P. P - {word_of_int pid}) \<circ> groups k"
  using assms by (auto simp: kernel_ok_def cgroups_frame_def)

text \<open>Adding the process and its end, on the cgroups.\<close>

lemma addProcess_groups:
  assumes "cgroups_ok cg groups" and "addProcess cg (Some path) pid k = (r, k')"
  shows "groups k' = (if r = None then (groups k)(path := map_option (insert (word_of_int pid)) (groups k path))
    else groups k)"
  using assms by (auto simp: addProcess_def cgroups_ok_def split: prod.splits option.splits)

lemma exit_groups:
  assumes "kernel_ok vk devs fds groups" and "new_pid env groups st" and "veStart env = Inr pid"
    and "groups (fcKernel st) path = Some {}"
    and "groups k = groups (fcKernel st) \<or> groups k = (groups (fcKernel st))(path \<mapsto> {word_of_int pid})"
  shows "groups (vkExit vk pid k) = groups (fcKernel st)"
proof
  fix p
  have new: "groups (fcKernel st) p = Some P \<Longrightarrow> P - {word_of_int pid} = P" for P
    using assms(2,3) by (auto simp: new_pid_def)
  show "groups (vkExit vk pid k) p = groups (fcKernel st) p"
    using assms(4,5) new unfolding kernel_okD(8) [OF assms(1)]
    by (cases "groups (fcKernel st) p") auto
qed

lemma run_vm_effect:
  assumes ok: "kernel_ok vk devs fds groups" and new: "new_pid env groups st"
    and path: "groups (fcKernel st) path = Some {}"
    and run: "run_vm vk env (Some path) reqs result out st s = (r, e, st', s')"
  shows "same_host devs fds st st' \<and> fcNet st' = fcNet st
    \<and> (vm_over groups st st' \<or> vm_left env groups path st st')"
proof (cases "veStart env")
  case (Inl w)
  with run show ?thesis by (simp add: run_vm_def same_host_def vm_over_def)
next
  case (Inr pid)
  obtain q k where add: "addProcess (vkCg vk) (Some path) pid (fcKernel st) = (q, k)" by fastforce
  have frame: "devs k = devs (fcKernel st)" "fds k = fds (fcKernel st)"
    using addProcess_frame [OF kernel_okD(4) [OF ok] add] addProcess_frame [OF kernel_okD(5) [OF ok] add]
    by simp_all
  have gk: "groups k = (if q = None then (groups (fcKernel st))(path \<mapsto> {word_of_int pid}) else groups (fcKernel st))"
    using addProcess_groups [OF kernel_okD(3) [OF ok] add] path by simp
  then have gone: "groups (vkExit vk pid k) = groups (fcKernel st)"
    using exit_groups [OF ok new Inr path, of k] by (auto split: if_splits)
  have fresh: "insert pid (fcVMs st) - {pid} = fcVMs st" using new Inr by (simp add: new_pid_def)
  note simps = same_host_def vm_over_def vm_left_def killProcess_def vm_gone_def signalled_def
    kernel_okD(6,7) [OF ok] frame gone fresh Inr
  show ?thesis
  proof (cases q)
    case (Some w)
    with run add Inr show ?thesis by (auto simp: run_vm_def simps Let_def)
  next
    case None
    note gk = gk [unfolded None, simplified]
    show ?thesis
      using run add Inr None gk
      by (auto simp: run_vm_def simps Let_def acceptGuest_def abandoned_def
          split: prod.splits option.splits accept_event.splits)
  qed
qed

lemma run_listening_effect:
  assumes ok: "kernel_ok vk devs fds groups" and new: "new_pid env groups st"
    and path: "groups (fcKernel st) path = Some {}"
    and sock: "vsock @ ''_'' @ dec HostPort \<notin> fcListeners st"
    and run: "run_listening vk env (Some path) reqs vsock result out st s = (r, e, st', s')"
  shows "same_host devs fds st st' \<and> fcNet st' = fcNet st
    \<and> (vm_over groups st st' \<or> vm_left env groups path st st')"
proof (cases "veListen env")
  case None
  let ?st = "st\<lparr>fcListeners := insert (vsock @ ''_'' @ dec HostPort) (fcListeners st)\<rparr>"
  obtain r1 e1 st1 s1 where vm: "run_vm vk env (Some path) reqs result out ?st s = (r1, e1, st1, s1)"
    by (metis prod_cases4)
  have "st' = st1\<lparr>fcListeners := fcListeners st1 - {vsock @ ''_'' @ dec HostPort}\<rparr>"
    using run None vm by (simp add: run_listening_def Let_def)
  moreover have "new_pid env groups ?st" using new by (simp add: new_pid_def)
  moreover note run_vm_effect [OF ok _ _ vm] path sock
  ultimately show ?thesis by (simp add: same_host_def vm_over_def vm_left_def)
next
  case (Some w)
  with run show ?thesis by (simp add: run_listening_def Let_def same_host_def vm_over_def)
qed

definition net_used :: "'k fc_state \<Rightarrow> (u32 \<Rightarrow> bool) option" where
  "net_used st = map_option (alUsed \<circ> jnAlloc) (fcNet st)"

definition net_inv :: "'k fc_state \<Rightarrow> bool" where
  "net_inv st = (case fcNet st of None \<Rightarrow> True | Some jn \<Rightarrow> alloc_inv (jnAlloc jn))"

text \<open>Without a network there is no device to give back.\<close>

lemma run_unnetworked_effect:
  assumes ok: "kernel_ok vk devs fds groups" and new: "new_pid env groups st"
    and path: "groups (fcKernel st) path = Some {}"
    and sock: "PJoin jobDir ''v'' @ ''_'' @ dec HostPort \<notin> fcListeners st"
    and run: "run_networked vk env cfg spec jobDir vcpu mem (Some path) result out st s = (r, e, st', s')"
    and none: "\<not> (jNetwork spec = ''egress'' \<and> (\<exists>jn. fcNet st = Some jn \<and> jnReady jn))"
  shows "same_host devs fds st st' \<and> net_used st' = net_used st
    \<and> (vm_over groups st st' \<or> vm_left env groups path st st')"
proof (cases "jNetwork spec = ''egress''")
  case True
  with none run show ?thesis
    by (auto simp: run_networked_def Let_def same_host_def vm_over_def split: option.splits)
next
  case False
  then have "run_listening vk env (Some path) (run_requests cfg jobDir vcpu mem None) (PJoin jobDir ''v'')
      result out st s = (r, e, st', s')"
    using run by (simp add: run_networked_def Let_def)
  from run_listening_effect [OF ok new path sock this] show ?thesis by (simp add: net_used_def)
qed

lemma run_networked_effect:
  assumes ok: "kernel_ok vk devs fds groups" and new: "new_pid env groups st"
    and path: "groups (fcKernel st) path = Some {}"
    and sock: "PJoin jobDir ''v'' @ ''_'' @ dec HostPort \<notin> fcListeners st"
    and inv: "net_inv st" and tap: "tapName (jID spec) \<notin> devs (fcKernel st)"
    and run: "run_networked vk env cfg spec jobDir vcpu mem (Some path) result out st s = (r, e, st', s')"
  shows "same_host devs fds st st' \<and> net_used st' = net_used st
    \<and> (vm_over groups st st' \<or> vm_left env groups path st st')"
proof (cases "jNetwork spec = ''egress'' \<and> (\<exists>jn. fcNet st = Some jn \<and> jnReady jn)")
  case False
  show ?thesis by (rule run_unnetworked_effect [OF ok new path sock run False])
next
  case True
  then obtain jn where jn: "fcNet st = Some jn" "jnReady jn" and eg: "jNetwork spec = ''egress''" by blast
  obtain q jn1 k1 where made: "setupTap (vkNl vk) (jID spec) jn (fcKernel st) = (q, jn1, k1)"
    by (metis prod_cases3)
  have al: "alloc_inv (jnAlloc jn)" using inv jn by (simp add: net_inv_def)
  note eff = setupTap_effect [OF kernel_okD(1) [OF ok] al made]
  have g1: "groups k1 = groups (fcKernel st)" by (rule setupTap_frame [OF kernel_okD(2) [OF ok] made])
  show ?thesis
  proof (cases q)
    case (Inl w)
    with run jn eg made have "st' = st\<lparr>fcNet := Some jn1, fcKernel := k1\<rparr>"
      by (simp add: run_networked_def Let_def)
    with eff(1) eff(4) [OF Inl] g1 tap jn show ?thesis
      by (simp add: same_host_def net_used_def vm_over_def)
  next
    case (Inr p)
    obtain sub name where q: "q = Inr (sub, name)" using Inr by (cases p) simp
    note e5 = eff(5) [OF q]
    let ?st = "st\<lparr>fcNet := Some jn1, fcKernel := k1\<rparr>"
    obtain r1 e1 st1 s1 where go: "run_listening vk env (Some path)
        (run_requests cfg jobDir vcpu mem (Some (jn1, sub, name))) (PJoin jobDir ''v'') result out ?st s =
        (r1, e1, st1, s1)" by (metis prod_cases4)
    have "new_pid env groups ?st" using new g1 by (simp add: new_pid_def)
    from run_listening_effect [OF ok this _ _ go] path sock g1
    have same: "same_host devs fds ?st st1" and net: "fcNet st1 = Some jn1"
      and vm: "vm_over groups ?st st1 \<or> vm_left env groups path ?st st1" by simp_all
    obtain jn2 k2 where td: "teardownTap (vkNl vk) name (Some sub) jn1 (fcKernel st1) = (jn2, k2)" by fastforce
    have st': "st' = st1\<lparr>fcNet := Some jn2, fcKernel := k2\<rparr>"
      using run jn eg made go td net q by (simp add: run_networked_def Let_def give_back_tap_def)
    note tde = teardownTap_effect [OF kernel_okD(1) [OF ok] td]
      teardownTap_frame [OF kernel_okD(2) [OF ok] td]
    have "alUsed (jnAlloc jn2) = alUsed (jnAlloc jn)"
      using tde(3) e5 by (auto simp: fun_eq_iff)
    with same vm st' tde e5 eff(1) g1 tap jn show ?thesis
      by (auto simp: same_host_def net_used_def vm_over_def vm_left_def)
  qed
qed

definition group_path :: "job \<Rightarrow> string" where
  "group_path spec = ''/yonk-'' @ jID spec"

lemma cgroups_ok_new:
  assumes "cgroups_ok cg groups"
  shows "cgNewManager cg m p r k = (None, k') \<Longrightarrow> groups k p = None \<Longrightarrow> groups k' = (groups k)(p \<mapsto> {})"
    and "cgNewManager cg m p r k = (Some e, k') \<Longrightarrow> groups k' = groups k"
proof -
  assume "cgNewManager cg m p r k = (None, k')" and "groups k p = None"
  with assms [unfolded cgroups_ok_def, THEN conjunct1, rule_format, of m p r k k']
  show "groups k' = (groups k)(p \<mapsto> {})" by simp
qed (use assms in \<open>auto simp: cgroups_ok_def\<close>)

lemma newJobCgroup_groups:
  assumes "cgroups_ok cg groups" and "newJobCgroup cg j v m k = (r, k')"
  shows "r = Inl e \<Longrightarrow> groups k' = groups k"
    and "r = Inr c \<Longrightarrow> groups k (''/yonk-'' @ j) = None \<Longrightarrow>
      c = Some (''/yonk-'' @ j) \<and> groups k' = (groups k)(''/yonk-'' @ j \<mapsto> {})"
  using assms(2) cgroups_ok_new [OF assms(1), of cgroupMount "''/yonk-'' @ j" "job_limits v m" k]
  by (auto simp: newJobCgroup_def Let_def split: prod.splits option.splits)

lemma jobCgroup_delete_groups:
  assumes "cgroups_ok cg groups"
  shows "groups (jobCgroup_delete cg (Some p) k) =
    (if groups k p = Some {} then (groups k)(p := None) else groups k)"
  using assms by (simp add: cgroups_ok_def jobCgroup_delete_def)

lemma run_limited_effect:
  assumes ok: "kernel_ok vk devs fds groups" and new: "new_pid env groups st"
    and path: "groups (fcKernel st) (group_path spec) = None"
    and sock: "PJoin jobDir ''v'' @ ''_'' @ dec HostPort \<notin> fcListeners st"
    and inv: "net_inv st" and tap: "tapName (jID spec) \<notin> devs (fcKernel st)"
    and run: "run_limited vk env cfg spec jobDir vcpu mem result out st s = (r, e, st', s')"
  shows "same_host devs fds st st' \<and> net_used st' = net_used st
    \<and> (vm_over groups st st' \<or> vm_left env groups (group_path spec) st st')"
proof -
  obtain q k where cg: "newJobCgroup (vkCg vk) (jID spec) vcpu mem (fcKernel st) = (q, k)" by fastforce
  note frame = newJobCgroup_frame [OF kernel_okD(4) [OF ok] cg] newJobCgroup_frame [OF kernel_okD(5) [OF ok] cg]
  note gr = newJobCgroup_groups [OF kernel_okD(3) [OF ok] cg]
  show ?thesis
  proof (cases q)
    case (Inl w)
    with run cg frame gr(1) [OF Inl] show ?thesis
      by (auto simp: run_limited_def same_host_def net_used_def vm_over_def)
  next
    case (Inr c)
    from gr(2) [OF Inr] path have c: "c = Some (group_path spec)"
      and g1: "groups k = (groups (fcKernel st))(group_path spec \<mapsto> {})"
      by (simp_all add: group_path_def)
    let ?st = "st\<lparr>fcKernel := k\<rparr>"
    obtain r1 e1 st1 s1 where go: "run_networked vk env cfg spec jobDir vcpu mem (Some (group_path spec))
        result out ?st s = (r1, e1, st1, s1)" by (metis prod_cases4)
    have "new_pid env groups ?st" using new g1 by (auto simp: new_pid_def)
    from run_networked_effect [OF ok this _ _ _ _ go] sock inv tap frame g1
    have lvl: "same_host devs fds ?st st1" "net_used st1 = net_used ?st"
      "vm_over groups ?st st1 \<or> vm_left env groups (group_path spec) ?st st1"
      by (simp_all add: net_inv_def)
    have st': "st' = st1\<lparr>fcKernel := jobCgroup_delete (vkCg vk) (Some (group_path spec)) (fcKernel st1)\<rparr>"
      using run cg Inr c go by (simp add: run_limited_def)
    have restored: "(groups (fcKernel st))(group_path spec := None) = groups (fcKernel st)"
      using path by (simp add: fun_eq_iff)
    show ?thesis
      using lvl st' frame g1 restored jobCgroup_delete_groups [OF kernel_okD(3) [OF ok]]
        jobCgroup_delete_frame [OF kernel_okD(4) [OF ok]] jobCgroup_delete_frame [OF kernel_okD(5) [OF ok]]
      by (auto simp: same_host_def net_used_def vm_over_def vm_left_def)
  qed
qed

text \<open>The state directory is new, and so is the listener's path below it.\<close>

definition new_dir :: "vm_env \<Rightarrow> FirecrackerConfig \<Rightarrow> 'k fc_state \<Rightarrow> bool" where
  "new_dir env cfg st =
     (\<forall>rand. veTemp env = Inr rand \<longrightarrow> temp_dir (cfWorkDir cfg) rand \<notin> fcDirs st
        \<and> PJoin (temp_dir (cfWorkDir cfg) rand) ''v'' @ ''_'' @ dec HostPort \<notin> fcListeners st)"

lemma run_in_dir_effect:
  assumes ok: "kernel_ok vk devs fds groups" and new: "new_pid env groups st"
    and path: "groups (fcKernel st) (group_path spec) = None"
    and dir: "new_dir env cfg st"
    and inv: "net_inv st" and tap: "tapName (jID spec) \<notin> devs (fcKernel st)"
    and run: "run_in_dir vk env cfg spec root n result out st s = (r, e, st', s')"
  shows "same_host devs fds st st' \<and> net_used st' = net_used st
    \<and> (vm_over groups st st' \<or> vm_left env groups (group_path spec) st st')"
proof (cases "veTemp env")
  case (Inl w)
  with run show ?thesis by (simp add: run_in_dir_def same_host_def vm_over_def)
next
  case (Inr rand)
  let ?dir = "temp_dir (cfWorkDir cfg) rand"
  let ?st = "st\<lparr>fcDirs := insert ?dir (fcDirs st)\<rparr>"
  have sock: "PJoin ?dir ''v'' @ ''_'' @ dec HostPort \<notin> fcListeners ?st" and d: "?dir \<notin> fcDirs st"
    using dir Inr by (simp_all add: new_dir_def)
  have new1: "new_pid env groups ?st" and inv1: "net_inv ?st" using new inv by (simp_all add: new_pid_def net_inv_def)
  obtain st1 where st': "st' = st1\<lparr>fcDirs := fcDirs st1 - {?dir}\<rparr>"
    and body: "(\<exists>v m r1 e1 s1. run_limited vk env cfg spec ?dir v m result out ?st s = (r1, e1, st1, s1)) \<or> st1 = ?st"
  proof (rule that)
    let ?body = "case MkfsExt4 (veMkfs env) root (PJoin ?dir ''workspace.ext4'')
          (workspaceImageSize n (clampInt (resDiskMB (jResources spec)) minGuestDiskMB (cfMaxDiskMB cfg))) of
        Some e \<Rightarrow> (result, Some (PrepareDisk e), ?st, s)
      | None \<Rightarrow> run_limited vk env cfg spec ?dir
          (clampInt (resCPU (jResources spec)) minGuestCPUs (cfMaxVCPU cfg))
          (clampInt (resMemoryMB (jResources spec)) minGuestMemoryMB (cfMaxMemoryMB cfg)) result out ?st s"
    let ?st1 = "fst (snd (snd ?body))"
    show "st' = ?st1\<lparr>fcDirs := fcDirs ?st1 - {?dir}\<rparr>"
      using run Inr by (auto simp: run_in_dir_def Let_def split: prod.splits)
    show "(\<exists>v m r1 e1 s1. run_limited vk env cfg spec ?dir v m result out ?st s = (r1, e1, ?st1, s1)) \<or> ?st1 = ?st"
      by (simp split: option.splits) (metis prod.collapse)
  qed
  from body show ?thesis
  proof
    assume "\<exists>v m r1 e1 s1. run_limited vk env cfg spec ?dir v m result out ?st s = (r1, e1, st1, s1)"
    then obtain v m r1 e1 s1 where lim: "run_limited vk env cfg spec ?dir v m result out ?st s = (r1, e1, st1, s1)"
      by blast
    show ?thesis
      using run_limited_effect [OF ok new1 _ sock inv1 _ lim] path tap st' d
      by (simp add: same_host_def net_used_def vm_over_def vm_left_def)
  next
    assume "st1 = ?st"
    with st' d show ?thesis by (simp add: same_host_def net_used_def vm_over_def)
  qed
qed

lemma cancel_vm_effect:
  assumes ok: "kernel_ok vk devs fds groups" and new: "new_pid env groups st"
    and path: "groups (fcKernel st) path = None"
    and same: "same_host devs fds st st1"
    and vm: "vm_over groups st st1 \<or> vm_left env groups path st st1"
  shows "same_host devs fds st (cancel_vm vk env st1) \<and> net_used (cancel_vm vk env st1) = net_used st1
    \<and> fcVMs (cancel_vm vk env st1) = fcVMs st
    \<and> (groups (fcKernel (cancel_vm vk env st1)) = groups (fcKernel st)
       \<or> abandoned env \<and> groups (fcKernel (cancel_vm vk env st1)) = (groups (fcKernel st))(path \<mapsto> {}))"
  using vm
proof
  assume "vm_over groups st st1"
  then have "cancel_vm vk env st1 = st1"
    using new by (auto simp: cancel_vm_def vm_over_def new_pid_def split: sum.splits)
  with \<open>vm_over groups st st1\<close> same show ?thesis by (simp add: vm_over_def)
next
  assume "vm_left env groups path st st1"
  then obtain pid where pid: "veStart env = Inr pid" "fcVMs st1 = insert pid (fcVMs st)" "abandoned env"
    and g1: "groups (fcKernel st1) = (groups (fcKernel st))(path \<mapsto> {word_of_int pid})"
    by (auto simp: vm_left_def)
  have "groups (vkExit vk pid (fcKernel st1)) = (groups (fcKernel st))(path \<mapsto> {})"
  proof
    fix p
    have "groups (fcKernel st) p = Some P \<Longrightarrow> P - {word_of_int pid} = P" for P
      using new pid by (auto simp: new_pid_def)
    then show "groups (vkExit vk pid (fcKernel st1)) p = ((groups (fcKernel st))(path \<mapsto> {})) p"
      unfolding kernel_okD(8) [OF ok] by (cases "groups (fcKernel st) p") (auto simp: g1)
  qed
  moreover have "pid \<notin> fcVMs st" using new pid by (simp add: new_pid_def)
  ultimately show ?thesis
    using same pid by (simp add: cancel_vm_def vm_gone_def signalled_def same_host_def net_used_def
        kernel_okD(6,7) [OF ok])
qed

section \<open>Requests and output\<close>

text \<open>What one run does to the log of API requests and to the output: the requests are a prefix of
  those for the run's configuration, and the output is untouched or what \<^verbatim>\<open>readGuest\<close> made of
  it.\<close>

definition run_traffic ::
  "vm_env \<Rightarrow> (request list \<Rightarrow> bool) \<Rightarrow> 's outputs \<Rightarrow> 'k fc_state \<Rightarrow> 's \<Rightarrow> 'k fc_state \<Rightarrow> 's \<Rightarrow> bool" where
  "run_traffic env reqs out st s st' s' =
     ((fcRequests st' = fcRequests st \<or> (\<exists>rs n. reqs rs \<and> fcRequests st' = fcRequests st @ take n rs))
      \<and> (s' = s \<or> (\<exists>result r e. readGuest maxGuestMessageBytes (veDecode env) (fst out) (fst (snd out))
            (snd (snd out)) (veData env) (veReadErr env) (veCtx env) (veStarted env) (veEnded env) result s
            = (r, e, s'))))"

lemma configureVM_log: "configureVM env api reqs = (r, log) \<Longrightarrow> \<exists>n. log = take n reqs"
proof -
  assume c: "configureVM env api reqs = (r, log)"
  show ?thesis
  proof (cases "WaitForSocket env = Some None")
    case True
    obtain q l where put: "put_all api reqs [] = (q, l)" by fastforce
    then have "log = l" using c True by (auto simp: configureVM_def split: option.splits)
    with put_all_sends [OF put] show ?thesis by (auto simp: acknowledged_def)
  next
    case False
    with c have "log = []" by (auto simp: configureVM_def split: option.splits wait_error.splits)
    then show ?thesis by (intro exI [of _ 0]) simp
  qed
qed

lemma kill_requests [simp]:
  "fcRequests (killProcess vk g pid st) = fcRequests st" "fcRequests (vm_gone vk pid st) = fcRequests st"
  "fcRequests (cancel_vm vk env st) = fcRequests st" "fcRequests (give_back_tap vk tap sub st) = fcRequests st"
  by (auto simp: killProcess_def vm_gone_def signalled_def cancel_vm_def give_back_tap_def
      split: sum.splits option.splits prod.splits)

lemma run_vm_traffic:
  assumes "run_vm vk env limits rs result out st s = (r, e, st', s')" and "P rs"
  shows "run_traffic env P out st s st' s'"
proof -
  obtain wo we art where out: "out = (wo, we, art)" by (cases out) auto
  obtain q log where c: "configureVM (veSock env) (veApi env) rs = (q, log)" by fastforce
  have rq: "fcRequests st' = fcRequests st \<or> fcRequests st' = fcRequests st @ log"
    and "s' = s \<or> (\<exists>r e. readGuest maxGuestMessageBytes (veDecode env) wo we art (veData env)
        (veReadErr env) (veCtx env) (veStarted env) (veEnded env) result s = (r, e, s'))"
    using assms(1) out c
    by (auto simp: run_vm_def Let_def split: sum.splits prod.splits option.splits if_splits)
  moreover have "fcRequests st' = fcRequests st \<or> (\<exists>rs n. P rs \<and> fcRequests st' = fcRequests st @ take n rs)"
    using rq configureVM_log [OF c] assms(2) by metis
  ultimately show ?thesis unfolding run_traffic_def out fst_conv snd_conv by blast
qed

lemma run_traffic_cong:
  assumes "run_traffic env P out st1 s st2 s'" and "fcRequests st1 = fcRequests st" "fcRequests st2 = fcRequests st'"
    and "\<And>rs. P rs \<Longrightarrow> Q rs"
  shows "run_traffic env Q out st s st' s'"
  using assms unfolding run_traffic_def by metis

lemma run_traffic_refl: "fcRequests st' = fcRequests st \<Longrightarrow> run_traffic env P out st s st' s"
  by (simp add: run_traffic_def)

lemma run_listening_traffic:
  assumes "run_listening vk env limits rs vsock result out st s = (r, e, st', s')" and "P rs"
  shows "run_traffic env P out st s st' s'"
proof (cases "veListen env")
  case None
  let ?path = "vsock @ ''_'' @ dec HostPort"
  obtain r1 e1 st1 s1 where vm: "run_vm vk env limits rs result out
      (st\<lparr>fcListeners := insert ?path (fcListeners st)\<rparr>) s = (r1, e1, st1, s1)" by (metis prod_cases4)
  with None assms(1) have "s' = s1" "fcRequests st' = fcRequests st1"
    by (auto simp: run_listening_def Let_def)
  with run_vm_traffic [OF vm, of P] assms(2) show ?thesis by (auto elim: run_traffic_cong)
qed (use assms in \<open>auto simp: run_listening_def Let_def intro: run_traffic_refl\<close>)

text \<open>The requests a run of a job may send.\<close>

definition requests_for :: "FirecrackerConfig \<Rightarrow> job \<Rightarrow> request list \<Rightarrow> bool" where
  "requests_for cfg spec rs =
     (\<exists>dir net. rs = run_requests cfg dir (clampInt (resCPU (jResources spec)) minGuestCPUs (cfMaxVCPU cfg))
        (clampInt (resMemoryMB (jResources spec)) minGuestMemoryMB (cfMaxMemoryMB cfg)) net)"

lemma run_networked_traffic:
  assumes "run_networked vk env cfg spec dir v m limits result out st s = (r, e, st', s')"
    and "\<And>net. P (run_requests cfg dir v m net)"
  shows "run_traffic env P out st s st' s'"
  using assms
  by (auto simp: run_networked_def Let_def split: if_splits option.splits prod.splits sum.splits
      intro!: run_traffic_refl intro: run_listening_traffic
      elim!: run_traffic_cong [OF run_listening_traffic [where P = P]])

lemma run_limited_traffic:
  assumes "run_limited vk env cfg spec dir v m result out st s = (r, e, st', s')"
    and "\<And>net. P (run_requests cfg dir v m net)"
  shows "run_traffic env P out st s st' s'"
  using assms
  by (auto simp: run_limited_def split: prod.splits sum.splits intro!: run_traffic_refl
      elim!: run_traffic_cong [OF run_networked_traffic [where P = P]])

lemma requests_for_run:
  "requests_for cfg spec (run_requests cfg dir (clampInt (resCPU (jResources spec)) minGuestCPUs (cfMaxVCPU cfg))
     (clampInt (resMemoryMB (jResources spec)) minGuestMemoryMB (cfMaxMemoryMB cfg)) net)"
  by (auto simp: requests_for_def)

lemma Firecracker_Run_traffic:
  assumes "Firecracker_Run vk env rid cfg spec root n out st s = (r, e, st', s')"
  shows "run_traffic env (requests_for cfg spec) out st s st' s'"
  using assms
  by (auto simp: Firecracker_Run_def run_in_dir_def Let_def requests_for_run
      split: prod.splits sum.splits option.splits bool.splits if_splits intro!: run_traffic_refl
      elim!: run_traffic_cong [OF run_limited_traffic [where P = "requests_for cfg spec"]])

section \<open>The executor interface\<close>

lemma readGuest_loop:
  "readGuest limit um wo we art data re c t0 t1 result s = (r, e, s') \<Longrightarrow>
     \<exists>x. guest_loop limit um wo we art data s = (x, s')"
  by (auto simp: readGuest_def split: prod.splits loop_exit.splits option.splits)

lemma guest_loop_keeps:
  assumes "\<And>d s r s'. wo d s = (r, s') \<Longrightarrow> I s \<Longrightarrow> I s'" and "\<And>d s r s'. we d s = (r, s') \<Longrightarrow> I s \<Longrightarrow> I s'"
    and "\<And>n d s r s'. f n d s = (r, s') \<Longrightarrow> I s \<Longrightarrow> I s'"
  shows "guest_loop limit um wo we (Some f) data s = (x, s') \<Longrightarrow> I s \<Longrightarrow> I s'"
proof (induction "length data" arbitrary: data s rule: less_induct)
  case less
  show ?case
  proof (cases "scan limit data")
    case (Token line rest)
    note IH = less.hyps [OF scan_smaller [OF Token]]
    note loop = less.prems(1) [unfolded guest_loop.simps [of limit um wo we _ data s] Token scan_result.case]
    show ?thesis
      using loop less.prems(2)
      by (auto split: sum.splits msg_type.splits prod.splits option.splits if_splits
          dest: assms IH)
  qed (use less.prems in \<open>auto simp: guest_loop_end\<close>)
qed

lemma guest_loop_output:
  assumes "guest_loop limit um (write_to EventStdout) (write_to EventStderr) (Some emit_artifact) data s = (x, s')"
  shows "\<exists>evs. skSent s' = skSent s @ evs \<and> list_all output_event evs"
proof -
  obtain evs y where sp: "spec_of limit um True data = (evs, y)" by fastforce
  have "sends_prefix (skSent s) (skSent s') evs x y"
    using sink_out.guest_loop_refines [of limit um True data s x s' evs y] assms sp by simp
  moreover have "list_all output_event evs"
    using sp guest_spec_names [of _ um True]
    by (auto simp: spec_of_def list_all_iff split: prod.splits) (metis fst_conv)
  ultimately show ?thesis
    unfolding sends_prefix_def by (metis append_take_drop_id list_all_append)
qed

text \<open>The executor as the worker sees it, for given states of the executor and the host.\<close>

definition firecracker_runner ::
  "'k vm_kernel \<Rightarrow> vm_env \<Rightarrow> run_id \<Rightarrow> FirecrackerConfig \<Rightarrow> 'k fc_state \<Rightarrow> sink runner" where
  "firecracker_runner vk env rid cfg st spec root used s =
     (case Firecracker_Run vk env rid cfg spec root used
             (write_to EventStdout, write_to EventStderr, Some emit_artifact) st s of
        (r, e, _, s') \<Rightarrow> (r, e, s'))"

lemma firecracker_runner_output:
  assumes "firecracker_runner vk env rid cfg st spec root used s = (r, e, s')"
  shows "s' = s \<or> (\<exists>limit um data x. guest_loop limit um (write_to EventStdout) (write_to EventStderr)
    (Some emit_artifact) data s = (x, s'))"
proof -
  obtain st' where "Firecracker_Run vk env rid cfg spec root used
      (write_to EventStdout, write_to EventStderr, Some emit_artifact) st s = (r, e, st', s')"
    using assms by (auto simp: firecracker_runner_def split: prod.splits)
  from Firecracker_Run_traffic [OF this] show ?thesis
    by (auto simp: run_traffic_def dest!: readGuest_loop)
qed

lemma emit_artifact_counted: "emit_artifact n d s = (r, s') \<Longrightarrow> sink_counted s \<Longrightarrow> sink_counted s'"
  by (auto simp: emit_artifact_def intro: Emit_counted)

lemma guest_loop_counted:
  "guest_loop limit um (write_to t) (write_to u) (Some emit_artifact) data s = (x, s') \<Longrightarrow>
     sink_counted s \<Longrightarrow> sink_counted s'"
  by (rule guest_loop_keeps [where I = sink_counted])
    (assumption | rule write_to_counted emit_artifact_counted)+

lemma emit_artifact_healthy: "emit_artifact n d s = (r, s') \<Longrightarrow> sink_healthy s \<Longrightarrow> sink_healthy s'"
  by (auto simp: emit_artifact_def intro: Emit_healthy)

lemma guest_loop_healthy:
  "guest_loop limit um (write_to t) (write_to u) (Some emit_artifact) data s = (x, s') \<Longrightarrow>
     sink_healthy s \<Longrightarrow> sink_healthy s'"
  by (rule guest_loop_keeps [where I = sink_healthy])
    (assumption | rule write_to_healthy emit_artifact_healthy)+

interpretation firecracker_executor: sink_executor "firecracker_runner vk env rid cfg st"
proof unfold_locales
  fix spec root used s r e s'
  assume run: "firecracker_runner vk env rid cfg st spec root used s = (r, e, s')"
  show "\<exists>evs. skSent s' = skSent s @ evs \<and> list_all output_event evs"
    using firecracker_runner_output [OF run] guest_loop_output by fastforce
  show "sink_counted s \<Longrightarrow> sink_counted s'" and "sink_healthy s \<Longrightarrow> sink_healthy s'"
    using firecracker_runner_output [OF run] guest_loop_counted guest_loop_healthy by blast+
qed

section \<open>Properties\<close>


text \<open>C31. The provider's ceilings.  For a configuration that passes the checks of
  \<^verbatim>\<open>NewFirecracker\<close>, whatever resources the job asks for, every machine configuration sent to
  Firecracker has at least the minimal and at most the provider's number of processors and amount
  of memory, and the only drives attached are the base image, read-only, and the job's own
  workspace image.\<close>

theorem Firecracker_Run_ceilings:
  assumes "check_ceilings cfg = None" and "fcRequests st = []"
    and "Firecracker_Run vk env rid cfg spec root n out st s = (r, e, st', s')"
  shows "(\<forall>p m. (p, BMachine m) \<in> set (fcRequests st') \<longrightarrow>
      1 \<le> mcVCPUCount m \<and> mcVCPUCount m \<le> cfMaxVCPU cfg
      \<and> 128 \<le> mcMemSizeMiB m \<and> mcMemSizeMiB m \<le> cfMaxMemoryMB cfg \<and> \<not> mcSMT m)
    \<and> (\<forall>p d. (p, BDrive d) \<in> set (fcRequests st') \<longrightarrow>
      drPathOnHost d = cfRootfsPath cfg \<and> drIsReadOnly d
      \<or> (\<exists>dir. drPathOnHost d = PJoin dir ''workspace.ext4'') \<and> \<not> drIsRootDevice d)"
proof -
  have "set (fcRequests st') = {} \<or> (\<exists>rs. requests_for cfg spec rs \<and> set (fcRequests st') \<subseteq> set rs)"
    using Firecracker_Run_traffic [OF assms(3)] assms(2) set_take_subset
    by (fastforce simp: run_traffic_def)
  then show ?thesis
  proof
    assume "\<exists>rs. requests_for cfg spec rs \<and> set (fcRequests st') \<subseteq> set rs"
    then obtain dir net where "set (fcRequests st') \<subseteq> set (run_requests cfg dir
        (clampInt (resCPU (jResources spec)) minGuestCPUs (cfMaxVCPU cfg))
        (clampInt (resMemoryMB (jResources spec)) minGuestMemoryMB (cfMaxMemoryMB cfg)) net)"
      by (auto simp: requests_for_def)
    then show ?thesis
      using assms(1)
      by (force simp: run_requests_def vm_requests_def check_ceilings_def clampInt_def minGuestCPUs_def
          minGuestMemoryMB_def split: option.splits if_splits)
  qed simp
qed

section \<open>Witnesses\<close>

definition list_kernel :: "kstate vm_kernel" where
  "list_kernel = \<lparr>vkNl = list_netlink, vkCg = list_cgroups,
     vkExit = (\<lambda>pid k. k\<lparr>ksGroups := map (\<lambda>(p, P). (p, removeAll (word_of_int pid) P)) (ksGroups k)\<rparr>)\<rparr>"

lemma map_of_map_snd: "map_of (map (\<lambda>(p, P). (p, f P)) xs) q = map_option f (map_of xs q)"
  by (induction xs) auto

lemma list_kernel_ok: "kernel_ok list_kernel (\<lambda>k. set (ksDevs k)) (\<lambda>k. set (ksFds k)) group_procs"
  using list_netlink_ok list_netlink_frame list_cgroups_ok list_cgroups_frame
  by (auto simp: kernel_ok_def list_kernel_def group_procs_def map_of_map_snd fun_eq_iff option.map_comp
      o_def set_removeAll intro!: option.map_cong)

definition sample_cfg :: FirecrackerConfig where
  "sample_cfg = \<lparr>cfBinPath = ''/fc'', cfKernelPath = ''/k'', cfRootfsPath = ''/r'', cfWorkDir = ''/w'',
     cfMaxVCPU = 4, cfMaxMemoryMB = 4096, cfMaxDiskMB = 8192, cfMaxEgressMbps = 0, cfMaxEgressPPS = 0,
     cfGuestResolvers = []\<rparr>"

definition sample_env :: vm_env where
  "sample_env = \<lparr>veTemp = Inr ''1'', veMkfs = \<lparr>mkOpen = (\<lambda>_. None), mkTruncate = (\<lambda>_ _. None),
       mkClose = (\<lambda>_. None), mkExec = (\<lambda>_. None)\<rparr>, veListen = None, veStart = Inr 77,
     veGraceful = True, veSock = ready_sock, veApi = (\<lambda>_. HttpStatus 204 []), veAccept = Accepted,
     veSend = None, veData = ''ohi'' @ [CHR 0x0A] @ ''r'' @ [CHR 0x0A], veReadErr = None, veCtx = None,
     veDecode = toy_decode, veStarted = 0, veEnded = 5000000\<rparr>"

definition idle_host :: "kstate fc_state" where
  "idle_host = \<lparr>fcRunning = Map.empty, fcNet = None,
     fcKernel = \<lparr>ksDevs = [], ksFds = [], ksGroups = []\<rparr>, fcDirs = {}, fcListeners = {}, fcVMs = {},
     fcSignals = [], fcRequests = []\<rparr>"

lemma idle_host_pre:
  "new_pid env group_procs idle_host" "new_dir env cfg idle_host" "net_inv idle_host"
  "group_procs (fcKernel idle_host) p = None" "n \<notin> set (ksDevs (fcKernel idle_host))"
  by (simp_all add: new_pid_def new_dir_def net_inv_def idle_host_def group_procs_def)

abbreviation sink_outputs :: "sink outputs" where
  "sink_outputs \<equiv> (write_to EventStdout, write_to EventStderr, Some emit_artifact)"


theorem Firecracker_Run_ceilings_witness:
  "\<exists>r e st' s'. Firecracker_Run list_kernel sample_env 0 sample_cfg sample_job ''/ws'' 0 sink_outputs
      idle_host (NewSink [] False) = (r, e, st', s')
    \<and> list_all (\<lambda>(p, b). case b of BMachine m \<Rightarrow> mcVCPUCount m \<le> 4 | _ \<Rightarrow> True) (fcRequests st')"
proof -
  obtain r e st' s' where run: "Firecracker_Run list_kernel sample_env 0 sample_cfg sample_job ''/ws'' 0
      sink_outputs idle_host (NewSink [] False) = (r, e, st', s')" by (metis prod_cases4)
  have "check_ceilings sample_cfg = None" and "fcRequests idle_host = []" and "cfMaxVCPU sample_cfg = 4"
    by (simp_all add: check_ceilings_def sample_cfg_def idle_host_def minGuestCPUs_def
        minGuestMemoryMB_def minGuestDiskMB_def)
  with Firecracker_Run_ceilings [OF _ _ run] run show ?thesis
    by (auto simp: list_all_iff split: api_body.splits)
qed

lemma ready_sock_ok: "WaitForSocket ready_sock = Some None"
  by code_simp

lemma put_all_204: "put_all (\<lambda>_. HttpStatus 204 []) reqs log = (None, log @ reqs)"
  by (induction reqs arbitrary: log) (simp_all add: Put_def Let_def StatusNoContent_def)

text \<open>The cgroup that stays.  A run in which the guest connects but the job cannot be sent to it
  ends with that error, with the VM killed by the cancelled context and no process left; but the
  cgroup, whose removal was attempted while the VM was still running in it, remains.\<close>

theorem Firecracker_cgroup_left:
  "\<exists>r st' s'. Firecracker_Run list_kernel (sample_env\<lparr>veSend := Some ''broken pipe''\<rparr>) 0 sample_cfg sample_job
      ''/ws'' 0 sink_outputs idle_host (NewSink [] False) = (r, Some (SendJob ''broken pipe''), st', s')
    \<and> fcVMs st' = {} \<and> fcSignals st' = [(77, SIGKILL)]
    \<and> group_procs (fcKernel idle_host) (group_path sample_job) = None
    \<and> group_procs (fcKernel st') (group_path sample_job) = Some {}"
proof -
  have api: "configureVM ready_sock (\<lambda>_. HttpStatus 204 []) reqs = (None, reqs)" for reqs
    by (simp add: configureVM_def ready_sock_ok put_all_204)
  have "jNetwork sample_job \<noteq> ''egress''" by code_simp
  then show ?thesis
    by (simp add: Firecracker_Run_def run_in_dir_def run_limited_def run_networked_def run_listening_def
        run_vm_def Let_def api sample_env_def idle_host_def MkfsExt4_def newJobCgroup_def
        list_kernel_def list_cgroups_def addProcess_def acceptGuest_def jobCgroup_delete_def cancel_vm_def
        vm_gone_def signalled_def Firecracker_register_def group_procs_def group_path_def)
qed

end
