(* ===== verification/Worker.thy ===== *)
theory Worker
  imports Workspace Restricted
begin

text \<open>
  The worker's HTTP handlers (\<^verbatim>\<open>internal/worker/server.go\<close>): \<^verbatim>\<open>handleRun\<close> as a whole, from the
  checks on the request to the last event of the stream, \<^verbatim>\<open>handleJobAction\<close>,
  \<^verbatim>\<open>handleWorkerInfo\<close>, \<^verbatim>\<open>NewServer\<close> and the routing.  A request is what the HTTP server and the
  multipart reader deliver; the JSON decoder is an argument
  (\<open>worker_json\<close> of the theory \<open>Protocol\<close>).  The executor is any function of the
  interface \<open>executor\<close>, the file system is that of \<open>HostFS\<close>.  An error response keeps
  the error value whose text the source sends.

  Concurrency: every request runs on its own goroutine and the handlers share only the slots, a
  buffered channel.  Their interleavings are the step relation \<open>slot_step\<close>.

  The lemmas: the shape of the event stream (in the interface \<open>executor\<close>, so for both
  executors), the restoration of the file system, the number of running jobs, and which requests
  reach the executor.
\<close>

section \<open>Requests and responses\<close>

definition maxJobRequestBytes :: nat where "maxJobRequestBytes = 64 * 1024"
definition maxWorkspaceUploadBytes :: int where "maxWorkspaceUploadBytes = 2 ^ 30"
definition maxWorkspaceFiles :: int where "maxWorkspaceFiles = 100000"
definition maxWorkspaceBytes :: int where "maxWorkspaceBytes = 8 * 2 ^ 30"

record part =
  ptName :: string
  ptData :: bytes
  ptArchive :: archive_stream \<comment> \<open>what \<^verbatim>\<open>Extract\<close> reads from the part\<close>

datatype parts_end = PartsEOF | PartsErr

record http_request =
  rqMethod :: string
  rqPath :: string
  rqMediaType :: "string option" \<comment> \<open>\<^verbatim>\<open>mime.ParseMediaType\<close>\<close>
  rqMultipart :: bool
  rqParts :: "part list"
  rqEnd :: parts_end

datatype err_text =
  Text string | JobText job_error | WsText ws_error | DecodeText string | PlatformText platform

datatype response =
  ErrorReply nat string err_text
| InfoReply worker_info
| NoContent
| MuxNotFound
| Stream "event list"

text \<open>What the JSON decoder makes of the job field, and what follows the first value.\<close>

datatype json_rest = RestEOF | RestValue | RestError

datatype json_job = JsonJob job json_rest | JsonUnknownField string | JsonError

definition decodeJobPart :: "(bytes \<Rightarrow> json_job) \<Rightarrow> bytes \<Rightarrow> err_text + job" where
  "decodeJobPart json d =
     (case json (take (maxJobRequestBytes + 1) d) of
        JsonUnknownField e \<Rightarrow> Inl (DecodeText e)
      | JsonError \<Rightarrow> Inl (Text ''job field is not valid Yonk JSON'')
      | JsonJob j rest \<Rightarrow>
          if rest \<noteq> RestEOF
          then Inl (Text ''job field must contain one JSON value within the size limit'')
          else Inr j)"

definition supports :: "worker_info \<Rightarrow> platform \<Rightarrow> bool" where
  "supports info p = list_ex (\<lambda>c. capPlatform c = p) (wiExecutors info)"

section \<open>Directories\<close>

text \<open>\<^verbatim>\<open>os.RemoveAll\<close>, with a fault that makes it fail.\<close>

definition os_RemoveAll :: "string option \<Rightarrow> string \<Rightarrow> world \<Rightarrow> errno option \<times> world" where
  "os_RemoveAll fault p w =
     (case fault of
        Some e \<Rightarrow> (Some (EFault e), w)
      | None \<Rightarrow>
          (case locate (w_fs w) p of
             Inl _ \<Rightarrow> (None, w)
           | Inr q \<Rightarrow> (None, w\<lparr>w_fs := remove_below q (w_fs w)\<rparr>)))"

text \<open>\<^verbatim>\<open>os.MkdirTemp\<close> tries random names until one is free.\<close>

definition join_path :: "string \<Rightarrow> string \<Rightarrow> string" where
  "join_path dir name = (if dir \<noteq> [] \<and> last dir = slash then dir @ name else dir @ ''/'' @ name)"

fun mkdir_temp :: "string \<Rightarrow> string \<Rightarrow> string list \<Rightarrow> world \<Rightarrow> (errno + string) \<times> world" where
  "mkdir_temp dir pre [] w = (Inl EEXIST, w)"
| "mkdir_temp dir pre (rand # rands) w =
     (let name = join_path dir (pre @ rand) in
      case os_mkdir name 448 w of
        (Inr _, w1) \<Rightarrow> (Inr name, w1)
      | (Inl EEXIST, w1) \<Rightarrow> mkdir_temp dir pre rands w1
      | (Inl e, w1) \<Rightarrow> (Inl e, w1))"

section \<open>Running a job\<close>

text \<open>What differs from run to run on the worker's side: the temporary directory, the random names,
  whether the response can be flushed, which writes to the client fail, and whether the job
  directory can be removed.\<close>

record run_env =
  reTmp :: string
  reRands :: "string list"
  reFlusher :: bool
  reFaults :: "bool list"
  reRemove :: "string option" \<comment> \<open>the fault of removing the job directory\<close>

definition extraction_limits :: "job \<Rightarrow> limits" where
  "extraction_limits spec =
     \<lparr>lMaxFiles = maxWorkspaceFiles,
      lMaxUncompressedBytes =
        (if resDiskMB (jResources spec) < maxWorkspaceBytes div 2 ^ 20
         then wrap64 (resDiskMB (jResources spec) * 2 ^ 20) else maxWorkspaceBytes)\<rparr>"

text \<open>After the executor has returned: the result is completed, the job directory removed, and the
  last events sent.\<close>

definition finish_job ::
  "worker_info \<Rightarrow> (exec_error \<Rightarrow> string) \<Rightarrow> (errno \<Rightarrow> string) \<Rightarrow> string option \<Rightarrow> string \<Rightarrow>
   stats \<Rightarrow> job_result \<Rightarrow> exec_error option \<Rightarrow> sink \<Rightarrow> world \<Rightarrow> sink \<times> world" where
  "finish_job info exec_text errno_text fault dir st result err s w =
     (let result = result\<lparr>rWorker := wiName info, rBytesUploaded := sCompressedBytes st,
                          rBytesDownloaded := DataBytes s\<rparr>
      in case os_RemoveAll fault dir w of
           (Some e, w1) \<Rightarrow>
             (snd (Emit (failure_event ''cleanup_failure'' (''remove job directory: '' @ errno_text e)) s), w1)
         | (None, w1) \<Rightarrow>
             (case Emit (status_event ''cleaned'') s of
                (Some _, s1) \<Rightarrow> (s1, w1)
              | (None, s1) \<Rightarrow>
                  (case err of
                     Some e \<Rightarrow> (snd (Emit (failure_event ''executor_failure'' (exec_text e)) s1), w1)
                   | None \<Rightarrow> (snd (Emit (completion_event result) s1), w1))))"

text \<open>From the first event on.  The result is the stream and the world after the deferred
  clean-up.\<close>

definition stream_job ::
  "worker_info \<Rightarrow> sink runner \<Rightarrow> (exec_error \<Rightarrow> string) \<Rightarrow> (errno \<Rightarrow> string) \<Rightarrow> job \<Rightarrow> string option \<Rightarrow> string \<Rightarrow> string \<Rightarrow>
   stats \<Rightarrow> sink \<Rightarrow> world \<Rightarrow> sink \<times> world" where
  "stream_job info run exec_text errno_text spec fault dir root st s w =
     (let leave = (\<lambda>s. (s, snd (os_RemoveAll fault dir w))) in
      case Emit (status_event ''workspace_ready'') s of
        (Some _, s1) \<Rightarrow> leave s1
      | (None, s1) \<Rightarrow>
          (case Emit (status_event ''running'') s1 of
             (Some _, s2) \<Rightarrow> leave s2
           | (None, s2) \<Rightarrow>
               (case run spec root (sUncompressedBytes st) s2 of
                  (result, err, s3) \<Rightarrow>
                    finish_job info exec_text errno_text fault dir st result err s3 w)))"

text \<open>The part of \<^verbatim>\<open>handleRun\<close> that uses the job directory.  The clean-up is deferred: every return
  passes through it once.\<close>

definition run_in_workspace ::
  "worker_info \<Rightarrow> sink runner \<Rightarrow> (exec_error \<Rightarrow> string) \<Rightarrow> (errno \<Rightarrow> string) \<Rightarrow> run_env \<Rightarrow> job \<Rightarrow>
   string \<Rightarrow> part \<Rightarrow> part list \<Rightarrow> parts_end \<Rightarrow> world \<Rightarrow> response \<times> world" where
  "run_in_workspace info run exec_text errno_text env spec dir wpart extra pend w =
     (let root = PJoin dir ''workspace'';
          reply = (\<lambda>status code msg w. (ErrorReply status code msg, snd (os_RemoveAll (reRemove env) dir w)))
      in case os_mkdir root 448 w of
           (Inl e, w1) \<Rightarrow>
             reply 500 ''workspace_setup_failure'' (Text ''worker could not create workspace'') w1
         | (Inr _, w1) \<Rightarrow>
             (case Extract (ptArchive wpart) root (extraction_limits spec) w1 of
                (Some e, st, w2) \<Rightarrow> reply 400 ''workspace_upload_failure'' (WsText e) w2
              | (None, st, w2) \<Rightarrow>
                  if sCompressedBytes st > maxWorkspaceUploadBytes
                  then reply 413 ''workspace_upload_failure''
                         (Text ''compressed workspace exceeds worker upload limit'') w2
                  else if extra \<noteq> [] \<or> pend \<noteq> PartsEOF
                  then reply 400 ''invalid_request'' (Text ''request contains unexpected multipart fields'') w2
                  else if \<not> reFlusher env
                  then reply 500 ''streaming_unavailable''
                         (Text ''server does not support response streaming'') w2
                  else (case stream_job info run exec_text errno_text spec (reRemove env) dir root st
                               (NewSink (reFaults env) True) w2 of
                          (s, w3) \<Rightarrow> (Stream (skSent s), w3))))"

text \<open>\<^verbatim>\<open>handleRun\<close> once a slot is held: first the checks on the request up to the creation of the job
  directory, which answer with an error or yield the job, its directory and the upload; then the
  run.\<close>

definition admit_run ::
  "(bytes \<Rightarrow> json_job) \<Rightarrow> worker_info \<Rightarrow> run_env \<Rightarrow> http_request \<Rightarrow> world \<Rightarrow>
   (response + job \<times> string \<times> part \<times> part list) \<times> world" where
  "admit_run json info env rq w =
     (if \<not> rqMultipart rq
      then (Inl (ErrorReply 400 ''invalid_request'' (Text ''request is not valid multipart data'')), w)
      else case rqParts rq of
        [] \<Rightarrow> (Inl (ErrorReply 400 ''invalid_request'' (Text ''first multipart field must be job'')), w)
      | jpart # parts \<Rightarrow>
          if ptName jpart \<noteq> ''job''
          then (Inl (ErrorReply 400 ''invalid_request'' (Text ''first multipart field must be job'')), w)
          else case decodeJobPart json (ptData jpart) of
            Inl m \<Rightarrow> (Inl (ErrorReply 400 ''invalid_request'' m), w)
          | Inr spec \<Rightarrow>
              (case Validate spec of
                 Some e \<Rightarrow> (Inl (ErrorReply 400 ''invalid_job'' (JobText e)), w)
               | None \<Rightarrow>
                   if \<not> supports info (jPlatform spec)
                   then (Inl (ErrorReply 422 ''unsupported_platform'' (PlatformText (jPlatform spec))), w)
                   else case parts of
                     [] \<Rightarrow> (Inl (ErrorReply 400 ''workspace_upload_failure''
                              (Text ''second multipart field must be workspace'')), w)
                   | wpart # extra \<Rightarrow>
                       if ptName wpart \<noteq> ''workspace''
                       then (Inl (ErrorReply 400 ''workspace_upload_failure''
                               (Text ''second multipart field must be workspace'')), w)
                       else (case mkdir_temp (reTmp env) (''yonk-job-'' @ jID spec @ ''-'') (reRands env) w of
                               (Inl e, w1) \<Rightarrow>
                                 (Inl (ErrorReply 500 ''workspace_setup_failure''
                                    (Text ''worker could not create job state'')), w1)
                             | (Inr dir, w1) \<Rightarrow> (Inr (spec, dir, wpart, extra), w1))))"

definition serve_run ::
  "(bytes \<Rightarrow> json_job) \<Rightarrow> worker_info \<Rightarrow> sink runner \<Rightarrow> (exec_error \<Rightarrow> string) \<Rightarrow> (errno \<Rightarrow> string) \<Rightarrow>
   run_env \<Rightarrow> http_request \<Rightarrow> world \<Rightarrow> response \<times> world" where
  "serve_run json info run exec_text errno_text env rq w =
     (case admit_run json info env rq w of
        (Inl r, w1) \<Rightarrow> (r, w1)
      | (Inr (spec, dir, wpart, extra), w1) \<Rightarrow>
          run_in_workspace info run exec_text errno_text env spec dir wpart extra (rqEnd rq) w1)"

text \<open>The slots: a buffered channel with a number of elements and a capacity.\<close>

record slots =
  slUsed :: nat
  slCap :: nat

definition handleRun ::
  "(bytes \<Rightarrow> json_job) \<Rightarrow> worker_info \<Rightarrow> sink runner \<Rightarrow> (exec_error \<Rightarrow> string) \<Rightarrow> (errno \<Rightarrow> string) \<Rightarrow>
   run_env \<Rightarrow> http_request \<Rightarrow> slots \<Rightarrow> world \<Rightarrow> response \<times> slots \<times> world" where
  "handleRun json info run exec_text errno_text env rq sl w =
     (if rqMethod rq \<noteq> ''POST''
      then (ErrorReply 405 ''method_not_allowed'' (Text ''method not allowed''), sl, w)
      else if rqMediaType rq \<noteq> Some ''multipart/form-data''
      then (ErrorReply 415 ''unsupported_media_type'' (Text ''content type must be multipart/form-data''), sl, w)
      else if slUsed sl < slCap sl
      then (let sl1 = sl\<lparr>slUsed := slUsed sl + 1\<rparr> in
            case serve_run json info run exec_text errno_text env rq w of
              (r, w1) \<Rightarrow> (r, sl1\<lparr>slUsed := slUsed sl1 - 1\<rparr>, w1))
      else (ErrorReply 503 ''worker_busy'' (Text ''worker has reached its concurrent job limit''), sl, w))"

section \<open>The other handlers\<close>

datatype server_error = NameRequired | ExecutorRequired | LoggerRequired | BadConcurrency

definition NewServer :: "worker_info \<Rightarrow> bool \<Rightarrow> bool \<Rightarrow> int \<Rightarrow> server_error + slots" where
  "NewServer info hasExec hasLogger maxConcurrent =
     (if wiName info = [] then Inl NameRequired
      else if \<not> hasExec then Inl ExecutorRequired
      else if \<not> hasLogger then Inl LoggerRequired
      else if maxConcurrent < 1 then Inl BadConcurrency
      else Inr \<lparr>slUsed = 0, slCap = nat maxConcurrent\<rparr>)"

definition handleWorkerInfo :: "worker_info \<Rightarrow> http_request \<Rightarrow> response" where
  "handleWorkerInfo info rq =
     (if rqMethod rq \<noteq> ''GET'' then ErrorReply 405 ''method_not_allowed'' (Text ''method not allowed'')
      else InfoReply info)"

text \<open>The executor's \<^verbatim>\<open>Kill\<close> is an argument; the response, and the run that is cancelled.\<close>

definition handleJobAction ::
  "(string \<Rightarrow> kill_error + run_id) \<Rightarrow> http_request \<Rightarrow> response \<times> run_id option" where
  "handleJobAction kill rq =
     (if rqMethod rq \<noteq> ''POST'' \<or> \<not> HasSuffix (rqPath rq) '':cancel''
      then (ErrorReply 404 ''not_found'' (Text ''endpoint not found''), None)
      else (let jobID = TrimSuffix (TrimPrefix (rqPath rq) ''/v1/jobs/'') '':cancel'' in
            if jobID = [] \<or> Contains jobID ''/''
            then (ErrorReply 400 ''invalid_job_id'' (Text ''job id is invalid''), None)
            else case kill jobID of
                   Inl _ \<Rightarrow> (ErrorReply 404 ''job_not_running'' (Text ''job is not running''), None)
                 | Inr r \<Rightarrow> (NoContent, Some r)))"

datatype route = RouteInfo | RouteRun | RouteAction | RouteNone

text \<open>The patterns of the mux: two exact paths and one prefix.\<close>

definition route_of :: "string \<Rightarrow> route" where
  "route_of path =
     (if path = ''/v1/worker'' then RouteInfo
      else if path = ''/v1/jobs:run'' then RouteRun
      else if HasPrefix path ''/v1/jobs/'' then RouteAction
      else RouteNone)"

definition Handler ::
  "(bytes \<Rightarrow> json_job) \<Rightarrow> worker_info \<Rightarrow> sink runner \<Rightarrow> (string \<Rightarrow> kill_error + run_id) \<Rightarrow>
   (exec_error \<Rightarrow> string) \<Rightarrow> (errno \<Rightarrow> string) \<Rightarrow> run_env \<Rightarrow> http_request \<Rightarrow> slots \<Rightarrow> world \<Rightarrow>
   response \<times> run_id option \<times> slots \<times> world" where
  "Handler json info run kill exec_text errno_text env rq sl w =
     (case route_of (rqPath rq) of
        RouteInfo \<Rightarrow> (handleWorkerInfo info rq, None, sl, w)
      | RouteRun \<Rightarrow>
          (case handleRun json info run exec_text errno_text env rq sl w of (r, sl1, w1) \<Rightarrow> (r, None, sl1, w1))
      | RouteAction \<Rightarrow> (case handleJobAction kill rq of (r, victim) \<Rightarrow> (r, victim, sl, w))
      | RouteNone \<Rightarrow> (MuxNotFound, None, sl, w))"

text \<open>The status line of a response.\<close>

fun response_status :: "response \<Rightarrow> nat" where
  "response_status (ErrorReply status _ _) = status"
| "response_status (InfoReply _) = 200"
| "response_status NoContent = 204"
| "response_status MuxNotFound = 404"
| "response_status (Stream _) = 200"

section \<open>The event stream\<close>

text \<open>The events that end a stream, for the executor's result and error.\<close>

definition end_events ::
  "worker_info \<Rightarrow> (exec_error \<Rightarrow> string) \<Rightarrow> int \<Rightarrow> int \<Rightarrow> job_result \<Rightarrow> exec_error option \<Rightarrow> event list \<Rightarrow> bool" where
  "end_events info exec_text uploaded downloaded result err evs =
     ((err = None \<and> evs = [status_event ''cleaned'', completion_event (result\<lparr>rWorker := wiName info,
          rBytesUploaded := uploaded, rBytesDownloaded := downloaded\<rparr>)])
      \<or> (\<exists>e. err = Some e \<and> evs = [status_event ''cleaned'', failure_event ''executor_failure'' (exec_text e)])
      \<or> (\<exists>m. evs = [failure_event ''cleanup_failure'' m]))"

definition job_stream ::
  "worker_info \<Rightarrow> (exec_error \<Rightarrow> string) \<Rightarrow> int \<Rightarrow> job_result \<Rightarrow> exec_error option \<Rightarrow> event list \<Rightarrow> event list \<Rightarrow> bool" where
  "job_stream info exec_text uploaded result err outs evs =
     (list_all output_event outs
      \<and> (\<exists>fin. end_events info exec_text uploaded (wrap64 (sent_bytes outs)) result err fin
           \<and> evs = [status_event ''workspace_ready'', status_event ''running''] @ outs @ fin))"

text \<open>The stream of a request: the job is the one in its first field, the workspace what the archive
  in its second extracts to, and the result what the executor returns for them.\<close>

definition request_stream ::
  "(bytes \<Rightarrow> json_job) \<Rightarrow> worker_info \<Rightarrow> sink runner \<Rightarrow> (exec_error \<Rightarrow> string) \<Rightarrow> http_request \<Rightarrow>
   event list \<Rightarrow> event list \<Rightarrow> bool" where
  "request_stream json info run exec_text rq outs evs =
     (\<exists>jpart wpart spec root w1 st w2 s result err s'.
        rqParts rq = [jpart, wpart] \<and> decodeJobPart json (ptData jpart) = Inr spec
        \<and> Extract (ptArchive wpart) root (extraction_limits spec) w1 = (None, st, w2)
        \<and> run spec root (sUncompressedBytes st) s = (result, err, s')
        \<and> job_stream info exec_text (sCompressedBytes st) result err outs evs)"

lemma Emit_sent:
  "Emit ev s = (r, s') \<Longrightarrow> skSent s' = (if r = None then skSent s @ [ev] else skSent s)"
  by (auto elim: Emit_cases)

lemma sent_bytes_Cons: "sent_bytes (ev # evs) = int (length (evData ev)) + sent_bytes evs"
  by (simp add: sent_bytes_def)

lemma evData_events [simp]:
  "evData (status_event x) = []" "evData (completion_event r) = []" "evData (failure_event c m) = []"
  by (simp_all add: status_event_def completion_event_def failure_event_def)

definition final_events ::
  "worker_info \<Rightarrow> (exec_error \<Rightarrow> string) \<Rightarrow> (errno \<Rightarrow> string) \<Rightarrow> errno option \<Rightarrow> stats \<Rightarrow> job_result \<Rightarrow>
   exec_error option \<Rightarrow> sink \<Rightarrow> event list" where
  "final_events info ext ert ce st r err s =
     (case ce of
        Some e \<Rightarrow> [failure_event ''cleanup_failure'' (''remove job directory: '' @ ert e)]
      | None \<Rightarrow> [status_event ''cleaned'',
          (case err of
             Some e \<Rightarrow> failure_event ''executor_failure'' (ext e)
           | None \<Rightarrow> completion_event (r\<lparr>rWorker := wiName info, rBytesUploaded := sCompressedBytes st,
                       rBytesDownloaded := DataBytes s\<rparr>))])"

lemma final_events_end:
  "end_events info ext (sCompressedBytes st) (DataBytes s) r err (final_events info ext ert ce st r err s)"
  unfolding end_events_def final_events_def by (cases ce; cases err) auto

lemma finish_job_sends:
  assumes "finish_job info ext ert fault dir st r err s w = (s', w')" and "os_RemoveAll fault dir w = (ce, w1)"
  shows "w' = w1 \<and> (\<exists>n \<le> length (final_events info ext ert ce st r err s).
      skSent s' = skSent s @ take n (final_events info ext ert ce st r err s)
      \<and> (sink_healthy s \<longrightarrow> n = length (final_events info ext ert ce st r err s)))"
proof (cases ce)
  case (Some x)
  let ?f = "failure_event ''cleanup_failure'' (''remove job directory: '' @ ert x)"
  obtain q s1 where e: "Emit ?f s = (q, s1)" by fastforce
  with assms Some have "s' = s1" "w' = w1" by (simp_all add: finish_job_def Let_def)
  then show ?thesis
    using Emit_sent [OF e] Emit_healthy_ok [of s ?f] e Some
    by (intro conjI exI [of _ "if q = None then 1 else 0"]) (auto simp: final_events_def)
next
  case None
  let ?l = "case err of Some e \<Rightarrow> failure_event ''executor_failure'' (ext e)
    | None \<Rightarrow> completion_event (r\<lparr>rWorker := wiName info, rBytesUploaded := sCompressedBytes st,
        rBytesDownloaded := DataBytes s\<rparr>)"
  obtain q1 s1 where e1: "Emit (status_event ''cleaned'') s = (q1, s1)" by fastforce
  obtain q2 s2 where e2: "Emit ?l s1 = (q2, s2)" by fastforce
  have s': "s' = (if q1 = None then s2 else s1)" "w' = w1"
    using assms None e1 e2 by (auto simp: finish_job_def Let_def split: option.splits)
  have "sink_healthy s \<longrightarrow> q1 = None \<and> q2 = None"
    using Emit_healthy_ok [of s "status_event ''cleaned''"] Emit_healthy [OF e1] Emit_healthy_ok [of s1 ?l] e1 e2
    by simp
  then show ?thesis
    using s' Emit_sent [OF e1] Emit_sent [OF e2] None
    by (intro conjI exI [of _ "if q1 = None then if q2 = None then 2 else 1 else 0"])
      (auto simp: final_events_def)
qed

context sink_executor
begin

lemma stream_job_shape:
  assumes "stream_job info run ext ert spec fault dir root st (NewSink faults True) w = (s', w')"
  shows "\<exists>s r err s3 outs evs n. run spec root (sUncompressedBytes st) s = (r, err, s3)
    \<and> job_stream info ext (sCompressedBytes st) r err outs evs \<and> skSent s' = take n evs
    \<and> (faults = [] \<longrightarrow> n = length evs)"
proof -
  let ?s = "NewSink faults True"
  let ?ready = "status_event ''workspace_ready''" and ?running = "status_event ''running''"
  obtain q1 s1 where e1: "Emit ?ready ?s = (q1, s1)" by fastforce
  obtain q2 s2 where e2: "Emit ?running s1 = (q2, s2)" by fastforce
  obtain r err s3 where run: "run spec root (sUncompressedBytes st) s2 = (r, err, s3)" by (metis prod_cases3)
  obtain outs where outs: "skSent s3 = skSent s2 @ outs" "list_all output_event outs"
    using counted.run_appends [OF run] by blast
  have cnt: "sink_counted s3"
    using counted.run_keeps [OF run] Emit_counted [OF e2] Emit_counted [OF e1] NewSink_counted by blast
  have s0: "skSent ?s = []" by (simp add: NewSink_def)
  obtain ce w1 where rm: "os_RemoveAll fault dir w = (ce, w1)" by fastforce
  let ?fin = "final_events info ext ert ce st r err s3"
  have good: "faults = [] \<Longrightarrow> q1 = None \<and> q2 = None \<and> sink_healthy s3"
    using Emit_healthy_ok [of ?s ?ready] Emit_healthy [OF e1] Emit_healthy_ok [of s1 ?running]
      Emit_healthy [OF e2] healthy.run_keeps [OF run] e1 e2 by simp
  show ?thesis
  proof (cases "q1 = None \<and> q2 = None")
    case False
    let ?evs = "[?ready, ?running] @ [] @ [failure_event ''cleanup_failure'' []]"
    have "skSent s' = take (if q1 = None then 1 else 0) ?evs"
      using False assms e1 e2 Emit_sent [OF e1] Emit_sent [OF e2] s0
      by (auto simp: stream_job_def Let_def split: option.splits)
    moreover have "job_stream info ext (sCompressedBytes st) r err [] ?evs"
      by (auto simp: job_stream_def end_events_def)
    ultimately show ?thesis using False good run by blast
  next
    case True
    have pre: "skSent s3 = [?ready, ?running] @ outs"
      using True Emit_sent [OF e1] Emit_sent [OF e2] s0 outs by simp
    then have "DataBytes s3 = wrap64 (sent_bytes outs)"
      using cnt by (simp add: sink_counted_def DataBytes_def sent_bytes_Cons)
    then have shape: "job_stream info ext (sCompressedBytes st) r err outs ([?ready, ?running] @ outs @ ?fin)"
      using outs(2) final_events_end [of info ext st s3 r err ert ce] by (auto simp: job_stream_def)
    have "finish_job info ext ert fault dir st r err s3 w = (s', w')"
      using assms e1 e2 run True by (simp add: stream_job_def Let_def)
    from finish_job_sends [OF this rm] obtain n where "n \<le> length ?fin" "skSent s' = skSent s3 @ take n ?fin"
      "sink_healthy s3 \<longrightarrow> n = length ?fin" by blast
    then show ?thesis
      using shape pre good run
      by (intro exI [of _ s2] exI [of _ r] exI [of _ err] exI [of _ s3] exI [of _ outs] exI [of _ "[?ready, ?running] @ outs @ ?fin"]
          exI [of _ "length ([?ready, ?running] @ outs) + n"]) auto
  qed
qed

end

section \<open>The file system after a request\<close>

lemma remove_below_lookup: "map_of (remove_below q f) p = (if prefix q p then None else map_of f p)"
  by (induction f) (auto simp: remove_below_def)

lemma wf_absent_below:
  assumes "wf_fs f" and "map_of f q = None" and "q \<noteq> []" and "prefix q p"
  shows "map_of f p = None"
proof -
  obtain ns where p: "p = q @ ns" using assms(4) by (auto simp: prefix_def)
  have "map_of f (q @ ns) = None \<and> (q @ ns \<noteq> [] \<longrightarrow> \<not> is_dir f (q @ ns))" for ns
  proof (induction ns rule: rev_induct)
    case Nil
    with assms(2,3) show ?case by (simp add: is_dir_def)
  next
    case (snoc c ns)
    then have "\<not> is_dir f (q @ ns)" using assms(3) by simp
    with wf_fs_parent [OF assms(1), of "q @ ns" c] have "map_of f (q @ ns @ [c]) = None"
      by (cases "map_of f (q @ ns @ [c])") auto
    then show ?case by (simp add: is_dir_def)
  qed
  with p show ?thesis by simp
qed

lemma RemoveAll_restores:
  assumes "wf_fs f" and "map_of f q = None" and "q \<noteq> []"
    and "extends f (w_fs w) {p. prefix q p}" and "locate (w_fs w) dir = Inr q"
    and "os_RemoveAll None dir w = (e, w')"
  shows "e = None \<and> map_of (w_fs w') = map_of f"
proof -
  have "e = None" and w': "w_fs w' = remove_below q (w_fs w)" using assms(5,6) by (auto simp: os_RemoveAll_def)
  moreover have "map_of (w_fs w') p = map_of f p" for p
  proof (cases "prefix q p")
    case True
    with wf_absent_below [OF assms(1-3)] show ?thesis by (simp add: w' remove_below_lookup)
  next
    case False
    with extends_outside [OF assms(4), of p] show ?thesis by (simp add: w' remove_below_lookup)
  qed
  ultimately show ?thesis by auto
qed

text \<open>The temporary directory, where it is, and that it is new.\<close>

lemma join_path_render:
  assumes "list_all is_name cs" and "is_name n"
  shows "join_path (render True cs) n = render True (cs @ [n])"
proof (cases "cs = []")
  case True
  then show ?thesis by (simp add: join_path_def render_def)
next
  case False
  then obtain ys x where cs: "cs = ys @ [x]" by (metis rev_exhaust)
  then have x: "x \<noteq> []" "slash \<notin> set x" using assms(1) by (auto simp: is_name_def)
  have "Join slash cs = (if ys = [] then x else Join slash ys @ slash # x)"
    by (simp add: cs Join_append)
  then have "last (render True cs) = last x" using x by (simp add: render_def)
  then have "last (render True cs) \<noteq> slash" using x by (metis last_in_set)
  with False show ?thesis by (simp add: join_path_def render_def Join_append)
qed

lemma job_dir_name:
  assumes "validID i" and "list_all is_digit rand"
  shows "is_name (''yonk-job-'' @ i @ ''-'' @ rand)"
proof -
  have "\<not> id_char slash" "\<not> is_digit slash" by code_simp+
  then have "slash \<notin> set i" "slash \<notin> set rand"
    using assms by (auto simp: validID_def list_all_iff split: if_splits)
  then show ?thesis by (simp add: is_name_def)
qed

lemma mkdir_temp_cases:
  assumes "mkdir_temp dir pre rands w = (r, w')"
  obtains (fail) e where "r = Inl e" and "w_fs w' = w_fs w"
  | (made) rand q where "rand \<in> set rands" and "r = Inr (join_path dir (pre @ rand))"
      and "locate (w_fs w) (join_path dir (pre @ rand)) = Inr q" and "q \<noteq> []"
      and "map_of (w_fs w) q = None" and "w_fs w' = (q, NDir 448) # w_fs w"
  using assms
proof (induction rands arbitrary: w thesis)
  case (Cons rand rands)
  obtain x w1 where mk: "os_create (join_path dir (pre @ rand)) (NDir 448) w = (x, w1)" by fastforce
  from mk show thesis
  proof (cases rule: os_create_cases)
    case (ok q)
    with Cons.prems(3) mk show thesis by (intro Cons.prems(2) [of rand q]) (auto simp: os_mkdir_def Let_def)
  next
    case (fail e)
    show thesis
    proof (cases "e = EEXIST")
      case True
      with Cons.prems(3) mk fail have rec: "mkdir_temp dir pre rands w1 = (r, w')" by (simp add: os_mkdir_def Let_def)
      show thesis
      proof (rule Cons.IH [OF _ _ rec])
        show thesis if "r = Inl e'" "w_fs w' = w_fs w1" for e'
          using Cons.prems(1) that fail(2) by simp
        show thesis if "rand' \<in> set rands" "r = Inr (join_path dir (pre @ rand'))"
          "locate (w_fs w1) (join_path dir (pre @ rand')) = Inr q" "q \<noteq> []" "map_of (w_fs w1) q = None"
          "w_fs w' = (q, NDir 448) # w_fs w1" for rand' q
          using Cons.prems(2) [of rand' q] that fail(2) by simp
      qed
    next
      case False
      with Cons.prems(3) mk fail show thesis
        by (intro Cons.prems(1) [of e]) (auto simp: os_mkdir_def Let_def split: errno.splits)
    qed
  qed
qed auto

lemma stream_job_world: "snd (stream_job info run ext ert spec fault dir root st s w) = snd (os_RemoveAll fault dir w)"
  by (simp add: stream_job_def finish_job_def Let_def split: prod.splits option.splits)

text \<open>What \<open>run_in_workspace\<close> leaves is what \<^verbatim>\<open>RemoveAll\<close> leaves of a world that grew below the job
  directory only.\<close>

lemma run_in_workspace_world:
  assumes dir: "at_dir (w_fs w) cs D" "list_all is_name cs" "dir = render True cs" "cs \<noteq> []"
    and run: "run_in_workspace info run ext ert env spec dir wpart extra pend w = (r, w')"
  shows "\<exists>w2. extends (w_fs w) (w_fs w2) {p. prefix D p} \<and> w' = snd (os_RemoveAll (reRemove env) dir w2)"
proof -
  have root: "PJoin dir ''workspace'' = render True (cs @ [''workspace''])"
    using dir PJoin_names [of dir "[''workspace'']"] by (simp add: IsAbs_render comps_render clean_list_names is_name_def)
  have names: "list_all is_name (cs @ [''workspace''])" using dir(2) by (simp add: is_name_def)
  obtain x w1 where mk: "os_create (PJoin dir ''workspace'') (NDir 448) w = (x, w1)" by fastforce
  have loc: "locate (w_fs w) (PJoin dir ''workspace'') = Inr (D @ [''workspace''])"
    unfolding root by (rule at_dir_locate [OF dir(1) names])
  have ext1: "extends (w_fs w) (w_fs w1) {p. prefix D p}" by (rule os_create_extends [OF mk loc]) simp
  show ?thesis
  proof (cases x)
    case (Inl e)
    with run mk ext1 show ?thesis by (auto simp: run_in_workspace_def os_mkdir_def Let_def)
  next
    case (Inr q)
    from mk have fs1: "w_fs w1 = (D @ [''workspace''], NDir 448) # w_fs w"
      by (cases rule: os_create_cases) (use Inr loc in auto)
    have "at_dir (w_fs w1) (cs @ [''workspace'']) (D @ [''workspace''])"
      by (rule at_dir_snoc [OF at_dir_mono [OF ext1 dir(1)]]) (simp_all add: is_name_def is_dir_def fs1)
    then have res: "resolve (w_fs w1) (PJoin dir ''workspace'') = Inr (D @ [''workspace''])"
      using names by (simp add: root at_dir_resolve)
    have cl: "clean_abs (PJoin dir ''workspace'')"
      using names by (simp add: clean_abs_def root IsAbs_render Clean_render clean_list_names)
    obtain e st w2 where ex: "Extract (ptArchive wpart) (PJoin dir ''workspace'') (extraction_limits spec) w1 = (e, st, w2)"
      by (metis prod_cases3)
    have "below (D @ [''workspace'']) \<subseteq> {p. prefix D p}" by (auto simp: below_def)
    then have "extends (w_fs w1) (w_fs w2) {p. prefix D p}"
      using Extract_extends [OF cl res ex] by (blast intro: extends_mono)
    then have "extends (w_fs w) (w_fs w2) {p. prefix D p}" using ext1 by (blast intro: extends_trans)
    moreover have "w' = snd (os_RemoveAll (reRemove env) dir w2)"
      using run mk Inr ex stream_job_world
      by (auto simp: run_in_workspace_def os_mkdir_def Let_def split: option.splits if_splits prod.splits)
        (metis snd_conv)+
    ultimately show ?thesis by blast
  qed
qed

lemma admit_run_Inl:
  "admit_run json info env rq w = (Inl r, w1) \<Longrightarrow> w_fs w1 = w_fs w \<and> (\<exists>st code m. r = ErrorReply st code m)"
  by (auto simp: admit_run_def elim: mkdir_temp_cases
      split: if_splits list.splits sum.splits option.splits prod.splits)

lemma admit_run_Inr:
  assumes "admit_run json info env rq w = (Inr (spec, dir, wpart, extra), w1)"
  shows "Validate spec = None" and "supports info (jPlatform spec)"
    and "\<exists>jpart. rqParts rq = jpart # wpart # extra \<and> decodeJobPart json (ptData jpart) = Inr spec"
    and "mkdir_temp (reTmp env) (''yonk-job-'' @ jID spec @ ''-'') (reRands env) w = (Inr dir, w1)"
  using assms
  by (auto simp: admit_run_def split: if_splits list.splits sum.splits option.splits prod.splits)

lemma serve_run_restores:
  assumes tmp: "clean_abs tmp" "resolve (w_fs w) tmp = Inr T" "is_dir (w_fs w) T"
    and wf: "wf_fs (w_fs w)" and env: "reTmp env = tmp" "reRemove env = None"
    and rands: "list_all (list_all is_digit) (reRands env)"
    and run: "serve_run json info run ext ert env rq w = (r, w')"
  shows "map_of (w_fs w') = map_of (w_fs w)"
proof (cases "w_fs w' = w_fs w")
  case False
  then obtain spec wpart extra dir w1 where
    adm: "admit_run json info env rq w = (Inr (spec, dir, wpart, extra), w1)"
    and go: "run_in_workspace info run ext ert env spec dir wpart extra (rqEnd rq) w1 = (r, w')"
    using run by (auto simp: serve_run_def split: sum.splits prod.splits dest: admit_run_Inl)
  note valid = admit_run_Inr(1) [OF adm] and mk = admit_run_Inr(4) [OF adm, unfolded env]
  from mk obtain rand q where rand: "rand \<in> set (reRands env)"
    and dir: "dir = join_path tmp (''yonk-job-'' @ jID spec @ ''-'' @ rand)"
    and loc: "locate (w_fs w) dir = Inr q" and q: "q \<noteq> []" "map_of (w_fs w) q = None"
    and fs1: "w_fs w1 = (q, NDir 448) # w_fs w"
    by (cases rule: mkdir_temp_cases) auto
  let ?n = "''yonk-job-'' @ jID spec @ ''-'' @ rand"
  have "list_all is_digit rand" using rands rand by (auto simp: list_all_iff)
  moreover have "validID (jID spec)" using valid by (auto simp: Validate_def split: if_splits)
  ultimately have n: "is_name ?n" using job_dir_name by blast
  note R = clean_absD [OF tmp(1)]
  have at: "at_dir (w_fs w) (comps tmp) T" using tmp R by (simp add: at_dir_resolve)
  have d: "dir = render True (comps tmp @ [?n])" using join_path_render [OF R(2) n] R(1) dir by simp
  have names: "list_all is_name (comps tmp @ [?n])" using R(2) n by simp
  have qT: "q = T @ [?n]" using at_dir_locate [OF at names] loc d by simp
  have ext1: "extends (w_fs w) (w_fs w1) {p. prefix q p}"
    using q by (auto simp: extends_def fs1 map_le_upd_fresh)
  have at1: "at_dir (w_fs w1) (comps tmp @ [?n]) q"
    unfolding qT by (rule at_dir_snoc [OF at_dir_mono [OF ext1 at] n]) (simp add: is_dir_def fs1 qT)
  obtain w2 where w2: "extends (w_fs w1) (w_fs w2) {p. prefix q p}"
    and w': "w' = snd (os_RemoveAll None dir w2)"
    using run_in_workspace_world [OF at1 names d _ go] env(2) by auto
  have ext2: "extends (w_fs w) (w_fs w2) {p. prefix q p}" using ext1 w2 by (rule extends_trans)
  have "locate (w_fs w2) dir = Inr q" unfolding qT d by (rule at_dir_locate [OF at_dir_mono [OF ext2 at] names])
  then show ?thesis
    using RemoveAll_restores [OF wf q(2,1) ext2, of dir] w' by (metis prod.collapse)
qed simp

section \<open>Slots\<close>

text \<open>Requests take a slot, run, and give it back, in any interleaving.  \<open>busy\<close> is a request
  that finds no slot.\<close>

inductive slot_step :: "slots \<times> nat list \<Rightarrow> slots \<times> nat list \<Rightarrow> bool" where
  acquire: "slUsed sl < slCap sl \<Longrightarrow> i \<notin> set act \<Longrightarrow>
    slot_step (sl, act) (sl\<lparr>slUsed := slUsed sl + 1\<rparr>, i # act)"
| busy: "\<not> slUsed sl < slCap sl \<Longrightarrow> slot_step (sl, act) (sl, act)"
| give: "i \<in> set act \<Longrightarrow> slot_step (sl, act) (sl\<lparr>slUsed := slUsed sl - 1\<rparr>, remove1 i act)"

inductive slots_reach :: "int \<Rightarrow> slots \<times> nat list \<Rightarrow> bool" for n where
  start: "NewServer info True True n = Inr sl \<Longrightarrow> slots_reach n (sl, [])"
| step: "slots_reach n x \<Longrightarrow> slot_step x y \<Longrightarrow> slots_reach n y"

inductive_cases slot_stepE: "slot_step x y"

lemma slots_inv:
  "slots_reach n x \<Longrightarrow> slUsed (fst x) = length (snd x) \<and> slCap (fst x) = nat n \<and> 1 \<le> n
     \<and> length (snd x) \<le> nat n \<and> distinct (snd x)"
proof (induction rule: slots_reach.induct)
  case (start info sl)
  then show ?case by (auto simp: NewServer_def split: if_splits)
next
  case (step x y)
  from step(2) show ?case
    by cases (use step in \<open>auto simp: length_remove1\<close>)
qed

section \<open>Properties\<close>

lemma handleRun_cases:
  assumes "handleRun json info run ext ert env rq sl w = (r, sl', w')"
  shows "sl' = sl \<and> ((w' = w \<and> (\<exists>st code m. r = ErrorReply st code m)) \<or>
    slUsed sl < slCap sl \<and> rqMethod rq = ''POST'' \<and> serve_run json info run ext ert env rq w = (r, w'))"
  using assms by (auto simp: handleRun_def Let_def split: if_splits prod.splits)

lemma run_in_workspace_Stream:
  assumes "run_in_workspace info run ext ert env spec dir wpart extra pend w = (Stream evs, w')"
  obtains root w1 st w2 s where "extra = []"
    and "Extract (ptArchive wpart) root (extraction_limits spec) w1 = (None, st, w2)"
    and "stream_job info run ext ert spec (reRemove env) dir root st (NewSink (reFaults env) True) w2 = (s, w')"
    and "evs = skSent s"
  using assms
  by (auto simp: run_in_workspace_def Let_def split: sum.splits prod.splits option.splits if_splits)

lemma serve_run_Stream:
  assumes "serve_run json info run ext ert env rq w = (Stream evs, w')"
  obtains spec dir wpart extra w1 where "admit_run json info env rq w = (Inr (spec, dir, wpart, extra), w1)"
    and "run_in_workspace info run ext ert env spec dir wpart extra (rqEnd rq) w1 = (Stream evs, w')"
  using assms by (auto simp: serve_run_def split: sum.splits prod.splits dest: admit_run_Inl)

text \<open>An error response does not depend on the executor.\<close>

lemma run_in_workspace_error:
  assumes "run_in_workspace info run ext ert env spec dir wpart extra pend w = (r, w')" and "\<nexists>evs. r = Stream evs"
  shows "run_in_workspace info run' ext ert env spec dir wpart extra pend w = (r, w')"
proof -
  obtain x w1 where mk: "os_mkdir (PJoin dir ''workspace'') 448 w = (x, w1)" by fastforce
  obtain e st w2 where ex: "Extract (ptArchive wpart) (PJoin dir ''workspace'') (extraction_limits spec) w1 = (e, st, w2)"
    by (metis prod_cases3)
  obtain s w3 where "stream_job info run ext ert spec (reRemove env) dir (PJoin dir ''workspace'') st
      (NewSink (reFaults env) True) w2 = (s, w3)" by fastforce
  with assms mk ex show ?thesis
    by (cases x; cases e) (auto simp: run_in_workspace_def Let_def split: if_splits)
qed

lemma serve_run_error:
  assumes "serve_run json info run ext ert env rq w = (r, w')" and "\<nexists>evs. r = Stream evs"
  shows "serve_run json info run' ext ert env rq w = (r, w')"
  using assms run_in_workspace_error [of info run ext ert env _ _ _ _ _ _ r w' run']
  by (auto simp: serve_run_def split: sum.splits prod.splits)

lemma handleRun_shape:
  assumes ex: "sink_executor run" and run: "handleRun json info run ext ert env rq sl w = (Stream evs, sl', w')"
  obtains outs whole n where "request_stream json info run ext rq outs whole" and "evs = take n whole"
    and "reFaults env = [] \<longrightarrow> evs = whole"
proof -
  have "serve_run json info run ext ert env rq w = (Stream evs, w')" using handleRun_cases [OF run] by auto
  then obtain spec dir wpart extra w0 where adm: "admit_run json info env rq w = (Inr (spec, dir, wpart, extra), w0)"
    and go: "run_in_workspace info run ext ert env spec dir wpart extra (rqEnd rq) w0 = (Stream evs, w')"
    by (rule serve_run_Stream)
  from go obtain root w1 st w2 s where extra: "extra = []"
    and x: "Extract (ptArchive wpart) root (extraction_limits spec) w1 = (None, st, w2)"
    and sj: "stream_job info run ext ert spec (reRemove env) dir root st (NewSink (reFaults env) True) w2 = (s, w')"
    and evs: "evs = skSent s" by (rule run_in_workspace_Stream)
  from sink_executor.stream_job_shape [OF ex sj] obtain s0 r err s3 outs whole n where
    "run spec root (sUncompressedBytes st) s0 = (r, err, s3)"
    and "job_stream info ext (sCompressedBytes st) r err outs whole" and n: "skSent s = take n whole"
      "reFaults env = [] \<longrightarrow> n = length whole" by blast
  then have "request_stream json info run ext rq outs whole"
    unfolding request_stream_def using admit_run_Inr(3) [OF adm] extra x by blast
  then show ?thesis using that n evs by simp
qed


text \<open>C9. A request leaves nothing behind.  Whatever the request and its archive hold, whichever system
  call but the removal itself fails, and whatever the executor (which has no file-system effects of
  its own in this model) returns, when \<^verbatim>\<open>handleRun\<close> returns the worker's file system is what it was
  before the request, node for node, and the slot it may have taken is free again.\<close>

theorem handleRun_restores:
  assumes "clean_abs (reTmp env)" and "resolve (w_fs w) (reTmp env) = Inr T" and "is_dir (w_fs w) T"
    and "wf_fs (w_fs w)" and "reRemove env = None" and "list_all (list_all is_digit) (reRands env)"
    and "handleRun json info run ext ert env rq sl w = (r, sl', w')"
  shows "map_of (w_fs w') = map_of (w_fs w) \<and> sl' = sl"
  using handleRun_cases [OF assms(7)] serve_run_restores [OF assms(1-4) refl assms(5,6)] by auto


text \<open>C25. What reaches the executor.  A stream is started only for a \<^verbatim>\<open>POST\<close> whose first field decodes
  to one job that passes validation and whose platform the worker supports; every other request is
  answered with an error, and the answer does not depend on the executor at all.\<close>

theorem handleRun_admits:
  assumes "handleRun json info run ext ert env rq sl w = (r, sl', w')"
  shows "((\<exists>evs. r = Stream evs) \<longrightarrow> rqMethod rq = ''POST'' \<and> (\<exists>jpart parts spec. rqParts rq = jpart # parts
      \<and> decodeJobPart json (ptData jpart) = Inr spec \<and> Validate spec = None \<and> supports info (jPlatform spec)))
    \<and> ((\<nexists>evs. r = Stream evs) \<longrightarrow> handleRun json info run' ext ert env rq sl w = (r, sl', w'))"
proof
  show "(\<exists>evs. r = Stream evs) \<longrightarrow> rqMethod rq = ''POST'' \<and> (\<exists>jpart parts spec. rqParts rq = jpart # parts
      \<and> decodeJobPart json (ptData jpart) = Inr spec \<and> Validate spec = None \<and> supports info (jPlatform spec))"
  proof
    assume "\<exists>evs. r = Stream evs"
    then obtain evs where post: "rqMethod rq = ''POST''" and sr: "serve_run json info run ext ert env rq w = (Stream evs, w')"
      using handleRun_cases [OF assms] by auto
    from sr obtain spec dir wpart extra w1 where "admit_run json info env rq w = (Inr (spec, dir, wpart, extra), w1)"
      by (rule serve_run_Stream)
    from admit_run_Inr [OF this] post show "rqMethod rq = ''POST'' \<and> (\<exists>jpart parts spec. rqParts rq = jpart # parts
      \<and> decodeJobPart json (ptData jpart) = Inr spec \<and> Validate spec = None \<and> supports info (jPlatform spec))"
      by blast
  qed
  obtain x y where sr: "serve_run json info run ext ert env rq w = (x, y)" by fastforce
  show "(\<nexists>evs. r = Stream evs) \<longrightarrow> handleRun json info run' ext ert env rq sl w = (r, sl', w')"
    using assms sr serve_run_error [OF sr, of run']
    by (auto simp: handleRun_def Let_def split: if_splits)
qed

section \<open>Witnesses\<close>

definition sample_info :: worker_info where
  "sample_info = \<lparr>wiName = ''w1'', wiHost = \<lparr>pOS = ''linux'', pArch = ''amd64''\<rparr>,
     wiResources = \<lparr>snapCPUCores = 4, snapMemoryTotalMB = 8, snapMemoryAvailableMB = 4\<rparr>,
     wiExecutors = Restricted_Capabilities ''linux'' ''amd64'', wiNetworkModes = []\<rparr>"

definition sample_part :: "string \<Rightarrow> part" where
  "sample_part n = \<lparr>ptName = n, ptData = [], ptArchive = escape_archive\<lparr>asItems := [entry ''a'' TypeDir []]\<rparr>\<rparr>"

definition sample_request :: http_request where
  "sample_request = \<lparr>rqMethod = ''POST'', rqPath = ''/v1/jobs:run'', rqMediaType = Some ''multipart/form-data'',
     rqMultipart = True, rqParts = [sample_part ''job'', sample_part ''workspace''], rqEnd = PartsEOF\<rparr>"

definition sample_run_env :: run_env where
  "sample_run_env = \<lparr>reTmp = ''/t'', reRands = [''1''], reFlusher = True, reFaults = [], reRemove = None\<rparr>"

definition sample_slots :: slots where "sample_slots = \<lparr>slUsed = 0, slCap = 1\<rparr>"

abbreviation sample_handle :: "response \<times> slots \<times> world" where
  "sample_handle \<equiv> handleRun (\<lambda>_. JsonJob sample_job RestEOF) sample_info
     (restricted_runner echo_exec 0 0 0 Map.empty) (\<lambda>_. []) (\<lambda>_. []) sample_run_env sample_request sample_slots
     escape_world"

lemma sample_handle_stream: "\<exists>evs sl' w'. sample_handle = (Stream evs, sl', w') \<and> length evs = 5"
proof -
  have "case fst sample_handle of Stream evs \<Rightarrow> length evs = 5 | _ \<Rightarrow> False" by code_simp
  then show ?thesis by (cases sample_handle) (auto split: response.splits)
qed


theorem handleRun_restores_witness:
  "\<exists>evs w'. sample_handle = (Stream evs, sample_slots, w') \<and> map_of (w_fs w') = map_of (w_fs escape_world)"
proof -
  obtain evs sl' w' where h: "sample_handle = (Stream evs, sl', w')" using sample_handle_stream by blast
  have "clean_abs (reTmp sample_run_env)" "resolve (w_fs escape_world) (reTmp sample_run_env) = Inr [''t'']"
    "is_dir (w_fs escape_world) [''t'']" "wf_fs (w_fs escape_world)" "reRemove sample_run_env = None"
    "list_all (list_all is_digit) (reRands sample_run_env)" by code_simp+
  from handleRun_restores [OF this h] h show ?thesis by blast
qed


theorem handleRun_admits_witness:
  "\<exists>evs sl' w'. sample_handle = (Stream evs, sl', w') \<and> rqMethod sample_request = ''POST''
     \<and> (\<exists>jpart parts spec. rqParts sample_request = jpart # parts \<and> Validate spec = None
          \<and> supports sample_info (jPlatform spec))"
proof -
  obtain evs sl' w' where h: "sample_handle = (Stream evs, sl', w')" using sample_handle_stream by blast
  with handleRun_admits [OF h] show ?thesis by blast
qed

end
