(* ===== verification/Client.thy ===== *)
theory Client
  imports Worker
begin

text \<open>
  The protocol client (\<^verbatim>\<open>internal/client/client.go\<close>): \<^verbatim>\<open>Run\<close> with its event loop,
  \<^verbatim>\<open>WorkerInfo\<close>, \<^verbatim>\<open>Cancel\<close>, the upload body and job identifiers, and from \<^verbatim>\<open>net/url\<close> the escaping
  that carries a job identifier to the worker.  The transport is an argument: it takes the request
  to an answer or fails.  The caller's event handler is a state transformer that may report an
  error.

  The second half joins the client with the worker's \<^verbatim>\<open>Handler\<close>: a transport that delivers a prefix
  of what the worker sent.
\<close>

section \<open>Answers and errors\<close>

datatype client_error =
  ArchiveRequired
| CreateRequest string
| SubmitJob string
| UploadWorkspace string
| StreamClosed
| DecodeEvent string
| HandleEvent string
| NoResult
| NoDetails
| UnknownEvent string
| RemoteError nat string string
| BadErrorReply nat
| InvalidJobID
| CancelFailed string
| ConnectWorker string
| DecodeInfo string
| IncompleteInfo
| GenerateID string

text \<open>Creating the request and sending it are the two places where the transport can fail.\<close>

datatype net_error = RequestError string | TransportError string

datatype stream_end = StreamEOF | StreamErr string

text \<open>An answer: the status, and what the JSON decoder finds in the body for each of the three
  types the client decodes.\<close>

record answer =
  anStatus :: nat
  anError :: "error_response option"
  anInfo :: "string + worker_info"
  anEvents :: "event list"
  anEnd :: stream_end

definition decodeRemoteError :: "answer \<Rightarrow> client_error" where
  "decodeRemoteError an =
     (case anError an of
        None \<Rightarrow> BadErrorReply (anStatus an)
      | Some remote \<Rightarrow> RemoteError (anStatus an) (erCode remote) (erMessage remote))"

text \<open>\<^verbatim>\<open>RemoteError.Error\<close>: a status of zero marks a failure event.\<close>

definition RemoteError_text :: "nat \<Rightarrow> string \<Rightarrow> string \<Rightarrow> string" where
  "RemoteError_text status code msg =
     (if status \<noteq> 0
      then ''worker rejected request ('' @ code @ '', HTTP '' @ dec status @ ''): '' @ msg
      else ''remote execution failed ('' @ code @ ''): '' @ msg)"

section \<open>Job identifiers\<close>

definition NewJobID :: "string + 8 word list \<Rightarrow> client_error + string" where
  "NewJobID random =
     (case random of
        Inl e \<Rightarrow> Inl (GenerateID e)
      | Inr bs \<Rightarrow> Inr (''job_'' @ hex_encode bs))"

section \<open>Requests\<close>

text \<open>The upload: five writes in order, the first error ends it.  A request whose upload broke off
  is not a well-formed request, so it is none.\<close>

datatype upload_error = ClosedPipe | UploadFault string

fun first_error :: "'e option list \<Rightarrow> 'e option" where
  "first_error [] = None"
| "first_error (Some e # es) = Some e"
| "first_error (None # es) = first_error es"

definition no_archive :: archive_stream where
  "no_archive = \<lparr>asGzipOk = False, asItems = [], asEndCtx = None, asTrailing = ReadEOF, asCloseOk = True,
     asPeek = ReadEOF, asCompressed = 0\<rparr>"

definition multipartRunBody ::
  "(job \<Rightarrow> bytes) \<Rightarrow> job \<Rightarrow> archive_stream \<Rightarrow> upload_error option list \<Rightarrow> part list option \<times> upload_error option" where
  "multipartRunBody enc spec archive writes =
     (let parts = [\<lparr>ptName = ''job'', ptData = enc spec, ptArchive = no_archive\<rparr>,
                   \<lparr>ptName = ''workspace'', ptData = [], ptArchive = archive\<rparr>]
      in case first_error writes of
           None \<Rightarrow> (Some parts, None)
         | Some e \<Rightarrow> (None, Some e))"

definition run_request :: "part list \<Rightarrow> http_request" where
  "run_request parts = \<lparr>rqMethod = ''POST'', rqPath = ''/v1/jobs:run'', rqMediaType = Some ''multipart/form-data'',
     rqMultipart = True, rqParts = parts, rqEnd = PartsEOF\<rparr>"

definition plain_request :: "string \<Rightarrow> string \<Rightarrow> http_request" where
  "plain_request method path = \<lparr>rqMethod = method, rqPath = path, rqMediaType = None,
     rqMultipart = False, rqParts = [], rqEnd = PartsEOF\<rparr>"

section \<open>Run\<close>

type_synonym 'h handler = "event \<Rightarrow> 'h \<Rightarrow> string option \<times> 'h"

text \<open>The event loop: the decoder yields the events of the body and then end of file or an error.\<close>

fun run_events :: "'h handler option \<Rightarrow> event list \<Rightarrow> stream_end \<Rightarrow> 'h \<Rightarrow> (client_error + job_result) \<times> 'h" where
  "run_events handle [] fin h =
     (case fin of StreamEOF \<Rightarrow> (Inl StreamClosed, h) | StreamErr e \<Rightarrow> (Inl (DecodeEvent e), h))"
| "run_events handle (ev # evs) fin h =
     (case (case handle of None \<Rightarrow> (None, h) | Some f \<Rightarrow> f ev h) of
        (Some e, h1) \<Rightarrow> (Inl (HandleEvent e), h1)
      | (None, h1) \<Rightarrow>
          (case evType ev of
             EventCompletion \<Rightarrow> (case evResult ev of None \<Rightarrow> Inl NoResult | Some r \<Rightarrow> Inr r, h1)
           | EventFailure \<Rightarrow>
               (case evFailure ev of None \<Rightarrow> Inl NoDetails | Some f \<Rightarrow> Inl (RemoteError 0 (fCode f) (fMessage f)), h1)
           | EventOther t \<Rightarrow> (Inl (UnknownEvent t), h1)
           | _ \<Rightarrow> run_events handle evs fin h1))"

definition upload_text :: "upload_error \<Rightarrow> string" where
  "upload_text e =
     ''write multipart workspace request: '' @
     (case e of ClosedPipe \<Rightarrow> ''io: read/write on closed pipe'' | UploadFault m \<Rightarrow> m)"

text \<open>\<^verbatim>\<open>Run\<close>: \<open>exchange\<close> answers the request; a request that was not fully uploaded is \<open>None\<close>.\<close>

definition client_Run ::
  "(job \<Rightarrow> bytes) \<Rightarrow> (http_request option \<Rightarrow> net_error + answer) \<Rightarrow> job \<Rightarrow> archive_stream option \<Rightarrow>
   upload_error option list \<Rightarrow> 'h handler option \<Rightarrow> 'h \<Rightarrow> (client_error + job_result) \<times> 'h" where
  "client_Run enc exchange spec archive writes handle h =
     (case archive of
        None \<Rightarrow> (Inl ArchiveRequired, h)
      | Some a \<Rightarrow>
          (case multipartRunBody enc spec a writes of
             (parts, uploadErr) \<Rightarrow>
               (case exchange (map_option run_request parts) of
                  Inl (RequestError e) \<Rightarrow> (Inl (CreateRequest e), h)
                | Inl (TransportError e) \<Rightarrow>
                    (case uploadErr of
                       Some (UploadFault m) \<Rightarrow> (Inl (UploadWorkspace (upload_text (UploadFault m))), h)
                     | _ \<Rightarrow> (Inl (SubmitJob e), h))
                | Inr an \<Rightarrow>
                    if anStatus an \<noteq> 200 then (Inl (decodeRemoteError an), h)
                    else (case uploadErr of
                            Some u \<Rightarrow> (Inl (UploadWorkspace (upload_text u)), h)
                          | None \<Rightarrow> run_events handle (anEvents an) (anEnd an) h))))"

definition client_WorkerInfo :: "(http_request \<Rightarrow> net_error + answer) \<Rightarrow> client_error + worker_info" where
  "client_WorkerInfo exchange =
     (case exchange (plain_request ''GET'' ''/v1/worker'') of
        Inl (RequestError e) \<Rightarrow> Inl (CreateRequest e)
      | Inl (TransportError e) \<Rightarrow> Inl (ConnectWorker e)
      | Inr an \<Rightarrow>
          if anStatus an \<noteq> 200 then Inl (decodeRemoteError an)
          else (case anInfo an of
                  Inl e \<Rightarrow> Inl (DecodeInfo e)
                | Inr info \<Rightarrow>
                    if wiName info = [] \<or> wiExecutors info = [] then Inl IncompleteInfo else Inr info))"

section \<open>Cancellation and the path of the request\<close>

text \<open>From \<^verbatim>\<open>net/url\<close>: which bytes \<^verbatim>\<open>PathEscape\<close> and \<^verbatim>\<open>URL.String\<close> escape, and the inverse the server
  applies to the path of a request.\<close>

definition unreserved :: "char \<Rightarrow> bool" where
  "unreserved c =
     (let n = (of_char c :: nat)
      in 97 \<le> n \<and> n \<le> 122 \<or> 65 \<le> n \<and> n \<le> 90 \<or> 48 \<le> n \<and> n \<le> 57 \<or> c \<in> set ''-_.~'')"

definition segment_safe :: "char \<Rightarrow> bool" where
  "segment_safe c = (unreserved c \<or> c \<in> set ''$&+:=@'')"

definition path_safe :: "char \<Rightarrow> bool" where
  "path_safe c = (unreserved c \<or> c \<in> set ''$&+,/:;=@'')"

definition upper_hex :: "nat \<Rightarrow> char" where
  "upper_hex d = (if d < 10 then char_of (48 + d) else char_of (55 + d))"

definition escape_char :: "(char \<Rightarrow> bool) \<Rightarrow> char \<Rightarrow> string" where
  "escape_char safe c =
     (if safe c then [c]
      else [CHR ''%'', upper_hex (of_char c div 16), upper_hex (of_char c mod 16)])"

definition url_escape :: "(char \<Rightarrow> bool) \<Rightarrow> string \<Rightarrow> string" where
  "url_escape safe s = concat (map (escape_char safe) s)"

definition PathEscape :: "string \<Rightarrow> string" where
  "PathEscape s = url_escape segment_safe s"

fun url_unescape :: "string \<Rightarrow> string option" where
  "url_unescape [] = Some []"
| "url_unescape (c # s) =
     (if c = CHR ''%''
      then (case s of
              a # b # s' \<Rightarrow>
                (case (unhex a, unhex b) of
                   (Some x, Some y) \<Rightarrow> map_option (\<lambda>r. char_of (16 * x + y) # r) (url_unescape s')
                 | _ \<Rightarrow> None)
            | _ \<Rightarrow> None)
      else map_option (\<lambda>r. c # r) (url_unescape s))"

definition client_Cancel :: "(http_request \<Rightarrow> net_error + answer) \<Rightarrow> string \<Rightarrow> client_error option" where
  "client_Cancel exchange jobID =
     (if jobID = [] \<or> Contains jobID ''/'' then Some InvalidJobID
      else case exchange (plain_request ''POST'' (''/v1/jobs/'' @ PathEscape jobID @ '':cancel'')) of
             Inl (RequestError e) \<Rightarrow> Some (CreateRequest e)
           | Inl (TransportError e) \<Rightarrow> Some (CancelFailed e)
           | Inr an \<Rightarrow> if anStatus an \<noteq> 204 then Some (decodeRemoteError an) else None)"

section \<open>The client and the worker together\<close>

text \<open>What the transport makes of a response: of a stream it delivers the first \<open>n\<close> events and then ends
  in \<open>fin\<close>; any other response is complete.\<close>

definition deliver :: "(err_text \<Rightarrow> string) \<Rightarrow> nat \<Rightarrow> stream_end \<Rightarrow> response \<Rightarrow> answer" where
  "deliver msgtext n fin r =
     \<lparr>anStatus = response_status r,
      anError = (case r of ErrorReply _ code msg \<Rightarrow> Some \<lparr>erCode = code, erMessage = msgtext msg\<rparr> | _ \<Rightarrow> None),
      anInfo = (case r of InfoReply info \<Rightarrow> Inr info | _ \<Rightarrow> Inl ''not worker information''),
      anEvents = (case r of Stream evs \<Rightarrow> take n evs | _ \<Rightarrow> []),
      anEnd = fin\<rparr>"

text \<open>The request line carries the escaped path and the server unescapes it.\<close>

definition carried :: "http_request \<Rightarrow> http_request option" where
  "carried rq = map_option (\<lambda>p. rq\<lparr>rqPath := p\<rparr>) (url_unescape (url_escape path_safe (rqPath rq)))"

definition send_request ::
  "(err_text \<Rightarrow> string) \<Rightarrow> nat \<Rightarrow> stream_end \<Rightarrow> (http_request \<Rightarrow> response) \<Rightarrow> http_request \<Rightarrow> net_error + answer" where
  "send_request msgtext n fin handler rq =
     (case carried rq of
        None \<Rightarrow> Inl (RequestError ''invalid URL escape'')
      | Some rq' \<Rightarrow> Inr (deliver msgtext n fin (handler rq')))"

definition send_upload ::
  "(err_text \<Rightarrow> string) \<Rightarrow> nat \<Rightarrow> stream_end \<Rightarrow> (http_request \<Rightarrow> response) \<Rightarrow> http_request option \<Rightarrow> net_error + answer" where
  "send_upload msgtext n fin handler q =
     (case q of
        None \<Rightarrow> Inl (TransportError ''upload aborted'')
      | Some rq \<Rightarrow> send_request msgtext n fin handler rq)"

section \<open>Escaping\<close>

lemma upper_hex_val: "d < 16 \<Longrightarrow> unhex (upper_hex d) = Some d"
  by (auto simp: unhex_def upper_hex_def Let_def)

lemma of_char_nibbles: "(of_char c :: nat) div 16 < 16" "(of_char c :: nat) mod 16 < 16"
  using nat_of_char_less_256 [of c] by (simp_all add: less_mult_imp_div_less)

lemma url_unescape_char:
  assumes "\<not> safe CHR ''%''"
  shows "url_unescape (escape_char safe c @ s) = map_option (\<lambda>r. c # r) (url_unescape s)"
proof (cases "safe c")
  case True
  then show ?thesis using assms by (auto simp: escape_char_def)
next
  case False
  have "unhex (upper_hex (of_char c div 16)) = Some (of_char c div 16)"
    "unhex (upper_hex (of_char c mod 16)) = Some (of_char c mod 16)"
    by (rule upper_hex_val, rule of_char_nibbles)+
  with False show ?thesis by (simp add: escape_char_def)
qed

lemma url_unescape_escape:
  assumes "\<not> safe CHR ''%''"
  shows "url_unescape (url_escape safe s) = Some s"
  by (induction s) (simp_all add: url_escape_def url_unescape_char [where safe = safe, OF assms])

lemma percent_not_safe: "\<not> path_safe CHR ''%''" "\<not> segment_safe CHR ''%''"
  by code_simp+

lemma carried_same [simp]: "carried rq = Some rq"
  by (simp add: carried_def url_unescape_escape [where safe = path_safe, OF percent_not_safe(1)])

lemma url_escape_safe: "list_all safe s \<Longrightarrow> url_escape safe s = s"
  by (induction s) (simp_all add: url_escape_def escape_char_def)

lemma length_escape_char: "length (escape_char safe c) = (if safe c then 1 else 3)"
  by (simp add: escape_char_def)

lemma length_url_escape: "length s \<le> length (url_escape safe s)"
  by (induction s) (auto simp: url_escape_def length_escape_char)

lemma url_escape_fixed: "url_escape safe s = s \<longleftrightarrow> list_all safe s"
proof
  show "url_escape safe s = s \<Longrightarrow> list_all safe s"
  proof (induction s)
    case (Cons c s)
    have "safe c"
    proof (rule ccontr)
      assume "\<not> safe c"
      then have "length (url_escape safe (c # s)) \<ge> 3 + length s"
        using length_url_escape [of s safe] by (simp add: url_escape_def length_escape_char)
      with Cons show False by simp
    qed
    with Cons show ?case by (simp add: url_escape_def escape_char_def)
  qed simp
qed (rule url_escape_safe)

lemma upper_hex_no_slash: "d < 16 \<Longrightarrow> upper_hex d \<noteq> slash"
  using upper_hex_val [of d] by (auto simp: unhex_def)

lemma escape_no_slash: "slash \<notin> set (escape_char segment_safe c)"
proof (cases "segment_safe c")
  case True
  moreover have "\<not> segment_safe slash" by code_simp
  ultimately show ?thesis by (auto simp: escape_char_def)
next
  case False
  have "upper_hex (of_char c div 16) \<noteq> slash" "upper_hex (of_char c mod 16) \<noteq> slash"
    by (rule upper_hex_no_slash, rule of_char_nibbles)+
  with False show ?thesis by (auto simp: escape_char_def)
qed

lemma PathEscape_no_slash: "slash \<notin> set (PathEscape s)"
  by (auto simp: PathEscape_def url_escape_def escape_no_slash)

lemma PathEscape_eq_Nil [simp]: "PathEscape s = [] \<longleftrightarrow> s = []"
  by (cases s) (auto simp: PathEscape_def url_escape_def escape_char_def)

section \<open>The event loop\<close>

text \<open>The handler applied to a list of events, up to its first error.\<close>

fun handle_all :: "'h handler option \<Rightarrow> event list \<Rightarrow> 'h \<Rightarrow> string option \<times> 'h" where
  "handle_all handle [] h = (None, h)"
| "handle_all handle (ev # evs) h =
     (case (case handle of None \<Rightarrow> (None, h) | Some f \<Rightarrow> f ev h) of
        (Some e, h1) \<Rightarrow> (Some e, h1)
      | (None, h1) \<Rightarrow> handle_all handle evs h1)"

definition continuing :: "event \<Rightarrow> bool" where
  "continuing ev = (evType ev \<in> {EventStatus, EventStdout, EventStderr, EventArtifact})"

definition terminal :: "event \<Rightarrow> (client_error + job_result) \<Rightarrow> bool" where
  "terminal ev r =
     ((\<exists>x. ev = completion_event x \<and> r = Inr x)
      \<or> (\<exists>c m. ev = failure_event c m \<and> r = Inl (RemoteError 0 c m)))"

lemma run_events_append:
  "list_all continuing pre \<Longrightarrow> run_events handle (pre @ evs) fin h =
     (case handle_all handle pre h of
        (Some e, h1) \<Rightarrow> (Inl (HandleEvent e), h1)
      | (None, h1) \<Rightarrow> run_events handle evs fin h1)"
proof (induction pre arbitrary: h)
  case (Cons ev pre)
  then have "evType ev = EventStatus \<or> evType ev = EventStdout \<or> evType ev = EventStderr \<or> evType ev = EventArtifact"
    by (simp add: continuing_def)
  with Cons show ?case by (auto split: prod.splits option.splits)
qed simp

lemma handle_all_append:
  "handle_all handle (pre @ evs) h =
     (case handle_all handle pre h of (Some e, h1) \<Rightarrow> (Some e, h1) | (None, h1) \<Rightarrow> handle_all handle evs h1)"
  by (induction pre arbitrary: h) (auto split: prod.splits option.splits)

lemma run_events_unfinished:
  "list_all continuing evs \<Longrightarrow> \<exists>e. fst (run_events handle evs fin h) = Inl e"
  using run_events_append [of evs handle "[]" fin h]
  by (auto split: prod.splits option.splits stream_end.splits)

lemma run_events_terminal:
  assumes "terminal ev r"
  shows "run_events handle [ev] fin h =
    (case handle_all handle [ev] h of (Some e, h1) \<Rightarrow> (Inl (HandleEvent e), h1) | (None, h1) \<Rightarrow> (r, h1))"
  using assms by (auto simp: terminal_def completion_event_def failure_event_def split: prod.splits option.splits)

lemma run_events_whole:
  assumes "list_all continuing body" and "terminal ev r"
  shows "run_events handle (body @ [ev]) fin h =
    (case handle_all handle (body @ [ev]) h of (Some e, h1) \<Rightarrow> (Inl (HandleEvent e), h1) | (None, h1) \<Rightarrow> (r, h1))"
  unfolding run_events_append [OF assms(1)] handle_all_append run_events_terminal [OF assms(2)]
  by (auto simp del: handle_all.simps run_events.simps split: prod.splits option.splits)

lemma job_stream_split:
  assumes "job_stream info ext up result err outs evs"
  obtains body ev r where "evs = body @ [ev]" and "list_all continuing body" and "terminal ev r"
proof -
  from assms obtain fin where outs: "list_all output_event outs"
    and fin: "end_events info ext up (wrap64 (sent_bytes outs)) result err fin"
    and evs: "evs = [status_event ''workspace_ready'', status_event ''running''] @ outs @ fin"
    unfolding job_stream_def by blast
  obtain body ev r where f: "fin = body @ [ev]" "list_all continuing body" "terminal ev r"
  proof -
    have "\<exists>body ev r. fin = body @ [ev] \<and> list_all continuing body \<and> terminal ev r"
      using fin unfolding end_events_def
      by (elim disjE exE conjE) (force simp: terminal_def continuing_def status_event_def)+
    then show ?thesis using that by blast
  qed
  have "list_all continuing outs"
    using outs by (auto simp: list_all_iff output_event_def continuing_def)
  then have "list_all continuing ([status_event ''workspace_ready'', status_event ''running''] @ outs @ body)"
    using f(2) by (simp add: continuing_def status_event_def)
  then show ?thesis using that [of _ ev r] f(1,3) evs by simp
qed

section \<open>Properties\<close>

lemma client_Run_Inr:
  assumes "client_Run enc exchange spec archive writes handle h = (Inr r, h')"
  obtains a an where "archive = Some a" and "first_error writes = None"
    and "exchange (Some (run_request (the (fst (multipartRunBody enc spec a writes))))) = Inr an"
    and "run_events handle (anEvents an) (anEnd an) h = (Inr r, h')"
  using assms
  by (auto simp: client_Run_def multipartRunBody_def Let_def split: option.splits prod.splits sum.splits
      net_error.splits upload_error.splits if_splits)

lemma request_stream_split:
  assumes "request_stream json info run ext rq outs evs"
  obtains body ev r where "evs = body @ [ev]" and "list_all continuing body" and "terminal ev r"
  using assms unfolding request_stream_def by (blast elim: job_stream_split)

lemma run_events_cut:
  assumes "list_all continuing body" and "terminal ev t"
    and "run_events handle (take n (body @ [ev])) fin h = (Inr r, h')"
  shows "length body < n \<and> t = Inr r \<and> handle_all handle (body @ [ev]) h = (None, h')"
proof -
  have n: "length body < n"
  proof (rule ccontr)
    assume "\<not> length body < n"
    then have "take n (body @ [ev]) = take n body" by simp
    moreover have "list_all continuing (take n body)" using assms(1) by (auto simp: list_all_iff dest: in_set_takeD)
    ultimately show False using run_events_unfinished [of "take n body" handle fin h] assms(3) by auto
  qed
  then have "take n (body @ [ev]) = body @ [ev]" by simp
  with n assms(3) show ?thesis
    unfolding run_events_whole [OF assms(1,2)]
    by (auto simp del: handle_all.simps simp: run_events_whole [OF assms(1,2)] split: prod.splits option.splits)
qed

text \<open>If the client's \<^verbatim>\<open>Run\<close> returns a result then it is the one in the completion event that ends the whole stream of
  this request, and the handler was given every event of it.\<close>

lemma Run_result_request:
  assumes "sink_executor run"
    and "client_Run enc (send_upload msgtext n fin (\<lambda>rq. fst (handleRun json info run ext ert env rq sl w)))
           spec archive writes handle h = (Inr r, h')"
  shows "\<exists>a outs body. archive = Some a
    \<and> request_stream json info run ext (run_request (the (fst (multipartRunBody enc spec a writes)))) outs
        (body @ [completion_event r])
    \<and> handle_all handle (body @ [completion_event r]) h = (None, h')"
proof -
  from assms(2) obtain a an where a: "archive = Some a"
    and an: "send_upload msgtext n fin (\<lambda>rq. fst (handleRun json info run ext ert env rq sl w))
        (Some (run_request (the (fst (multipartRunBody enc spec a writes))))) = Inr an"
    and loop: "run_events handle (anEvents an) (anEnd an) h = (Inr r, h')" by (rule client_Run_Inr)
  let ?rq = "run_request (the (fst (multipartRunBody enc spec a writes)))"
  obtain resp sl' w' where resp: "handleRun json info run ext ert env ?rq sl w = (resp, sl', w')"
    by (metis prod_cases3)
  with an have an': "an = deliver msgtext n fin resp" by (simp add: send_upload_def send_request_def)
  then obtain evs where evs: "resp = Stream evs" and take: "anEvents an = take n evs"
    using loop by (cases resp) (auto simp: deliver_def split: stream_end.splits)
  from handleRun_shape [OF assms(1) resp [unfolded evs]] obtain outs whole k where
    rs: "request_stream json info run ext ?rq outs whole" and k: "evs = take k whole" by blast
  from rs obtain body ev t where whole: "whole = body @ [ev]" and body: "list_all continuing body"
    and t: "terminal ev t" by (rule request_stream_split)
  have "run_events handle (take (min n k) (body @ [ev])) (anEnd an) h = (Inr r, h')"
    using loop take k whole by (simp del: take_append)
  from run_events_cut [OF body t this] have "t = Inr r" "handle_all handle (body @ [ev]) h = (None, h')" by auto
  moreover have "ev = completion_event r" using t \<open>t = Inr r\<close> by (auto simp: terminal_def)
  ultimately show ?thesis using a rs whole by blast
qed

text \<open>The statuses of the error responses.\<close>

lemma handleRun_status:
  assumes "handleRun json info run ext ert env rq sl w = (r, sl', w')" and "\<nexists>evs. r = Stream evs"
  obtains st code m where "r = ErrorReply st code m" and "st \<noteq> 200"
proof -
  have adm: "admit_run json info env rq w = (Inl x, w1) \<Longrightarrow> \<exists>st code m. x = ErrorReply st code m \<and> st \<noteq> 200" for x w1
    by (auto simp: admit_run_def split: if_splits list.splits sum.splits option.splits prod.splits)
  have riw: "run_in_workspace info run ext ert env spec dir wpart extra pend v = (x, v') \<Longrightarrow> \<nexists>evs. x = Stream evs \<Longrightarrow>
      \<exists>st code m. x = ErrorReply st code m \<and> st \<noteq> 200" for spec dir wpart extra pend v x v'
    by (auto simp: run_in_workspace_def Let_def split: sum.splits prod.splits option.splits if_splits)
  have "\<exists>st code m. r = ErrorReply st code m \<and> st \<noteq> 200"
    using assms adm riw
    by (auto simp: handleRun_def serve_run_def Let_def split: if_splits sum.splits prod.splits)
  then show ?thesis using that by blast
qed

lemma handle_all_accepts:
  assumes "\<And>ev h. fst (f ev h) = None"
  shows "fst (handle_all (Some f) evs h) = None"
proof (induction evs arbitrary: h)
  case (Cons ev evs)
  then show ?case using assms [of ev h] by (auto split: prod.splits option.splits)
qed simp


text \<open>Cancellation: the worker looks the escaped identifier up.\<close>

lemma Handler_cancel:
  assumes "jobID \<noteq> []"
  shows "Handler json info run kill ext ert env (plain_request ''POST'' (''/v1/jobs/'' @ PathEscape jobID @ '':cancel'')) sl w
    = (case kill (PathEscape jobID) of
         Inl _ \<Rightarrow> (ErrorReply 404 ''job_not_running'' (Text ''job is not running''), None, sl, w)
       | Inr r \<Rightarrow> (NoContent, Some r, sl, w))"
proof -
  let ?p = "''/v1/jobs/'' @ PathEscape jobID @ '':cancel''"
  have route: "route_of ?p = RouteAction" by (simp add: route_of_def HasPrefix_def)
  have suffix: "HasSuffix ?p '':cancel''" using HasSuffix_append [of "''/v1/jobs/'' @ PathEscape jobID" "'':cancel''"] by simp
  have trim: "TrimSuffix (TrimPrefix ?p ''/v1/jobs/'') '':cancel'' = PathEscape jobID"
    by (simp only: TrimPrefix_append TrimSuffix_append)
  have "\<not> Contains (PathEscape jobID) ''/''" by (simp add: Contains_char PathEscape_no_slash)
  with assms route suffix trim show ?thesis
    by (simp add: Handler_def handleJobAction_def plain_request_def Let_def split: sum.splits)
qed

lemma validID_safe: "validID i \<Longrightarrow> list_all segment_safe i"
  by (auto simp: validID_def list_all_iff id_char_def segment_safe_def unreserved_def Let_def split: if_splits)

lemma validID_PathEscape [simp]: "validID i \<Longrightarrow> PathEscape i = i"
  by (simp add: PathEscape_def url_escape_safe validID_safe)

lemma validID_sendable: "validID i \<Longrightarrow> i \<noteq> [] \<and> slash \<notin> set i"
  using PathEscape_no_slash [of i] by (auto simp: validID_def)

lemma client_Cancel_Handler:
  assumes "validID j"
  shows "client_Cancel (send_request msgtext n fin (\<lambda>rq. fst (Handler json info run kill ext ert env rq sl w))) j
    = (case kill j of
         Inl _ \<Rightarrow> Some (RemoteError 404 ''job_not_running'' (msgtext (Text ''job is not running'')))
       | Inr _ \<Rightarrow> None)"
  using validID_sendable [OF assms] Handler_cancel [of j] assms
  by (simp add: client_Cancel_def send_request_def Contains_char deliver_def decodeRemoteError_def split: sum.splits)

text \<open>C28. Cancelling a job.  For a job id the protocol accepts, \<^verbatim>\<open>Cancel\<close> over a working transport
  succeeds exactly when a run is active under that id on the Firecracker worker, in every reachable
  state of its table, and the run whose context the worker cancels is that one; otherwise the client
  reports that the job is not running.\<close>

theorem Cancel_hits_job:
  assumes "reachable_runs Firecracker_register Firecracker_unregister Firecracker_Kill s" and "validID j"
  shows "(client_Cancel (send_request msgtext n fin (\<lambda>rq. fst (Handler json info run
             (\<lambda>i. Firecracker_Kill None i (table s)) ext ert env rq sl w))) j = None
            \<longleftrightarrow> (\<exists>r. phases s r = Active j))
    \<and> fst (snd (Handler json info run (\<lambda>i. Firecracker_Kill None i (table s)) ext ert env
          (plain_request ''POST'' (''/v1/jobs/'' @ PathEscape j @ '':cancel'')) sl w)) = Some r'
        = (phases s r' = Active j)"
proof -
  have hit: "Firecracker_Kill None j (table s) = Inr x \<longleftrightarrow> phases s x = Active j" for x
    using firecracker_table.kill_hits_active [OF assms(1), of None j x] by simp
  have "j \<noteq> []" and esc: "PathEscape j = j" using assms(2) validID_sendable by simp_all
  from Handler_cancel [OF this(1)] hit show ?thesis
    unfolding client_Cancel_Handler [OF assms(2)] esc
    by (cases "Firecracker_Kill None j (table s)") (simp_all, metis sum.distinct(1))
qed

text \<open>Which identifiers survive the way.  The path of a request is carried to the worker unchanged
  whatever bytes it holds, since \<^verbatim>\<open>URL.String\<close> escapes and the server unescapes it; but \<^verbatim>\<open>Cancel\<close> has
  escaped the identifier before that, so what the worker looks up is the escaped identifier, which is
  the identifier itself exactly when it holds no byte that needs escaping.\<close>

theorem Cancel_roundtrip:
  assumes "j \<noteq> []"
  shows "url_unescape (url_escape path_safe p) = Some p
    \<and> (Handler json info run kill ext ert env (plain_request ''POST'' (''/v1/jobs/'' @ PathEscape j @ '':cancel'')) sl w
       = (case kill (PathEscape j) of
            Inl _ \<Rightarrow> (ErrorReply 404 ''job_not_running'' (Text ''job is not running''), None, sl, w)
          | Inr r \<Rightarrow> (NoContent, Some r, sl, w)))
    \<and> (PathEscape j = j \<longleftrightarrow> list_all segment_safe j)"
  using Handler_cancel [OF assms] url_unescape_escape [where safe = path_safe, OF percent_not_safe(1)]
  by (simp add: PathEscape_def url_escape_fixed)

text \<open>Generated job identifiers.  Twelve random bytes give an identifier of 28 characters that the job
  protocol accepts and a cancellation carries unchanged, and different bytes give different
  identifiers.\<close>

theorem NewJobID_valid:
  assumes "length bs = 12" and "length bs' = 12"
  shows "case NewJobID (Inr bs) of Inl _ \<Rightarrow> False
    | Inr i \<Rightarrow> length i = 28 \<and> validID i \<and> PathEscape i = i \<and> (NewJobID (Inr bs') = Inr i \<longleftrightarrow> bs' = bs)"
proof -
  have hex: "is_hex c \<Longrightarrow> id_char c" for c by (auto simp: is_hex_def id_char_def)
  have v: "validID (''job_'' @ hex_encode bs)"
    using assms(1) by (auto simp: validID_def list_all_iff dest!: hex_encode_hex intro: hex) (simp_all add: id_char_def)
  moreover have "hex_encode bs' = hex_encode bs \<longleftrightarrow> bs' = bs"
    using hex_encode_inj by blast
  ultimately show ?thesis using assms(1) by (simp add: NewJobID_def)
qed

section \<open>Witnesses\<close>

definition sample_archive :: archive_stream where "sample_archive = ptArchive (sample_part ''workspace'')"

abbreviation sample_server :: "http_request \<Rightarrow> response \<times> slots \<times> world" where
  "sample_server rq \<equiv> handleRun (\<lambda>_. JsonJob sample_job RestEOF) sample_info
     (restricted_runner echo_exec 0 0 0 Map.empty) (\<lambda>_. []) (\<lambda>_. []) sample_run_env rq sample_slots escape_world"

abbreviation sample_client_run :: "(client_error + job_result) \<times> unit" where
  "sample_client_run \<equiv> client_Run (\<lambda>_. []) (send_upload (\<lambda>_. []) 9 StreamEOF (\<lambda>rq. fst (sample_server rq)))
     sample_job (Some sample_archive) [] (Some (\<lambda>_ h. (None, h))) ()"

definition sample_upload :: http_request where
  "sample_upload = run_request (the (fst (multipartRunBody (\<lambda>_. []) sample_job sample_archive [])))"

lemma sample_upload_stream: "\<exists>evs sl' w'. sample_server sample_upload = (Stream evs, sl', w') \<and> length evs = 5"
proof -
  have "case fst (sample_server sample_upload) of Stream evs \<Rightarrow> length evs = 5 | _ \<Rightarrow> False" by code_simp
  then show ?thesis by (cases "sample_server sample_upload") (auto split: response.splits)
qed

lemma sample_client_result: "\<exists>r h. sample_client_run = (Inr r, h)"
proof -
  have "case fst sample_client_run of Inr r \<Rightarrow> True | Inl _ \<Rightarrow> False" by code_simp
  then show ?thesis by (cases sample_client_run) (auto split: sum.splits)
qed


theorem Cancel_hits_job_witness:
  "client_Cancel (send_request (\<lambda>_. []) 0 StreamEOF (\<lambda>rq. fst (Handler (\<lambda>_. JsonError) sample_info
      (restricted_runner echo_exec 0 0 0 Map.empty) (\<lambda>i. Firecracker_Kill None i (table stale_kill_state))
      (\<lambda>_. []) (\<lambda>_. []) sample_run_env rq sample_slots escape_world))) ''j'' = None"
proof -
  have "validID ''j''" by code_simp
  moreover have "phases stale_kill_state 1 = Active ''j''" by (simp add: stale_kill_state_def)
  ultimately show ?thesis using Cancel_hits_job [OF stale_kill_reachable] by blast
qed

theorem Cancel_roundtrip_witness: "PathEscape ''a b'' \<noteq> ''a b''"
proof -
  have "\<not> list_all segment_safe ''a b''" by code_simp
  with Cancel_roundtrip [of "''a b''"] show ?thesis by blast
qed

theorem NewJobID_valid_witness:
  "NewJobID (Inr (replicate 12 255)) = Inr ''job_ffffffffffffffffffffffff'' \<and> validID ''job_ffffffffffffffffffffffff''"
proof -
  have "NewJobID (Inr (replicate 12 255)) = Inr ''job_ffffffffffffffffffffffff''" by code_simp
  with NewJobID_valid [of "replicate 12 255" "replicate 12 255"] show ?thesis by simp
qed

end
