(* ===== verification/Cli.thy ===== *)
theory Cli
  imports Client
begin

text \<open>
  The command line (\<^verbatim>\<open>cmd/yonk/main.go\<close>): the parser of the arguments, the handler of the job's
  events with \<^verbatim>\<open>writeArtifact\<close>, and \<^verbatim>\<open>run\<close> as a whole.  Standard output and standard error are the
  bytes written and a list of faults; the working directory is in the file system of
  \<open>HostFS\<close>.  The client is that of \<open>Client\<close>, the rest of the environment an argument.

  The lemmas: what a parsed command line guarantees and that the job built from it passes the
  worker's validation, that no event of a hostile worker touches anything but the requested files in the
  working directory, and the exit code.
\<close>

section \<open>Arguments\<close>

definition clientFailureExitCode :: int where "clientFailureExitCode = 125"

record run_options =
  oExclusions :: "string list"
  oNoDefaultExclude :: bool
  oCPU :: int
  oMemoryMB :: int
  oDiskMB :: int
  oTimeoutSeconds :: int
  oNetwork :: string
  oArtifacts :: "string list"

definition defaultRunOptions :: run_options where
  "defaultRunOptions = \<lparr>oExclusions = DefaultExclusions, oNoDefaultExclude = False, oCPU = 2, oMemoryMB = 1024,
     oDiskMB = 512, oTimeoutSeconds = 60, oNetwork = [], oArtifacts = []\<rparr>"

datatype parse_error =
  RunUsage
| CommandMissing
| ExcludeValue
| NeedsValue string
| OutOfRange string int int
| NetworkValue
| NetworkMode
| ArtifactValue
| UnknownOption string

text \<open>\<^verbatim>\<open>parseRunInt\<close>: the arguments are those after the flag.\<close>

definition parseRunInt :: "string list \<Rightarrow> string \<Rightarrow> int \<Rightarrow> int \<Rightarrow> parse_error + int" where
  "parseRunInt rest flag lo hi =
     (case rest of
        [] \<Rightarrow> Inl (NeedsValue flag)
      | v # _ \<Rightarrow>
          (case Atoi v of
             None \<Rightarrow> Inl (OutOfRange flag lo hi)
           | Some n \<Rightarrow> if n < lo \<or> n > hi then Inl (OutOfRange flag lo hi) else Inr n))"

text \<open>An option with an integer value.\<close>

definition int_option ::
  "string list \<Rightarrow> string \<Rightarrow> int \<Rightarrow> int \<Rightarrow> (int \<Rightarrow> run_options) \<Rightarrow> parse_error + (string list \<times> run_options)" where
  "int_option rest flag lo hi upd = map_sum id (\<lambda>n. (tl rest, upd n)) (parseRunInt rest flag lo hi)"

text \<open>The \<^verbatim>\<open>switch\<close> on one option: the arguments left, and the options.\<close>

definition run_option :: "string \<Rightarrow> string list \<Rightarrow> run_options \<Rightarrow> parse_error + (string list \<times> run_options)" where
  "run_option a rest opts =
     (if a = ''--exclude'' then
        (case rest of
           [] \<Rightarrow> Inl ExcludeValue
         | v # r \<Rightarrow> if v = [] then Inl ExcludeValue else Inr (r, opts\<lparr>oExclusions := oExclusions opts @ [v]\<rparr>))
      else if a = ''--no-default-excludes'' then
        Inr (rest, opts\<lparr>oNoDefaultExclude := True, oExclusions := []\<rparr>)
      else if a = ''--cpu'' then int_option rest ''--cpu'' 1 1024 (\<lambda>n. opts\<lparr>oCPU := n\<rparr>)
      else if a = ''--memory-mb'' then int_option rest ''--memory-mb'' 1 (2 ^ 20) (\<lambda>n. opts\<lparr>oMemoryMB := n\<rparr>)
      else if a = ''--disk-mb'' then int_option rest ''--disk-mb'' 1 (2 ^ 20) (\<lambda>n. opts\<lparr>oDiskMB := n\<rparr>)
      else if a = ''--timeout'' then int_option rest ''--timeout'' 1 7200 (\<lambda>n. opts\<lparr>oTimeoutSeconds := n\<rparr>)
      else if a = ''--network'' then
        (case rest of
           [] \<Rightarrow> Inl NetworkValue
         | v # r \<Rightarrow> if v = ''none'' \<or> v = ''egress'' then Inr (r, opts\<lparr>oNetwork := v\<rparr>) else Inl NetworkMode)
      else if a = ''--artifact'' then
        (case rest of
           [] \<Rightarrow> Inl ArtifactValue
         | v # r \<Rightarrow> if v = [] then Inl ArtifactValue else Inr (r, opts\<lparr>oArtifacts := oArtifacts opts @ [v]\<rparr>))
      else Inl (UnknownOption a))"

lemma int_option_Inr:
  "int_option rest flag lo hi upd = Inr (r, opts') \<Longrightarrow> \<exists>n. lo \<le> n \<and> n \<le> hi \<and> opts' = upd n \<and> r = tl rest"
  by (auto simp: int_option_def parseRunInt_def not_less split: list.splits option.splits if_splits)

lemma run_option_shorter: "run_option a rest opts = Inr (r, opts') \<Longrightarrow> length r \<le> length rest"
  by (auto simp: run_option_def split: if_splits list.splits dest!: int_option_Inr)

text \<open>The loop over the options: what follows the separator, and the options.\<close>

function parse_options :: "string list \<Rightarrow> run_options \<Rightarrow> parse_error + (string list \<times> run_options)" where
  "parse_options [] opts = Inl CommandMissing"
| "parse_options (a # rest) opts =
     (if a = ''--'' then Inr (rest, opts)
      else case run_option a rest opts of
        Inl e \<Rightarrow> Inl e
      | Inr (r, opts') \<Rightarrow> parse_options r opts')"
  by pat_completeness auto
termination
  by (relation "measure (\<lambda>(as, opts). length as)") (auto dest: run_option_shorter)

definition parseRunArgs :: "string list \<Rightarrow> parse_error + (string \<times> string \<times> string list \<times> run_options)" where
  "parseRunArgs args =
     (if length args < 3 \<or> hd args = [] then Inl RunUsage
      else case parse_options (tl args) defaultRunOptions of
        Inl e \<Rightarrow> Inl e
      | Inr (rest, opts) \<Rightarrow>
          (case rest of
             [] \<Rightarrow> Inl CommandMissing
           | command # commandArgs \<Rightarrow>
               if command = [] then Inl CommandMissing
               else Inr (hd args, command, commandArgs, opts)))"

definition containsString :: "string list \<Rightarrow> string \<Rightarrow> bool" where
  "containsString values target = list_ex (\<lambda>v. v = target) values"

definition artifactBaseNames :: "string list \<Rightarrow> string list" where
  "artifactBaseNames paths = map Base paths"

section \<open>Output and artifacts\<close>

record cli =
  clOut :: bytes
  clErr :: bytes
  clOutFaults :: "string option list"
  clErrFaults :: "string option list"
  clWorld :: world

definition write_stdout :: "bytes \<Rightarrow> cli \<Rightarrow> string option \<times> cli" where
  "write_stdout d c =
     (case clOutFaults c of
        [] \<Rightarrow> (None, c\<lparr>clOut := clOut c @ d\<rparr>)
      | None # fs \<Rightarrow> (None, c\<lparr>clOut := clOut c @ d, clOutFaults := fs\<rparr>)
      | Some e # fs \<Rightarrow> (Some e, c\<lparr>clOutFaults := fs\<rparr>))"

definition write_stderr :: "bytes \<Rightarrow> cli \<Rightarrow> string option \<times> cli" where
  "write_stderr d c =
     (case clErrFaults c of
        [] \<Rightarrow> (None, c\<lparr>clErr := clErr c @ d\<rparr>)
      | None # fs \<Rightarrow> (None, c\<lparr>clErr := clErr c @ d, clErrFaults := fs\<rparr>)
      | Some e # fs \<Rightarrow> (Some e, c\<lparr>clErrFaults := fs\<rparr>))"

text \<open>\<^verbatim>\<open>os.OpenFile\<close> with \<^verbatim>\<open>O_WRONLY|O_CREATE|O_TRUNC|O_NOFOLLOW\<close>.\<close>

definition open_nofollow :: "string \<Rightarrow> nat \<Rightarrow> world \<Rightarrow> (errno + phys) \<times> world" where
  "open_nofollow p perm w =
     (case tick w of
        (Some e, w1) \<Rightarrow> (Inl e, w1)
      | (None, w1) \<Rightarrow>
          (case locate (w_fs w1) p of
             Inl e \<Rightarrow> (Inl e, w1)
           | Inr q \<Rightarrow>
               if q = [] then (Inl EISDIR, w1)
               else (case map_of (w_fs w1) q of
                       None \<Rightarrow> (Inr q, w1\<lparr>w_fs := (q, NFile perm []) # w_fs w1\<rparr>)
                     | Some (NFile perm' _) \<Rightarrow> (Inr q, w1\<lparr>w_fs := (q, NFile perm' []) # w_fs w1\<rparr>)
                     | Some (NDir _) \<Rightarrow> (Inl EISDIR, w1)
                     | Some (NLink _) \<Rightarrow> (Inl ELOOP, w1))))"

definition write_failed :: "(errno \<Rightarrow> string) \<Rightarrow> string \<Rightarrow> errno \<Rightarrow> string" where
  "write_failed errno_text name e = ''write artifact '' @ name @ '': '' @ errno_text e"

definition store_artifact :: "(errno \<Rightarrow> string) \<Rightarrow> string \<Rightarrow> string \<Rightarrow> bytes \<Rightarrow> world \<Rightarrow> string option \<times> world" where
  "store_artifact errno_text dir name data w =
     (case open_nofollow (PJoin dir name) 384 w of
        (Inl e, w1) \<Rightarrow> (Some (write_failed errno_text name e), w1)
      | (Inr q, w1) \<Rightarrow>
          (case fd_write q data w1 of
             (Some e, w2) \<Rightarrow> (Some (write_failed errno_text name e), snd (fd_close w2))
           | (None, w2) \<Rightarrow>
               (case fd_close w2 of
                  (Some e, w3) \<Rightarrow> (Some (write_failed errno_text name e), w3)
                | (None, w3) \<Rightarrow> (None, w3))))"

definition writeArtifact :: "(errno \<Rightarrow> string) \<Rightarrow> string \<Rightarrow> string \<Rightarrow> bytes \<Rightarrow> cli \<Rightarrow> string option \<times> cli" where
  "writeArtifact errno_text dir name data c =
     (if name \<noteq> Base name then (Some (''worker returned unsafe artifact name '' @ name), c)
      else case store_artifact errno_text dir name data (clWorld c) of
        (Some e, w1) \<Rightarrow> (Some e, c\<lparr>clWorld := w1\<rparr>)
      | (None, w1) \<Rightarrow>
          (None, snd (write_stdout (''artifact: '' @ name @ '' ('' @ dec (length data) @ '' bytes)'' @ [CHR 0x0A])
                   (c\<lparr>clWorld := w1\<rparr>))))"

definition handle_event :: "(errno \<Rightarrow> string) \<Rightarrow> string \<Rightarrow> string list \<Rightarrow> event \<Rightarrow> cli \<Rightarrow> string option \<times> cli" where
  "handle_event errno_text dir requested ev c =
     (case evType ev of
        EventStdout \<Rightarrow> write_stdout (evData ev) c
      | EventStderr \<Rightarrow> write_stderr (evData ev) c
      | EventArtifact \<Rightarrow>
          if \<not> containsString requested (evName ev)
          then (Some (''worker returned unrequested artifact '' @ evName ev), c)
          else writeArtifact errno_text dir (evName ev) (evData ev) c
      | _ \<Rightarrow> (None, c))"

section \<open>Run\<close>

definition newline_bytes :: bytes where "newline_bytes = [CHR 0x0A]"

definition usage_lines :: "string list" where
  "usage_lines =
     [''usage: yonk run <worker-endpoint> [options] -- <command> [args...]'',
      ''options:'',
      ''  --exclude <path>        exclude a path from the workspace (repeatable)'',
      ''  --no-default-excludes   transfer everything, including node_modules and build dirs'',
      ''  --cpu <n>               requested vCPUs (default 2)'',
      ''  --memory-mb <n>         requested memory MiB (default 1024)'',
      ''  --disk-mb <n>           requested workspace disk MiB (default 512)'',
      ''  --timeout <secs>        job timeout, 1-7200 (default 60)'',
      ''  --network <mode>         none or egress (default none)'',
      ''  --artifact <path>        workspace-relative path to return after the job (repeatable)'']"

definition print_err :: "string \<Rightarrow> cli \<Rightarrow> cli" where
  "print_err l c = snd (write_stderr (l @ newline_bytes) c)"

definition print_out :: "string \<Rightarrow> cli \<Rightarrow> cli" where
  "print_out l c = snd (write_stdout (l @ newline_bytes) c)"

definition printUsage :: "cli \<Rightarrow> cli" where
  "printUsage c = foldl (\<lambda>c l. print_err l c) c usage_lines"

text \<open>The texts of errors and numbers, and what the system and the transport answer.  An archive that was
  created and opened is what the worker's \<^verbatim>\<open>Extract\<close> would read from it.\<close>

record cli_env =
  ceParseText :: "parse_error \<Rightarrow> string"
  ceClientText :: "client_error \<Rightarrow> string"
  ceErrnoText :: "errno \<Rightarrow> string"
  ceSeconds :: "int \<Rightarrow> string"
  ceMegabytes :: "int \<Rightarrow> string"
  ceModes :: "string list \<Rightarrow> string"
  ceNew :: "string \<Rightarrow> string option"
  ceInfo :: "http_request \<Rightarrow> net_error + answer"
  ceRandom :: "string + 8 word list"
  ceGetwd :: "string + string"
  ceArchive :: "string \<Rightarrow> string list \<Rightarrow> string + archive_stream"
  ceOpen :: "string option"
  ceRemove :: "string option"
  ceEncode :: "job \<Rightarrow> bytes"
  ceExchange :: "http_request option \<Rightarrow> net_error + answer"
  ceWrites :: "upload_error option list"
  ceCanceled :: bool

definition cli_job :: "string \<Rightarrow> string \<Rightarrow> string list \<Rightarrow> platform \<Rightarrow> run_options \<Rightarrow> job" where
  "cli_job jobID command commandArgs plat opts =
     \<lparr>jVersion = ProtocolVersion, jID = jobID, jCommand = command, jArgs = commandArgs, jCWD = ''.'',
      jPlatform = plat,
      jResources = \<lparr>resCPU = oCPU opts, resMemoryMB = oMemoryMB opts, resDiskMB = oDiskMB opts\<rparr>,
      jTimeoutSeconds = oTimeoutSeconds opts, jArtifacts = oArtifacts opts, jNetwork = oNetwork opts\<rparr>"

text \<open>From the opened archive on: the job, the summary and the exit code.\<close>

definition run_job :: "cli_env \<Rightarrow> job \<Rightarrow> string \<Rightarrow> archive_stream \<Rightarrow> cli \<Rightarrow> int \<times> cli" where
  "run_job env spec dir archive c =
     (case client_Run (ceEncode env) (ceExchange env) spec (Some archive) (ceWrites env)
             (Some (handle_event (ceErrnoText env) dir (artifactBaseNames (jArtifacts spec)))) c of
        (Inl e, c1) \<Rightarrow>
          (clientFailureExitCode,
           print_err (''yonk: '' @ (if ceCanceled env then ''job cancelled'' else ceClientText env e)) c1)
      | (Inr r, c1) \<Rightarrow>
          (let c2 = print_out (''duration: '' @ ceSeconds env (rDurationMillis r)) c1;
               c3 = (if rPeakMemoryBytes r > 0
                     then print_out (''peak memory: '' @ ceMegabytes env (rPeakMemoryBytes r)) c2 else c2)
           in (rExitCode r, print_out (''exit: '' @ fmt_int (rExitCode r)) c3)))"

text \<open>The deferred removal of the archive.\<close>

definition remove_archive :: "cli_env \<Rightarrow> cli \<Rightarrow> cli" where
  "remove_archive env c =
     (case ceRemove env of
        None \<Rightarrow> c
      | Some e \<Rightarrow> print_err (''yonk: remove workspace archive: '' @ e) c)"

definition sync_and_run ::
  "cli_env \<Rightarrow> worker_info \<Rightarrow> string \<Rightarrow> string \<Rightarrow> string list \<Rightarrow> run_options \<Rightarrow> cli \<Rightarrow> int \<times> cli" where
  "sync_and_run env info jobID command commandArgs opts c =
     (let failed = (\<lambda>m c. (clientFailureExitCode, print_err (''yonk: '' @ m) c)) in
      if oNetwork opts \<noteq> [] \<and> \<not> containsString (wiNetworkModes info) (oNetwork opts)
      then failed (''worker does not support network mode '' @ oNetwork opts @ '' (supported: ''
             @ ceModes env (wiNetworkModes info) @ '')'') c
      else case ceGetwd env of
        Inl e \<Rightarrow> failed (''identify workspace: '' @ e) c
      | Inr dir \<Rightarrow>
          (let c1 = print_out ''syncing workspace...'' (print_out (''worker: '' @ wiName info) c) in
           case ceArchive env dir (oExclusions opts) of
             Inl e \<Rightarrow> failed (''package workspace: '' @ e) c1
           | Inr archive \<Rightarrow>
               (case ceOpen env of
                  Some e \<Rightarrow>
                    (case failed e c1 of (code, c2) \<Rightarrow> (code, remove_archive env c2))
                | None \<Rightarrow>
                    (case run_job env (cli_job jobID command commandArgs (capPlatform (hd (wiExecutors info))) opts)
                            dir archive c1 of
                       (code, c2) \<Rightarrow> (code, remove_archive env c2)))))"

definition cli_run :: "cli_env \<Rightarrow> string list \<Rightarrow> cli \<Rightarrow> int \<times> cli" where
  "cli_run env args c =
     (let failed = (\<lambda>m c. (clientFailureExitCode, print_err (''yonk: '' @ m) c)) in
      if args = [] \<or> hd args \<noteq> ''run'' then (2, printUsage c)
      else case parseRunArgs (tl args) of
        Inl e \<Rightarrow> (2, printUsage (print_err (''yonk: '' @ ceParseText env e) c))
      | Inr (endpoint, command, commandArgs, opts) \<Rightarrow>
          (case ceNew env endpoint of
             Some e \<Rightarrow> failed (''configure worker: '' @ e) c
           | None \<Rightarrow>
               (case client_WorkerInfo (ceInfo env) of
                  Inl e \<Rightarrow> failed (''worker information: '' @ ceClientText env e) c
                | Inr info \<Rightarrow>
                    if wiExecutors info = [] then failed ''worker has no executors'' c
                    else (case NewJobID (ceRandom env) of
                            Inl e \<Rightarrow> failed (ceClientText env e) c
                          | Inr jobID \<Rightarrow> sync_and_run env info jobID command commandArgs opts c))))"

section \<open>What a parsed command line guarantees\<close>

definition options_ok :: "run_options \<Rightarrow> bool" where
  "options_ok opts =
     (1 \<le> oCPU opts \<and> oCPU opts \<le> 1024 \<and> 1 \<le> oMemoryMB opts \<and> oMemoryMB opts \<le> 2 ^ 20
      \<and> 1 \<le> oDiskMB opts \<and> oDiskMB opts \<le> 2 ^ 20 \<and> 1 \<le> oTimeoutSeconds opts \<and> oTimeoutSeconds opts \<le> 7200
      \<and> (oNetwork opts = [] \<or> oNetwork opts = ''none'' \<or> oNetwork opts = ''egress'')
      \<and> list_all (\<lambda>a. a \<noteq> []) (oArtifacts opts))"

lemma run_option_ok: "run_option a rest opts = Inr (r, opts') \<Longrightarrow> options_ok opts \<Longrightarrow> options_ok opts'"
  by (auto simp: run_option_def options_ok_def split: if_splits list.splits dest!: int_option_Inr)

lemma parse_options_ok: "parse_options as opts = Inr (rest, opts') \<Longrightarrow> options_ok opts \<Longrightarrow> options_ok opts'"
  by (induction as opts rule: parse_options.induct) (auto split: if_splits sum.splits prod.splits dest: run_option_ok)

lemma parseRunArgs_ok:
  assumes "parseRunArgs args = Inr (w, cmd, cargs, opts)"
  shows "options_ok opts" and "cmd \<noteq> []" and "w \<noteq> []"
proof -
  from assms obtain rest where p: "parse_options (tl args) defaultRunOptions = Inr (rest, opts)"
    and "rest = cmd # cargs" "cmd \<noteq> []" "w = hd args" "hd args \<noteq> []"
    by (auto simp: parseRunArgs_def split: if_splits sum.splits list.splits)
  moreover have "options_ok defaultRunOptions" by (simp add: options_ok_def defaultRunOptions_def)
  ultimately show "options_ok opts" "cmd \<noteq> []" "w \<noteq> []" using parse_options_ok [OF p] by auto
qed

section \<open>What an artifact can change\<close>

text \<open>Only the places \<open>S\<close> differ, and there no directory and no link is lost.\<close>

definition files_changed :: "phys set \<Rightarrow> fs \<Rightarrow> fs \<Rightarrow> bool" where
  "files_changed S f g =
     ((\<forall>q. q \<notin> S \<longrightarrow> map_of g q = map_of f q)
      \<and> (\<forall>q nd. map_of f q = Some nd \<longrightarrow> (\<exists>perm d. nd = NFile perm d) \<or> map_of g q = Some nd))"

lemma files_changed_refl [simp]: "files_changed S f f"
  by (simp add: files_changed_def)

lemma files_changed_mono: "S \<subseteq> T \<Longrightarrow> files_changed S f g \<Longrightarrow> files_changed T f g"
  by (auto simp: files_changed_def)

lemma files_changed_trans:
  assumes "files_changed S f g" and "files_changed S g h"
  shows "files_changed S f h"
  using assms unfolding files_changed_def by (metis (no_types, lifting))

lemma walk_files_changed:
  assumes "walk f n cur cs = Inr r" and "files_changed S f g" and "is_dir f (fst r)"
  shows "walk g n cur cs = Inr r"
proof -
  have "map_of f q = Some (NDir perm) \<Longrightarrow> map_of g q = Some (NDir perm)"
    "map_of f q = Some (NLink t) \<Longrightarrow> map_of g q = Some (NLink t)" for q perm t
    using assms(2) unfolding files_changed_def by blast+
  with assms(1,3) show ?thesis
    by (induction rule: walk_ok_induct) (auto simp: is_dir_def)
qed

lemma is_dir_files_changed: "files_changed S f g \<Longrightarrow> is_dir f d \<Longrightarrow> is_dir g d"
  by (fastforce simp: files_changed_def is_dir_def split: option.splits node.splits)

lemma at_dir_files_changed: "files_changed S f g \<Longrightarrow> at_dir f cs d \<Longrightarrow> at_dir g cs d"
  unfolding at_dir_def using walk_files_changed [of f maxSymlinks "[]" cs "(d, _)" S g] is_dir_files_changed by fastforce

lemma open_nofollow_cases:
  assumes "open_nofollow p perm w = (r, w')"
  obtains (fail) e where "r = Inl e" and "w_fs w' = w_fs w"
  | (ok) q perm' where "r = Inr q" and "locate (w_fs w) p = Inr q" and "q \<noteq> []"
      and "map_of (w_fs w) q = None \<or> (\<exists>pm d. map_of (w_fs w) q = Some (NFile pm d))"
      and "w_fs w' = (q, NFile perm' []) # w_fs w"
proof (cases "tick w")
  case (Pair e w1)
  note t = this and fs1 = tick_fs [OF this]
  show thesis
  proof (cases r)
    case (Inl x)
    then have "w_fs w' = w_fs w"
      using assms t fs1 by (auto simp: open_nofollow_def split: option.splits sum.splits if_splits node.splits)
    then show thesis using Inl fail by blast
  next
    case (Inr q)
    then have e: "e = None" using assms t by (cases e) (auto simp: open_nofollow_def)
    obtain q' where loc: "locate (w_fs w) p = Inr q'" and q': "q' \<noteq> []"
      using assms t fs1 Inr e by (auto simp: open_nofollow_def split: sum.splits if_splits)
    show thesis
    proof (cases "map_of (w_fs w) q'")
      case None
      then show thesis using assms t fs1 Inr e loc q' by (intro ok [of q perm]) (auto simp: open_nofollow_def)
    next
      case (Some nd)
      then show thesis
      proof (cases nd)
        case (NFile pm d)
        then show thesis using assms t fs1 Inr e loc q' Some by (intro ok [of q pm]) (auto simp: open_nofollow_def)
      qed (use assms t fs1 Inr e loc q' in \<open>auto simp: open_nofollow_def\<close>)
    qed
  qed
qed

text \<open>A path on the way to a directory names no file.\<close>

lemma locate_on_way:
  assumes "at_dir f (ms @ ns) D" and "list_all is_name (ms @ ns)" and "locate f (render True ms) = Inr q" and "q \<noteq> []"
  shows "map_of f q \<noteq> None \<and> (\<forall>pm d. map_of f q \<noteq> Some (NFile pm d))"
proof (cases ms rule: rev_cases)
  case Nil
  with assms(3,4) show ?thesis by (simp add: render_def locate_def)
next
  case (snoc ms' x)
  have "Split slash (render True ms) = [] # ms' @ [x]" using assms(2) snoc by (simp add: Split_render)
  moreover have x: "is_name x" using assms(2) snoc by simp
  ultimately obtain d m where w: "walk f maxSymlinks [] ms' = Inr (d, m)" "is_dir f d" "q = d @ [x]"
    using assms(3) by (auto simp: locate_def Let_def butlast_append is_name_def split: sum.splits if_splits)
  have "walk f maxSymlinks [] (ms @ ns) = walk f m d (x # ns)"
    using walk_append [OF w(1,2), of "x # ns"] snoc by simp
  then obtain m' where r: "walk f m d (x # ns) = Inr (D, m')" and D: "is_dir f D"
    using assms(1) by (auto simp: at_dir_def)
  have "map_of f q = Some (NFile pm b) \<Longrightarrow> False" for pm b
    using r D x w(3) by (auto simp: is_name_def is_dir_def split: if_splits)
  moreover have "map_of f q \<noteq> None" using r x w(3) by (cases "map_of f q") (auto simp: is_name_def)
  ultimately show ?thesis by blast
qed

lemma Base_name_cases:
  assumes "n = Base n"
  obtains "is_name n" | "n = ''.'' \<or> n = ''..'' \<or> n = ''/''"
  using assms Base_nonempty [of n] Base_no_slash [of n] by (auto simp: is_name_def)

lemma PJoin_dots:
  assumes "clean_abs dir" and "n = ''.'' \<or> n = ''..'' \<or> n = ''/''"
  obtains ms ns where "PJoin dir n = render True ms" and "comps dir = ms @ ns"
proof -
  have abs: "IsAbs dir" using assms(1) by (simp add: clean_abs_def)
  have names: "list_all is_name (comps dir)" by (rule clean_absD(2) [OF assms(1)])
  have split: "Split slash ''.'' = [''.'']" "Split slash ''..'' = [''..'']" "Split slash ''/'' = [[], []]" by code_simp+
  have st: "clean_comps True (comps dir @ cs) = rev (foldl (clean_step True) (rev (comps dir)) cs)" for cs
    using names by (simp add: clean_comps_def foldl_clean_names)
  have "clean_step True (rev (comps dir)) ''..'' = rev (butlast (comps dir))"
    using names by (cases "comps dir" rule: rev_cases) (simp_all add: clean_step_def is_name_def)
  then have fold: "clean_comps True (comps dir @ [[], []]) = comps dir" "clean_comps True (comps dir @ [''.'']) = comps dir"
    "clean_comps True (comps dir @ [''..'']) = butlast (comps dir)"
    by (simp_all only: st foldl.simps rev_rev_ident) (simp_all add: clean_step_def)
  have "PJoin dir n = render True (comps (PJoin dir n))" by (rule PJoin_render [OF abs])
  moreover have "comps (PJoin dir n) = comps dir \<or> comps (PJoin dir n) = butlast (comps dir)"
    using assms(2) fold split by (auto simp: comps_PJoin [OF abs])
  moreover have "\<exists>ns. comps dir = butlast (comps dir) @ ns" by (cases "comps dir" rule: rev_cases) auto
  ultimately show ?thesis using that [of "comps dir" "[]"] that [of "butlast (comps dir)"] by auto
qed

lemma store_artifact_confined:
  assumes "clean_abs dir" and "at_dir (w_fs w) (comps dir) D" and "name = Base name"
    and "store_artifact et dir name data w = (e, w')"
  shows "files_changed {D @ [n] | n. n = name \<and> is_name n} (w_fs w) (w_fs w')"
proof -
  let ?S = "{D @ [n] | n. n = name \<and> is_name n}"
  note names = clean_absD(2) [OF assms(1)]
  obtain r w1 where o: "open_nofollow (PJoin dir name) 384 w = (r, w1)" by fastforce
  from o show ?thesis
  proof (cases rule: open_nofollow_cases)
    case (fail x)
    with assms(4) o show ?thesis by (simp add: store_artifact_def)
  next
    case (ok q pm)
    from assms(3) have n: "is_name name"
    proof (rule Base_name_cases)
      assume "name = ''.'' \<or> name = ''..'' \<or> name = ''/''"
      with assms(1) obtain ms ns where "PJoin dir name = render True ms" "comps dir = ms @ ns" by (rule PJoin_dots)
      with locate_on_way [of "w_fs w" ms ns D q] assms(2) names ok show ?thesis by auto
    qed
    have "PJoin dir name = render True (comps dir @ [name])"
      using assms(1) n by (intro PJoin_name) (auto simp: clean_abs_def)
    then have q: "q = D @ [name]" using at_dir_locate [OF assms(2), of name] names n ok(2) by simp
    obtain e2 w2 where wr: "fd_write q data w1 = (e2, w2)" by fastforce
    have "w_fs w2 = w_fs w1 \<or> (\<exists>p. w_fs w2 = (q, NFile p data) # w_fs w1)"
      using wr by (cases rule: fd_write_cases) auto
    moreover have "w_fs w' = w_fs w2"
      using assms(4) o ok(1) wr fd_close_fs [of w2]
      by (auto simp: store_artifact_def split: option.splits prod.splits) (metis prod.collapse)
    ultimately obtain nd where "w_fs w' = (q, nd) # (q, NFile pm []) # w_fs w \<or> w_fs w' = (q, NFile pm []) # w_fs w"
      using ok(5) by auto
    then show ?thesis using q n ok(4) by (auto simp: files_changed_def split: if_splits)
  qed
qed

lemma handle_event_confined:
  assumes "clean_abs dir" and "at_dir (w_fs (clWorld c)) (comps dir) D" and "handle_event et dir names ev c = (e, c')"
  shows "files_changed {D @ [n] | n. n \<in> set names \<and> is_name n} (w_fs (clWorld c)) (w_fs (clWorld c'))"
proof (cases "evType ev = EventArtifact \<and> containsString names (evName ev) \<and> evName ev = Base (evName ev)")
  case True
  obtain x w' where st: "store_artifact et dir (evName ev) (evData ev) (clWorld c) = (x, w')" by fastforce
  have "clWorld c' = w'"
    using assms(3) True st
    by (auto simp: handle_event_def writeArtifact_def write_stdout_def split: option.splits list.splits)
  moreover have "{D @ [n] | n. n = evName ev \<and> is_name n} \<subseteq> {D @ [n] | n. n \<in> set names \<and> is_name n}"
    using True by (auto simp: containsString_def list_ex_iff)
  ultimately show ?thesis
    using files_changed_mono [OF _ store_artifact_confined [OF assms(1,2) _ st]] True by simp
next
  case False
  then have "clWorld c' = clWorld c"
    using assms(3)
    by (auto simp: handle_event_def writeArtifact_def write_stdout_def write_stderr_def
        split: event_type.splits if_splits list.splits option.splits)
  then show ?thesis by simp
qed

lemma handle_all_confined:
  assumes "clean_abs dir" and "at_dir (w_fs (clWorld c)) (comps dir) D"
    and "handle_all (Some (handle_event et dir names)) evs c = (e, c')"
  shows "files_changed {D @ [n] | n. n \<in> set names \<and> is_name n} (w_fs (clWorld c)) (w_fs (clWorld c'))"
  using assms(2,3)
proof (induction evs arbitrary: c)
  case (Cons ev evs)
  obtain x c1 where h: "handle_event et dir names ev c = (x, c1)" by fastforce
  note one = handle_event_confined [OF assms(1) Cons.prems(1) h]
  show ?case
  proof (cases x)
    case None
    then have "handle_all (Some (handle_event et dir names)) evs c1 = (e, c')" using Cons.prems(2) h by simp
    from Cons.IH [OF at_dir_files_changed [OF one Cons.prems(1)] this] show ?thesis
      by (rule files_changed_trans [OF one])
  next
    case (Some y)
    then show ?thesis using Cons.prems(2) h one by simp
  qed
qed simp

lemma run_events_handles: "\<exists>k. snd (run_events handle evs fin h) = snd (handle_all handle (take k evs) h)"
proof (induction evs arbitrary: h)
  case Nil
  then show ?case by (cases fin) simp_all
next
  case (Cons ev evs)
  let ?step = "case handle of None \<Rightarrow> (None, h) | Some f \<Rightarrow> f ev h"
  obtain e h1 where step: "?step = (e, h1)" by fastforce
  show ?case
  proof (cases "e = None \<and> continuing ev")
    case True
    obtain k where "snd (run_events handle evs fin h1) = snd (handle_all handle (take k evs) h1)" using Cons by blast
    then show ?thesis using True step by (intro exI [of _ "Suc k"]) (auto simp: continuing_def)
  next
    case False
    then have "snd (run_events handle (ev # evs) fin h) = h1"
      using step by (cases e; cases "evType ev") (auto simp: continuing_def split: option.splits)
    then show ?thesis using step by (intro exI [of _ 1]) (auto split: option.splits)
  qed
qed

lemma client_Run_handles:
  "\<exists>evs. snd (client_Run enc exchange spec archive writes handle h) = snd (handle_all handle evs h)"
proof -
  have none: "\<exists>evs. h = snd (handle_all handle evs h)" by (intro exI [of _ "[]"]) simp
  have loop: "\<exists>evs. snd (run_events handle es fin h) = snd (handle_all handle evs h)" for es fin
    using run_events_handles [of handle es fin h] by blast
  show ?thesis
    unfolding client_Run_def
    by (auto split: option.splits prod.splits sum.splits net_error.splits upload_error.splits intro: none loop)
qed

lemma print_world [simp]: "clWorld (print_err l c) = clWorld c" "clWorld (print_out l c) = clWorld c"
  by (auto simp: print_err_def print_out_def write_stderr_def write_stdout_def split: list.splits option.splits)

lemma printUsage_world [simp]: "clWorld (printUsage c) = clWorld c"
proof -
  have "clWorld (foldl (\<lambda>c l. print_err l c) c ls) = clWorld c" for ls by (induction ls arbitrary: c) simp_all
  then show ?thesis by (simp add: printUsage_def)
qed

lemma remove_archive_world [simp]: "clWorld (remove_archive env c) = clWorld c"
  by (simp add: remove_archive_def split: option.splits)

lemma run_job_world:
  assumes "run_job env spec dir archive c = (code, c')" and "clean_abs dir"
    and "at_dir (w_fs (clWorld c)) (comps dir) D"
  shows "files_changed {D @ [n] | n. n \<in> set (map Base (jArtifacts spec)) \<and> is_name n} (w_fs (clWorld c)) (w_fs (clWorld c'))"
proof -
  let ?h = "Some (handle_event (ceErrnoText env) dir (artifactBaseNames (jArtifacts spec)))"
  let ?run = "client_Run (ceEncode env) (ceExchange env) spec (Some archive) (ceWrites env) ?h c"
  have "clWorld c' = clWorld (snd ?run)"
    using assms(1) by (auto simp: run_job_def Let_def split: prod.splits sum.splits)
  moreover from client_Run_handles obtain evs where "snd ?run = snd (handle_all ?h evs c)" by (rule exE)
  ultimately show ?thesis
    using handle_all_confined [where names = "map Base (jArtifacts spec)" and et = "ceErrnoText env" and evs = evs,
        OF assms(2,3) surjective_pairing]
    by (simp add: artifactBaseNames_def)
qed

lemma cli_run_cases:
  assumes "cli_run env args c = (code, c')"
  obtains (early) "clWorld c' = clWorld c" and "code = 2 \<or> code = clientFailureExitCode"
  | (sync) w cmd cargs opts info i where "parseRunArgs (tl args) = Inr (w, cmd, cargs, opts)"
      and "client_WorkerInfo (ceInfo env) = Inr info" and "NewJobID (ceRandom env) = Inr i"
      and "sync_and_run env info i cmd cargs opts c = (code, c')"
proof (cases "parseRunArgs (tl args)")
  case (Inl e)
  then show thesis using assms by (intro early) (auto simp: cli_run_def Let_def split: if_splits)
next
  case (Inr x)
  obtain w cmd cargs opts where x: "x = (w, cmd, cargs, opts)" by (cases x) auto
  show thesis
  proof (cases "\<exists>info i. client_WorkerInfo (ceInfo env) = Inr info \<and> NewJobID (ceRandom env) = Inr i
      \<and> sync_and_run env info i cmd cargs opts c = (code, c')")
    case True
    then show thesis using sync Inr x by blast
  next
    case False
    then show thesis
      using assms Inr x
      by (intro early) (auto simp: cli_run_def Let_def split: if_splits option.splits sum.splits)
  qed
qed

lemma sync_and_run_cases:
  assumes "sync_and_run env info i cmd cargs opts c = (code, c')"
  obtains (early) "clWorld c' = clWorld c" and "code = clientFailureExitCode"
  | (ran) dir archive c1 c2 where "ceGetwd env = Inr dir"
      and "run_job env (cli_job i cmd cargs (capPlatform (hd (wiExecutors info))) opts) dir archive c1 = (code, c2)"
      and "clWorld c1 = clWorld c" and "clWorld c' = clWorld c2" and "c' = remove_archive env c2"
proof (cases "oNetwork opts \<noteq> [] \<and> \<not> containsString (wiNetworkModes info) (oNetwork opts)")
  case True
  then show thesis using assms by (intro early) (auto simp: sync_and_run_def)
next
  case net: False
  show thesis
  proof (cases "\<exists>dir archive. ceGetwd env = Inr dir \<and> ceArchive env dir (oExclusions opts) = Inr archive \<and> ceOpen env = None")
    case False
    then show thesis
      using assms net by (intro early) (auto simp: sync_and_run_def Let_def split: sum.splits option.splits)
  next
    case True
    then obtain dir archive where dir: "ceGetwd env = Inr dir"
      and a: "ceArchive env dir (oExclusions opts) = Inr archive" "ceOpen env = None" by blast
    let ?c1 = "print_out ''syncing workspace...'' (print_out (''worker: '' @ wiName info) c)"
    obtain code' c2 where r: "run_job env (cli_job i cmd cargs (capPlatform (hd (wiExecutors info))) opts) dir archive ?c1
        = (code', c2)" by fastforce
    have "(code, c') = (code', remove_archive env c2)"
      using assms unfolding sync_and_run_def Let_def if_not_P [OF net]
      by (simp only: dir a r sum.case option.case prod.case)
    then show thesis using r dir by (intro ran [of dir archive ?c1 c2]) simp_all
  qed
qed

section \<open>Properties\<close>

text \<open>C10. A hostile worker and the working directory.  Whatever the worker answers and streams, \<^verbatim>\<open>yonk run\<close>
  changes nothing in the file system but regular files directly in the working directory that carry the base
  name of an artifact the user asked for: no directory, no symbolic link and no file elsewhere, also
  when a link of that name stands in the working directory.\<close>

theorem cli_artifacts_confined:
  assumes "ceGetwd env = Inr dir" and "clean_abs dir" and "resolve (w_fs (clWorld c)) dir = Inr D"
    and "is_dir (w_fs (clWorld c)) D" and "cli_run env args c = (code, c')"
  shows "files_changed {D @ [n] | n. is_name n \<and> (\<exists>w cmd cargs opts. parseRunArgs (tl args) = Inr (w, cmd, cargs, opts)
      \<and> n \<in> set (map Base (oArtifacts opts)))} (w_fs (clWorld c)) (w_fs (clWorld c'))"
    (is "files_changed ?S _ _")
proof -
  note R = clean_absD [OF assms(2)]
  have at: "at_dir (w_fs (clWorld c)) (comps dir) D" using assms(3,4) R by (simp add: at_dir_resolve)
  from assms(5) show ?thesis
  proof (cases rule: cli_run_cases)
    case (sync w cmd cargs opts info i)
    from sync(4) show ?thesis
    proof (cases rule: sync_and_run_cases)
      case (ran dir' archive c1 c2)
      have sub: "{D @ [n] | n. n \<in> set (map Base (oArtifacts opts)) \<and> is_name n} \<subseteq> ?S" using sync(1) by auto
      have "files_changed {D @ [n] | n. n \<in> set (map Base (oArtifacts opts)) \<and> is_name n}
          (w_fs (clWorld c)) (w_fs (clWorld c'))"
        using run_job_world [OF ran(2), of D] assms(1,2) at ran(1,3,4) by (simp add: cli_job_def)
      then show ?thesis by (rule files_changed_mono [OF sub])
    qed simp
  qed simp
qed


text \<open>C34. The job the command line builds.  With a generated id and a platform the worker names, the only
  reasons for the worker to refuse it are the lengths of the command and its arguments and the
  number and form of the artifacts: resources, timeout, network mode, working directory and id
  always pass.\<close>

theorem cli_job_valid:
  assumes "parseRunArgs args = Inr (w, cmd, cargs, opts)" and "NewJobID (Inr bs) = Inr i" and "length bs = 12"
    and "pOS plat \<noteq> []" and "pArch plat \<noteq> []"
  shows "Validate (cli_job i cmd cargs plat opts) = None \<longleftrightarrow>
    length cmd \<le> maxCommandLength \<and> length cargs \<le> maxArguments
    \<and> (case args_total 0 cargs of Inl _ \<Rightarrow> False | Inr n \<Rightarrow> n \<le> maxTotalArgBytes)
    \<and> length (oArtifacts opts) \<le> 16 \<and> check_artifacts (oArtifacts opts) = None"
proof -
  have hex: "is_hex ch \<Longrightarrow> id_char ch" for ch by (auto simp: is_hex_def id_char_def)
  have "i = ''job_'' @ hex_encode bs" using assms(2) by (simp add: NewJobID_def)
  then have i: "validID i"
    using assms(3) by (auto simp: validID_def list_all_iff dest!: hex_encode_hex intro: hex) (simp_all add: id_char_def)
  note ok = parseRunArgs_ok [OF assms(1)]
  show ?thesis
    using i ok assms(4,5)
    by (auto simp: Validate_def cli_job_def ProtocolVersion_def options_ok_def not_less not_le
        split: sum.splits option.splits if_splits)
qed

text \<open>An exclusion given before \<^verbatim>\<open>--no-default-excludes\<close> is dropped with the defaults; after it, it is kept.\<close>

lemma no_default_excludes_order:
  "map_sum id (\<lambda>(w, cmd, as, opts). oExclusions opts)
     (parseRunArgs [''w'', ''--exclude'', ''secret'', ''--no-default-excludes'', ''--'', ''ls'']) = Inr []"
  "map_sum id (\<lambda>(w, cmd, as, opts). oExclusions opts)
     (parseRunArgs [''w'', ''--no-default-excludes'', ''--exclude'', ''secret'', ''--'', ''ls'']) = Inr [''secret'']"
  by code_simp+

section \<open>Witnesses\<close>

definition sample_cli :: cli where
  "sample_cli = \<lparr>clOut = [], clErr = [], clOutFaults = [], clErrFaults = [],
     clWorld = \<lparr>w_fs = [([''h''], NDir 511), ([''h'', ''b''], NLink ''/x'')], w_faults = []\<rparr>\<rparr>"

text \<open>A worker that sends an artifact by the name of a link in the working directory.\<close>

definition sample_answer :: answer where
  "sample_answer = \<lparr>anStatus = 200, anError = None, anInfo = Inr sample_info,
     anEvents = [data_event EventStdout ''out'', artifact_event ''a'' ''data'', completion_event (zero_result\<lparr>rExitCode := 3\<rparr>)],
     anEnd = StreamEOF\<rparr>"

definition sample_cli_env :: cli_env where
  "sample_cli_env = \<lparr>ceParseText = (\<lambda>_. []), ceClientText = (\<lambda>_. []), ceErrnoText = (\<lambda>_. []), ceSeconds = (\<lambda>_. ''0.0s''),
     ceMegabytes = (\<lambda>_. []), ceModes = (\<lambda>_. []), ceNew = (\<lambda>_. None), ceInfo = (\<lambda>_. Inr sample_answer),
     ceRandom = Inr (replicate 12 0), ceGetwd = Inr ''/h'', ceArchive = (\<lambda>_ _. Inr no_archive), ceOpen = None,
     ceRemove = None, ceEncode = (\<lambda>_. []), ceExchange = (\<lambda>_. Inr sample_answer), ceWrites = [], ceCanceled = False\<rparr>"

definition sample_args :: "string list" where
  "sample_args = [''run'', ''w'', ''--artifact'', ''out/a'', ''--artifact'', ''b'', ''--'', ''make'', ''all'']"

lemma sample_cli_code: "fst (cli_run sample_cli_env sample_args sample_cli) = 3"
  by code_simp

theorem cli_artifacts_confined_witness:
  "map_of (w_fs (clWorld (snd (cli_run sample_cli_env sample_args sample_cli)))) [''h'', ''b''] = Some (NLink ''/x'')"
proof -
  obtain code c' where r: "cli_run sample_cli_env sample_args sample_cli = (code, c')" by fastforce
  have "ceGetwd sample_cli_env = Inr ''/h''" by (simp add: sample_cli_env_def)
  moreover have "clean_abs ''/h''" "resolve (w_fs (clWorld sample_cli)) ''/h'' = Inr [''h'']"
    "is_dir (w_fs (clWorld sample_cli)) [''h'']" by code_simp+
  ultimately have "\<exists>S. files_changed S (w_fs (clWorld sample_cli)) (w_fs (clWorld c'))"
    using cli_artifacts_confined [OF _ _ _ _ r] by blast
  moreover have "map_of (w_fs (clWorld sample_cli)) [''h'', ''b''] = Some (NLink ''/x'')" by code_simp
  ultimately show ?thesis using r unfolding files_changed_def by fastforce
qed


theorem cli_job_valid_witness:
  "case parseRunArgs (tl sample_args) of
     Inr (w, cmd, cargs, opts) \<Rightarrow> Validate (cli_job ''job_000000000000000000000000'' cmd cargs \<lparr>pOS = ''linux'', pArch = ''amd64''\<rparr> opts) = None
   | Inl _ \<Rightarrow> False"
proof -
  have "case parseRunArgs (tl sample_args) of
      Inr (w, cmd, cargs, opts) \<Rightarrow> cmd = ''make'' \<and> cargs = [''all''] \<and> oArtifacts opts = [''out/a'', ''b''] | Inl _ \<Rightarrow> False"
    by code_simp
  then obtain w opts where p: "parseRunArgs (tl sample_args) = Inr (w, ''make'', [''all''], opts)"
    and a: "oArtifacts opts = [''out/a'', ''b'']" by (auto split: sum.splits prod.splits)
  have i: "NewJobID (Inr (replicate 12 0)) = Inr ''job_000000000000000000000000''" by code_simp
  have art: "check_artifacts [''out/a'', ''b''] = None" by code_simp
  from cli_job_valid [OF p i, of "\<lparr>pOS = ''linux'', pArch = ''amd64''\<rparr>"] p a art show ?thesis
    by (simp add: maxCommandLength_def maxArguments_def maxTotalArgBytes_def maxArgumentLength_def)
qed

end
