(* ===== verification/Guest.thy ===== *)
theory Guest
  imports Firecracker
begin

text \<open>
  The agent inside the microVM (\<^verbatim>\<open>internal/guest/agent.go\<close>): its message encoder and log,
  \<^verbatim>\<open>runJob\<close> with every early return, the artifacts, the classification of the outcome, and
  \<^verbatim>\<open>Run\<close>.  What the guest kernel and the job's process do is an argument, the record
  \<open>guest_env\<close>; the text of a log line is a function of its parts.

  The lemmas: the shape of what the agent sends, the outcome it reports, and, together with the
  host's \<^verbatim>\<open>readGuest\<close>, that the host forwards what the guest's process wrote and its exit code.

  The readers of the process's pipes run beside \<^verbatim>\<open>cmd.Wait\<close>, which closes the pipes once the process
  has exited: \<open>geRead\<close> is the number of reads that came before.
\<close>

section \<open>The connection and the log\<close>

definition workspaceDevice :: string where "workspaceDevice = ''/dev/vdb''"
definition workspaceMount :: string where "workspaceMount = ''/workspace''"
definition maxArtifactBytes :: int where "maxArtifactBytes = 512 * 2 ^ 20"

text \<open>\<^verbatim>\<open>agFaults\<close> tells which writes fail; the encoder fails for good after the first.  \<open>agLogging\<close>: the
  log has the connection.\<close>

record agent =
  agSent :: "message list"
  agBroken :: bool
  agFaults :: "bool list"
  agLogging :: bool
  agConsole :: "bytes list"

definition lockedEncoder_Encode :: "message \<Rightarrow> agent \<Rightarrow> sink_error option \<times> agent" where
  "lockedEncoder_Encode m ag =
     (if agBroken ag then (Some EncodeError, ag)
      else case agFaults ag of
        True # fs \<Rightarrow> (Some EncodeError, ag\<lparr>agBroken := True, agFaults := fs\<rparr>)
      | False # fs \<Rightarrow> (None, ag\<lparr>agSent := agSent ag @ [m], agFaults := fs\<rparr>)
      | [] \<Rightarrow> (None, ag\<lparr>agSent := agSent ag @ [m]\<rparr>))"

definition guestEventWriter_Write :: "msg_type \<Rightarrow> bytes \<Rightarrow> agent \<Rightarrow> sink_error option \<times> agent" where
  "guestEventWriter_Write t p ag = lockedEncoder_Encode (data_msg t p) ag"

definition teeLog_Write :: "bytes \<Rightarrow> agent \<Rightarrow> agent" where
  "teeLog_Write p ag =
     (let ag1 = ag\<lparr>agConsole := agConsole ag @ [p]\<rparr>
      in if agLogging ag1 then snd (lockedEncoder_Encode (data_msg MsgLog p) ag1) else ag1)"

definition sendResult :: "guest_result \<Rightarrow> agent \<Rightarrow> agent" where
  "sendResult g ag = snd (lockedEncoder_Encode ((plain_msg MsgResult)\<lparr>mResult := Some g\<rparr>) ag)"

text \<open>The log lines.\<close>

datatype log_line =
  MountsReady
| PidsUnavailable string
| VsockConnected
| ResolvFailed string
| UnsafeArtifact string
| ArtifactUnavailable string string
| ArtifactRejected string
| ArtifactUnread string string
| ArtifactUnsent string
| ArtifactSent string nat
| JobFinished string int
| ResultSent

section \<open>What the guest kernel and the process do\<close>

record stat_info =
  siRegular :: bool
  siSize :: int

record guest_proc =
  gpUserMillis :: int
  gpSystemMillis :: int
  gpSignal :: "int option"
  gpExitCode :: int

record guest_env =
  geText :: "log_line \<Rightarrow> bytes"
  geChdir :: "string option"
  geLookPath :: "string \<Rightarrow> string + string"
  geStdoutPipe :: "string option"
  geStderrPipe :: "string option"
  geStart :: "string option"
  geWritten :: "(stream \<times> bytes) list"
  geRead :: nat
  geState :: "guest_proc option"
  geWaitErr :: string
  geInbox :: "message list" \<comment> \<open>decoded from the host before the outcome is classified\<close>
  geDeadline :: bool
  gePeak :: int
  geMillis :: int
  geStat :: "string \<Rightarrow> string + stat_info"
  geReadFile :: "string \<Rightarrow> string + bytes"

definition log_to :: "guest_env \<Rightarrow> log_line \<Rightarrow> agent \<Rightarrow> agent" where
  "log_to env l ag = teeLog_Write (geText env l) ag"

section \<open>Operations\<close>

text \<open>The messages from the host up to the first that cancels.\<close>

fun watchCancellation :: "message list \<Rightarrow> bool" where
  "watchCancellation [] = False"
| "watchCancellation (m # ms) = (if mType m = MsgCancel then True else watchCancellation ms)"

fun sendArtifacts :: "guest_env \<Rightarrow> string list \<Rightarrow> agent \<Rightarrow> agent" where
  "sendArtifacts env [] ag = ag"
| "sendArtifacts env (name # names) ag =
     (let path = PJoin workspaceMount name in
      if \<not> HasPrefix path (workspaceMount @ ''/'')
      then sendArtifacts env names (log_to env (UnsafeArtifact name) ag)
      else case geStat env path of
        Inl e \<Rightarrow> sendArtifacts env names (log_to env (ArtifactUnavailable name e) ag)
      | Inr info \<Rightarrow>
          if \<not> siRegular info \<or> siSize info > maxArtifactBytes
          then sendArtifacts env names (log_to env (ArtifactRejected name) ag)
          else (case geReadFile env path of
                  Inl e \<Rightarrow> sendArtifacts env names (log_to env (ArtifactUnread name e) ag)
                | Inr d \<Rightarrow>
                    (case lockedEncoder_Encode ((data_msg MsgArtifact d)\<lparr>mName := Base name\<rparr>) ag of
                       (Some _, ag1) \<Rightarrow> log_to env (ArtifactUnsent name) ag1
                     | (None, ag1) \<Rightarrow>
                         sendArtifacts env names (log_to env (ArtifactSent name (length d)) ag1))))"

definition executor_error_result :: guest_result where
  "executor_error_result = \<lparr>gExitCode = 0, gTerminationReason = ''executor_error'', gDurationMillis = 0,
     gCPUTimeMillis = 0, gPeakMemoryBytes = 0, gMessage = []\<rparr>"

text \<open>The result of a process that was started.\<close>

definition classify_outcome :: "guest_env \<Rightarrow> guest_result" where
  "classify_outcome env =
     (let r = executor_error_result\<lparr>gDurationMillis := geMillis env, gPeakMemoryBytes := gePeak env\<rparr>;
          r = (case geState env of
                 None \<Rightarrow> r
               | Some p \<Rightarrow>
                   (let r = r\<lparr>gCPUTimeMillis := wrap64 (gpUserMillis p + gpSystemMillis p)\<rparr>
                    in case gpSignal p of
                         Some sig \<Rightarrow> r\<lparr>gExitCode := 128 + sig\<rparr>
                       | None \<Rightarrow> if gpExitCode p \<ge> 0 then r\<lparr>gExitCode := gpExitCode p\<rparr> else r))
      in if watchCancellation (geInbox env)
         then r\<lparr>gExitCode := 130, gTerminationReason := ''cancelled''\<rparr>
         else if geDeadline env
         then r\<lparr>gExitCode := 124, gTerminationReason := ''timeout''\<rparr>
         else if geState env \<noteq> None
         then r\<lparr>gTerminationReason := ''completed''\<rparr>
         else r\<lparr>gExitCode := 126, gTerminationReason := ''command_failed'', gMessage := geWaitErr env\<rparr>)"

text \<open>The two copying goroutines, up to the reads that came before the pipes were closed.\<close>

definition copy_output :: "guest_env \<Rightarrow> agent \<Rightarrow> agent" where
  "copy_output env ag =
     snd (copy_streams (guestEventWriter_Write MsgStdout) (guestEventWriter_Write MsgStderr)
            (take (geRead env) (geWritten env)) True True ag)"

definition run_started :: "job \<Rightarrow> guest_env \<Rightarrow> agent \<Rightarrow> agent" where
  "run_started spec env ag =
     (let ag1 = sendArtifacts env (jArtifacts spec) (copy_output env ag);
          g = classify_outcome env
      in log_to env ResultSent (sendResult g
           (log_to env (JobFinished (gTerminationReason g) (gExitCode g)) ag1)))"

text \<open>\<^verbatim>\<open>runJob\<close>: the error it returns, and the agent.\<close>

definition runJob :: "job \<Rightarrow> guest_env \<Rightarrow> agent \<Rightarrow> string option \<times> agent" where
  "runJob spec env ag =
     (let result = executor_error_result;
          early = (\<lambda>code m. sendResult (result\<lparr>gExitCode := code, gMessage := m\<rparr>) ag)
      in case geChdir env of
           Some e \<Rightarrow> (Some e, early 0 e)
         | None \<Rightarrow>
             (case geLookPath env (jCommand spec) of
                Inl e \<Rightarrow>
                  (None, sendResult (result\<lparr>gExitCode := 127, gTerminationReason := ''command_not_found'',
                           gMessage := jCommand spec @ '': '' @ e\<rparr>) ag)
              | Inr path \<Rightarrow>
                  (case geStdoutPipe env of
                     Some e \<Rightarrow> (Some e, early 126 e)
                   | None \<Rightarrow>
                       (case geStderrPipe env of
                          Some e \<Rightarrow> (Some e, early 126 e)
                        | None \<Rightarrow>
                            (case geStart env of
                               Some e \<Rightarrow>
                                 (None, sendResult (result\<lparr>gExitCode := 126,
                                          gTerminationReason := ''command_failed'', gMessage := e\<rparr>) ag)
                             | None \<Rightarrow> (None, run_started spec env ag))))))"

section \<open>Booting\<close>

text \<open>A loop that tries a fixed number of times and remembers the last error.\<close>

fun retry :: "nat \<Rightarrow> nat \<Rightarrow> (nat \<Rightarrow> 'e + 'a) \<Rightarrow> 'e option \<Rightarrow> 'e option + 'a" where
  "retry 0 attempt try lastErr = Inl lastErr"
| "retry (Suc left) attempt try lastErr =
     (case try attempt of
        Inr a \<Rightarrow> Inr a
      | Inl e \<Rightarrow> retry left (attempt + 1) try (Some e))"

definition dialHost :: "(nat \<Rightarrow> string + 'c) \<Rightarrow> string option + 'c" where
  "dialHost dial = retry 100 0 dial None"

datatype mount_error = EBUSY | MountErr string

definition basic_mounts :: "(string \<times> string \<times> string) list" where
  "basic_mounts =
     [(''proc'', ''/proc'', ''proc''), (''sysfs'', ''/sys'', ''sysfs''), (''devtmpfs'', ''/dev'', ''devtmpfs''),
      (''tmpfs'', ''/tmp'', ''tmpfs''), (''tmpfs'', ''/run'', ''tmpfs'')]"

fun mount_all ::
  "(string \<Rightarrow> string option) \<Rightarrow> (string \<Rightarrow> string \<Rightarrow> string \<Rightarrow> mount_error option) \<Rightarrow>
   (string \<times> string \<times> string) list \<Rightarrow> string option" where
  "mount_all mkdir mnt [] = None"
| "mount_all mkdir mnt ((src, dst, fstype) # ms) =
     (case mkdir dst of
        Some e \<Rightarrow> Some (''create '' @ dst @ '': '' @ e)
      | None \<Rightarrow>
          (case mnt src dst fstype of
             None \<Rightarrow> mount_all mkdir mnt ms
           | Some EBUSY \<Rightarrow> mount_all mkdir mnt ms
           | Some (MountErr e) \<Rightarrow> Some (''mount '' @ fstype @ '' on '' @ dst @ '': '' @ e)))"

definition mountBasicsPlatform ::
  "(string \<Rightarrow> string option) \<Rightarrow> (string \<Rightarrow> string \<Rightarrow> string \<Rightarrow> mount_error option) \<Rightarrow> string option" where
  "mountBasicsPlatform mkdir mnt = mount_all mkdir mnt basic_mounts"

definition mountWorkspacePlatform :: "(string \<Rightarrow> string option) \<Rightarrow> (nat \<Rightarrow> string option) \<Rightarrow> string option" where
  "mountWorkspacePlatform mkdir try =
     (case mkdir workspaceMount of
        Some e \<Rightarrow> Some (''create workspace mount point: '' @ e)
      | None \<Rightarrow>
          (case retry 50 0 (\<lambda>i. case try i of None \<Rightarrow> Inr () | Some e \<Rightarrow> Inl e) None of
             Inr _ \<Rightarrow> None
           | Inl lastErr \<Rightarrow>
               Some (''mount workspace disk '' @ workspaceDevice @ '': '' @ (case lastErr of None \<Rightarrow> ''%!w(<nil>)'' | Some e \<Rightarrow> e))))"

definition guestPidsLimit :: nat where "guestPidsLimit = 256"

text \<open>\<^verbatim>\<open>enablePidsLimit\<close>: the file written, when all goes well.\<close>

definition enablePidsLimit ::
  "(string \<Rightarrow> string option) \<Rightarrow> (string \<Rightarrow> string \<Rightarrow> string \<Rightarrow> mount_error option) \<Rightarrow> (string \<Rightarrow> string \<Rightarrow> string option) \<Rightarrow>
   string option" where
  "enablePidsLimit mkdir mnt write =
     (let root = ''/sys/fs/cgroup/pids'' in
      case mkdir root of
        Some e \<Rightarrow> Some e
      | None \<Rightarrow>
          (case mnt ''cgroup'' root ''cgroup'' of
             Some EBUSY \<Rightarrow> Some ''device or resource busy''
           | Some (MountErr e) \<Rightarrow> Some e
           | None \<Rightarrow> write (PJoin root ''pids.max'') ''256''))"

section \<open>The resolver\<close>

definition nameserver_of :: "string \<Rightarrow> string list" where
  "nameserver_of line =
     (case Fields line of
        key # server # _ \<Rightarrow> if key = ''nameserver'' then [server] else []
      | _ \<Rightarrow> [])"

definition pnpNameservers :: "string + string \<Rightarrow> string + string list" where
  "pnpNameservers pnp =
     (case pnp of
        Inl e \<Rightarrow> Inl e
      | Inr data \<Rightarrow> Inr (concat (map nameserver_of (Split newline data))))"

definition resolv_conf :: "string list \<Rightarrow> string" where
  "resolv_conf servers = concat (map (\<lambda>s. ''nameserver '' @ s @ [newline]) servers)"

text \<open>The content written, and the error.\<close>

definition setupResolvConf ::
  "string + string \<Rightarrow> (string \<Rightarrow> string \<Rightarrow> string option) \<Rightarrow> (string \<Rightarrow> string \<Rightarrow> string option) \<Rightarrow> string option" where
  "setupResolvConf pnp write bind =
     (let servers = (case pnpNameservers pnp of Inl _ \<Rightarrow> [''1.1.1.1''] | Inr [] \<Rightarrow> [''1.1.1.1''] | Inr ss \<Rightarrow> ss)
      in case write ''/run/resolv.conf'' (resolv_conf servers) of
           Some e \<Rightarrow> Some (''write /run/resolv.conf: '' @ e)
         | None \<Rightarrow>
             (case bind ''/run/resolv.conf'' ''/etc/resolv.conf'' of
                Some e \<Rightarrow> Some (''bind-mount resolv.conf: '' @ e)
              | None \<Rightarrow> None))"

section \<open>Run\<close>

record boot_env =
  beMkdir :: "string \<Rightarrow> string option"
  beMount :: "string \<Rightarrow> string \<Rightarrow> string \<Rightarrow> mount_error option"
  beWrite :: "string \<Rightarrow> string \<Rightarrow> string option"
  beBind :: "string \<Rightarrow> string \<Rightarrow> string option"
  beDial :: "nat \<Rightarrow> string + unit"
  beFirst :: "string + message" \<comment> \<open>the first message decoded from the host\<close>
  bePnp :: "string + string"
  beDisk :: "nat \<Rightarrow> string option" \<comment> \<open>the attempts to mount the workspace\<close>

datatype agent_error =
  BootFailed string
| HomeFailed string
| DialFailed "string option"
| HelloFailed
| ReceiveFailed string
| NotAJob msg_type
| WorkspaceFailed string
| JobFailed string

definition resolver_step :: "boot_env \<Rightarrow> guest_env \<Rightarrow> job \<Rightarrow> agent \<Rightarrow> agent" where
  "resolver_step boot env spec ag =
     (if jNetwork spec = ''egress''
      then (case setupResolvConf (bePnp boot) (beWrite boot) (beBind boot) of
              Some e \<Rightarrow> log_to env (ResolvFailed e) ag
            | None \<Rightarrow> ag)
      else ag)"

text \<open>From the connection on.\<close>

definition serve_host :: "boot_env \<Rightarrow> guest_env \<Rightarrow> agent \<Rightarrow> agent_error option \<times> agent" where
  "serve_host boot env ag =
     (let ag1 = log_to env VsockConnected (ag\<lparr>agLogging := True\<rparr>) in
      case lockedEncoder_Encode (plain_msg MsgHello) ag1 of
        (Some _, ag2) \<Rightarrow> (Some HelloFailed, ag2)
      | (None, ag2) \<Rightarrow>
          (case beFirst boot of
             Inl e \<Rightarrow> (Some (ReceiveFailed e), ag2)
           | Inr msg \<Rightarrow>
               (case mJob msg of
                  None \<Rightarrow> (Some (NotAJob (mType msg)), ag2)
                | Some spec \<Rightarrow>
                    if mType msg \<noteq> MsgJob then (Some (NotAJob (mType msg)), ag2)
                    else
                      (let ag3 = resolver_step boot env spec ag2
                       in case mountWorkspacePlatform (beMkdir boot) (beDisk boot) of
                            Some e \<Rightarrow>
                              (Some (WorkspaceFailed e),
                               sendResult (executor_error_result\<lparr>gExitCode := 137, gMessage := e\<rparr>) ag3)
                          | None \<Rightarrow>
                              (case runJob spec env ag3 of
                                 (e, ag4) \<Rightarrow> (map_option JobFailed e, ag4))))))"

definition guest_Run :: "boot_env \<Rightarrow> guest_env \<Rightarrow> agent \<Rightarrow> agent_error option \<times> agent" where
  "guest_Run boot env ag =
     (case mountBasicsPlatform (beMkdir boot) (beMount boot) of
        Some e \<Rightarrow> (Some (BootFailed e), ag)
      | None \<Rightarrow>
          (let ag1 = log_to env MountsReady ag;
               ag2 = (case enablePidsLimit (beMkdir boot) (beMount boot) (beWrite boot) of
                        Some e \<Rightarrow> log_to env (PidsUnavailable e) ag1
                      | None \<Rightarrow> ag1)
           in case beMkdir boot ''/tmp/home'' of
                Some e \<Rightarrow> (Some (HomeFailed e), ag2)
              | None \<Rightarrow>
                  (case dialHost (beDial boot) of
                     Inl e \<Rightarrow> (Some (DialFailed e), ag2)
                   | Inr _ \<Rightarrow> serve_host boot env ag2)))"

text \<open>The init binary (\<^verbatim>\<open>cmd/yonk-guest/main.go\<close>): the console when it can be opened, the error written to it, and
  the exit status.\<close>

datatype console = Console | Discard

definition openConsole :: "string option \<Rightarrow> console" where
  "openConsole err = (case err of None \<Rightarrow> Console | Some _ \<Rightarrow> Discard)"

definition guest_main ::
  "string option \<Rightarrow> boot_env \<Rightarrow> guest_env \<Rightarrow> agent \<Rightarrow> int \<times> agent_error list \<times> agent" where
  "guest_main consoleErr boot env ag =
     (case guest_Run boot env ag of
        (None, ag1) \<Rightarrow> (0, [], ag1)
      | (Some e, ag1) \<Rightarrow> (1, (if openConsole consoleErr = Console then [e] else []), ag1))"

section \<open>What the agent sends\<close>

text \<open>The messages a run is meant to send, with a log that has the connection.\<close>

definition log_msg :: "guest_env \<Rightarrow> log_line \<Rightarrow> message" where
  "log_msg env l = data_msg MsgLog (geText env l)"

definition result_msg :: "guest_result \<Rightarrow> message" where
  "result_msg g = (plain_msg MsgResult)\<lparr>mResult := Some g\<rparr>"

definition chunk_msg :: "stream \<times> bytes \<Rightarrow> message" where
  "chunk_msg c = data_msg (case fst c of Stdout \<Rightarrow> MsgStdout | Stderr \<Rightarrow> MsgStderr) (snd c)"

definition artifact_data :: "guest_env \<Rightarrow> string \<Rightarrow> log_line + bytes" where
  "artifact_data env name =
     (let path = PJoin workspaceMount name in
      if \<not> HasPrefix path (workspaceMount @ ''/'') then Inl (UnsafeArtifact name)
      else case geStat env path of
        Inl e \<Rightarrow> Inl (ArtifactUnavailable name e)
      | Inr info \<Rightarrow>
          if \<not> siRegular info \<or> siSize info > maxArtifactBytes then Inl (ArtifactRejected name)
          else (case geReadFile env path of Inl e \<Rightarrow> Inl (ArtifactUnread name e) | Inr d \<Rightarrow> Inr d))"

definition artifact_msgs :: "guest_env \<Rightarrow> string \<Rightarrow> message list" where
  "artifact_msgs env name =
     (case artifact_data env name of
        Inl l \<Rightarrow> [log_msg env l]
      | Inr d \<Rightarrow> [(data_msg MsgArtifact d)\<lparr>mName := Base name\<rparr>, log_msg env (ArtifactSent name (length d))])"

definition started_msgs :: "job \<Rightarrow> guest_env \<Rightarrow> message list" where
  "started_msgs spec env =
     map chunk_msg (take (geRead env) (geWritten env)) @ concat (map (artifact_msgs env) (jArtifacts spec))
     @ [log_msg env (JobFinished (gTerminationReason (classify_outcome env)) (gExitCode (classify_outcome env)))]"

definition agent_ok :: "agent \<Rightarrow> bool" where
  "agent_ok ag = (\<not> agBroken ag \<and> agFaults ag = [])"

text \<open>From \<open>ag\<close> to \<open>ag'\<close> a prefix of \<open>ms\<close> was sent, all of it unless a write failed.\<close>

definition sends :: "agent \<Rightarrow> message list \<Rightarrow> agent \<Rightarrow> bool" where
  "sends ag ms ag' =
     (agLogging ag' = agLogging ag
      \<and> (agBroken ag \<longrightarrow> agBroken ag' \<and> agSent ag' = agSent ag)
      \<and> (\<exists>k \<le> length ms. agSent ag' = agSent ag @ take k ms \<and> (k < length ms \<longrightarrow> agBroken ag'))
      \<and> (agent_ok ag \<longrightarrow> agent_ok ag' \<and> agSent ag' = agSent ag @ ms))"

lemma sends_refl [simp]: "sends ag [] ag"
  by (simp add: sends_def)

lemma sends_trans:
  assumes "sends a ms b" and "sends b ns c"
  shows "sends a (ms @ ns) c"
proof -
  obtain k where k: "k \<le> length ms" "agSent b = agSent a @ take k ms" "k < length ms \<longrightarrow> agBroken b"
    using assms(1) by (auto simp: sends_def)
  obtain j where j: "j \<le> length ns" "agSent c = agSent b @ take j ns" "j < length ns \<longrightarrow> agBroken c"
    using assms(2) by (auto simp: sends_def)
  have "\<exists>i \<le> length (ms @ ns). agSent c = agSent a @ take i (ms @ ns) \<and> (i < length (ms @ ns) \<longrightarrow> agBroken c)"
  proof (cases "k < length ms")
    case True
    then have "agSent c = agSent b" "agBroken c" using k assms(2) by (auto simp: sends_def)
    then show ?thesis using k by (intro exI [of _ k]) auto
  next
    case False
    then show ?thesis using k j by (intro exI [of _ "length ms + j"]) auto
  qed
  then show ?thesis using assms by (auto simp: sends_def)
qed

lemma Encode_cases:
  assumes "lockedEncoder_Encode m ag = (r, ag')"
  obtains (ok) "r = None" and "\<not> agBroken ag" and "agSent ag' = agSent ag @ [m]" and "\<not> agBroken ag'"
      and "agFaults ag' = tl (agFaults ag)" and "agLogging ag' = agLogging ag"
  | (fail) "r = Some EncodeError" and "agSent ag' = agSent ag" and "agBroken ag'" and "agLogging ag' = agLogging ag"
      and "\<not> agent_ok ag"
  using assms by (auto simp: lockedEncoder_Encode_def agent_ok_def split: if_splits list.splits bool.splits)

lemma sends_Encode:
  assumes "lockedEncoder_Encode m ag = (r, ag')"
  shows "sends ag [m] ag'" and "r \<noteq> None \<Longrightarrow> agBroken ag'"
proof -
  from assms show "sends ag [m] ag'"
  proof (cases rule: Encode_cases)
    case ok
    then show ?thesis by (auto simp: sends_def agent_ok_def intro!: exI [of _ 1])
  next
    case fail
    then show ?thesis by (auto simp: sends_def intro!: exI [of _ 0])
  qed
  show "r \<noteq> None \<Longrightarrow> agBroken ag'" using assms by (cases rule: Encode_cases) auto
qed

lemma sends_console [simp]: "sends (ag\<lparr>agConsole := c\<rparr>) ms ag' = sends ag ms ag'"
  by (simp add: sends_def agent_ok_def)

lemma sends_log: "agLogging ag \<Longrightarrow> sends ag [log_msg env l] (log_to env l ag)"
  using sends_Encode(1) [of "log_msg env l" "ag\<lparr>agConsole := agConsole ag @ [geText env l]\<rparr>", OF surjective_pairing]
  by (simp add: log_to_def teeLog_Write_def Let_def log_msg_def)

lemma sends_result: "sends ag [result_msg g] (sendResult g ag)"
  using sends_Encode(1) [of "result_msg g" ag, OF surjective_pairing] by (simp add: sendResult_def result_msg_def)

lemma sends_logging: "sends ag ms ag' \<Longrightarrow> agLogging ag' = agLogging ag"
  by (simp add: sends_def)

lemma sends_broken: "agBroken ag \<Longrightarrow> sends ag ms ag' \<Longrightarrow> sends ag ns ag'"
  by (auto simp: sends_def agent_ok_def intro: exI [of _ 0])

lemma copy_streams_sends:
  assumes "outOk \<or> agBroken ag" and "errOk \<or> agBroken ag"
  shows "sends ag (map chunk_msg cs) (snd (copy_streams (guestEventWriter_Write MsgStdout)
      (guestEventWriter_Write MsgStderr) cs outOk errOk ag))"
  using assms
proof (induction cs arbitrary: outOk errOk ag)
  case (Cons c cs)
  obtain st d where c: "c = (st, d)" by fastforce
  obtain r ag1 where e: "lockedEncoder_Encode (chunk_msg c) ag = (r, ag1)" by fastforce
  note one = sends_Encode [OF e]
  let ?copy = "copy_streams (guestEventWriter_Write MsgStdout) (guestEventWriter_Write MsgStderr) cs"
  have broken: "agBroken ag \<Longrightarrow> agBroken ag1" using one(1) by (simp add: sends_def)
  have w: "st = Stdout \<Longrightarrow> guestEventWriter_Write MsgStdout d ag = (r, ag1)"
    "st = Stderr \<Longrightarrow> guestEventWriter_Write MsgStderr d ag = (r, ag1)"
    using e c by (simp_all add: guestEventWriter_Write_def chunk_msg_def)
  have rr: "r = None \<or> agBroken ag1" using one(2) by blast
  have tried: "sends ag (chunk_msg c # map chunk_msg cs) (snd (?copy a b ag1))"
    if "a \<or> agBroken ag1" "b \<or> agBroken ag1" for a b
    using sends_trans [OF one(1) Cons.IH [OF that]] by simp
  have skipped: "sends ag (chunk_msg c # map chunk_msg cs) (snd (?copy outOk errOk ag))" if "agBroken ag"
    using sends_broken [OF that Cons.IH [OF Cons.prems]] .
  show ?case
  proof (cases st)
    case Stdout
    have "errOk \<or> agBroken ag1" using Cons.prems broken by auto
    then show ?thesis
      using rr tried [of "r = None" errOk] skipped Cons.prems w(1) c Stdout by (cases outOk) simp_all
  next
    case Stderr
    have "outOk \<or> agBroken ag1" using Cons.prems broken by auto
    then show ?thesis
      using rr tried [of outOk "r = None"] skipped Cons.prems w(2) c Stderr by (cases errOk) simp_all
  qed
qed simp

lemma copy_output_sends: "sends ag (map chunk_msg (take (geRead env) (geWritten env))) (copy_output env ag)"
  unfolding copy_output_def by (rule copy_streams_sends) simp_all

lemma sendArtifacts_Inl:
  "artifact_data env name = Inl l \<Longrightarrow> sendArtifacts env (name # names) ag = sendArtifacts env names (log_to env l ag)"
  by (auto simp: artifact_data_def Let_def split: if_splits sum.splits)

lemma sendArtifacts_Inr:
  "artifact_data env name = Inr d \<Longrightarrow> sendArtifacts env (name # names) ag =
     (case lockedEncoder_Encode ((data_msg MsgArtifact d)\<lparr>mName := Base name\<rparr>) ag of
        (Some _, ag1) \<Rightarrow> log_to env (ArtifactUnsent name) ag1
      | (None, ag1) \<Rightarrow> sendArtifacts env names (log_to env (ArtifactSent name (length d)) ag1))"
  by (auto simp: artifact_data_def Let_def split: if_splits sum.splits)

lemma sendArtifacts_sends:
  "agLogging ag \<Longrightarrow> sends ag (concat (map (artifact_msgs env) names)) (sendArtifacts env names ag)"
proof (induction names arbitrary: ag)
  case (Cons name names)
  show ?case
  proof (cases "artifact_data env name")
    case (Inl l)
    have "agLogging (log_to env l ag)" using sends_logging [OF sends_log [OF Cons.prems]] Cons.prems by simp
    from sends_trans [OF sends_log [OF Cons.prems] Cons.IH [OF this]] Inl show ?thesis
      by (simp add: artifact_msgs_def sendArtifacts_Inl del: sendArtifacts.simps)
  next
    case (Inr d)
    let ?m = "(data_msg MsgArtifact d)\<lparr>mName := Base name\<rparr>"
    obtain r ag1 where e: "lockedEncoder_Encode ?m ag = (r, ag1)" by fastforce
    note one = sends_Encode [OF e]
    have lg: "agLogging ag1" using sends_logging [OF one(1)] Cons.prems by simp
    show ?thesis
    proof (cases r)
      case None
      have "agLogging (log_to env (ArtifactSent name (length d)) ag1)"
        using sends_logging [OF sends_log [OF lg]] lg by simp
      from sends_trans [OF sends_trans [OF one(1) sends_log [OF lg]] Cons.IH [OF this]] Inr None e show ?thesis
        by (simp add: artifact_msgs_def sendArtifacts_Inr del: sendArtifacts.simps)
    next
      case (Some x)
      have "agBroken ag1" using one(2) Some by simp
      from sends_trans [OF one(1) sends_broken [OF this sends_log [OF lg]]] Inr Some e show ?thesis
        by (simp add: artifact_msgs_def sendArtifacts_Inr del: sendArtifacts.simps)
    qed
  qed
qed simp

lemma run_started_sends:
  assumes "agLogging ag"
  shows "sends ag (started_msgs spec env @ [result_msg (classify_outcome env), log_msg env ResultSent]) (run_started spec env ag)"
proof -
  let ?g = "classify_outcome env"
  let ?ag1 = "sendArtifacts env (jArtifacts spec) (copy_output env ag)"
  let ?l = "JobFinished (gTerminationReason ?g) (gExitCode ?g)"
  have c: "agLogging (copy_output env ag)" using sends_logging [OF copy_output_sends] assms by simp
  have a: "agLogging ?ag1" using sends_logging [OF sendArtifacts_sends [OF c]] c by simp
  have f: "agLogging (log_to env ?l ?ag1)" using sends_logging [OF sends_log [OF a]] a by simp
  have r: "agLogging (sendResult ?g (log_to env ?l ?ag1))" using sends_logging [OF sends_result] f by simp
  from sends_trans [OF sends_trans [OF sends_trans [OF sends_trans [OF copy_output_sends
      sendArtifacts_sends [OF c]] sends_log [OF a]] sends_result] sends_log [OF r]]
  show ?thesis by (simp add: run_started_def Let_def started_msgs_def)
qed

section \<open>The report of a run\<close>

text \<open>The result of a run that does not start the process.\<close>

definition early_report :: "job \<Rightarrow> guest_env \<Rightarrow> guest_result option" where
  "early_report spec env =
     (if geChdir env \<noteq> None then Some (executor_error_result\<lparr>gMessage := the (geChdir env)\<rparr>)
      else case geLookPath env (jCommand spec) of
        Inl e \<Rightarrow> Some (executor_error_result\<lparr>gExitCode := 127, gTerminationReason := ''command_not_found'',
                   gMessage := jCommand spec @ '': '' @ e\<rparr>)
      | Inr _ \<Rightarrow>
          if geStdoutPipe env \<noteq> None
          then Some (executor_error_result\<lparr>gExitCode := 126, gMessage := the (geStdoutPipe env)\<rparr>)
          else if geStderrPipe env \<noteq> None
          then Some (executor_error_result\<lparr>gExitCode := 126, gMessage := the (geStderrPipe env)\<rparr>)
          else if geStart env \<noteq> None
          then Some (executor_error_result\<lparr>gExitCode := 126, gTerminationReason := ''command_failed'',
                   gMessage := the (geStart env)\<rparr>)
          else None)"

definition job_report :: "job \<Rightarrow> guest_env \<Rightarrow> guest_result" where
  "job_report spec env = (case early_report spec env of Some g \<Rightarrow> g | None \<Rightarrow> classify_outcome env)"

definition pre_msgs :: "job \<Rightarrow> guest_env \<Rightarrow> message list" where
  "pre_msgs spec env = (if early_report spec env = None then started_msgs spec env else [])"

definition post_msgs :: "job \<Rightarrow> guest_env \<Rightarrow> message list" where
  "post_msgs spec env = (if early_report spec env = None then [log_msg env ResultSent] else [])"

lemma runJob_early:
  assumes "early_report spec env = Some g"
  shows "snd (runJob spec env ag) = sendResult g ag"
  using assms
  by (auto simp: early_report_def runJob_def Let_def executor_error_result_def split: if_splits option.splits sum.splits)

lemma runJob_started:
  assumes "early_report spec env = None"
  shows "runJob spec env ag = (None, run_started spec env ag)"
  using assms by (auto simp: early_report_def runJob_def Let_def split: if_splits option.splits sum.splits)

lemma runJob_sends:
  assumes "agLogging ag"
  shows "sends ag (pre_msgs spec env @ result_msg (job_report spec env) # post_msgs spec env) (snd (runJob spec env ag))"
proof (cases "early_report spec env")
  case None
  then show ?thesis
    using run_started_sends [OF assms] by (simp add: runJob_started pre_msgs_def post_msgs_def job_report_def)
next
  case (Some g)
  then show ?thesis using sends_result by (simp add: runJob_early pre_msgs_def post_msgs_def job_report_def)
qed

section \<open>The guest and the host together\<close>

text \<open>The wire: one encoded message per line.  The encoding is lossless and a line stays below the
  host's bound.\<close>

definition wire :: "(message \<Rightarrow> bytes) \<Rightarrow> message list \<Rightarrow> bytes" where
  "wire enc ms = concat (map (\<lambda>m. enc m @ [CHR 0x0A]) ms)"

definition codec_ok :: "nat \<Rightarrow> (message \<Rightarrow> bytes) \<Rightarrow> (bytes \<Rightarrow> string + message) \<Rightarrow> message list \<Rightarrow> bool" where
  "codec_ok limit enc um ms =
     list_all (\<lambda>m. um (enc m) = Inr m \<and> CHR 0x0A \<notin> set (enc m) \<and> length (enc m) < limit
       \<and> enc m \<noteq> [] \<and> last (enc m) \<noteq> CHR 0x0D) ms"

lemma spec_of_wire:
  assumes "codec_ok limit enc um (pre @ result_msg g # post)" and "list_all (\<lambda>m. mType m \<noteq> MsgResult) pre"
  shows "spec_of limit um collect (wire enc (pre @ result_msg g # post)) = (concat (map (msg_events collect) pre), GotResult g)"
  using assms
proof (induction pre)
  case Nil
  then have "scan limit (wire enc (result_msg g # post)) = Token (enc (result_msg g)) (wire enc post)"
    by (auto simp: wire_def codec_ok_def intro!: scan_line)
  then show ?case using Nil by (simp add: spec_of_Token codec_ok_def result_msg_def plain_msg_def)
next
  case (Cons m pre)
  then have "scan limit (wire enc ((m # pre) @ result_msg g # post)) = Token (enc m) (wire enc (pre @ result_msg g # post))"
    by (auto simp: wire_def codec_ok_def intro!: scan_line)
  then show ?case using Cons by (simp add: spec_of_Token codec_ok_def)
qed

lemma Emit_healthy_sends:
  assumes "sink_healthy s"
  obtains s' where "Emit ev s = (None, s')" and "sink_healthy s'" and "skSent s' = skSent s @ [ev]"
  using assms by (auto simp: Emit_def sink_encode_def sink_healthy_def Let_def split: if_splits)

lemma write_to_healthy_sends:
  assumes "sink_healthy s"
  obtains s' where "write_to t d s = (None, s')" and "sink_healthy s'" and "skSent s' = skSent s @ [data_event t d]"
proof -
  obtain s' where e: "Emit (data_event t d) s = (None, s')" and s': "sink_healthy s'" "skSent s' = skSent s @ [data_event t d]"
    using assms by (rule Emit_healthy_sends)
  from e have "write_to t d s = (None, s')" by (simp add: write_to_def Writer_Write_def)
  then show ?thesis using s' by (rule that)
qed

lemma guest_loop_wire:
  assumes "codec_ok limit enc um (pre @ result_msg g # post)" and "list_all (\<lambda>m. mType m \<noteq> MsgResult) pre"
    and "sink_healthy s"
  shows "\<exists>s'. guest_loop limit um (write_to EventStdout) (write_to EventStderr) (Some emit_artifact)
      (wire enc (pre @ result_msg g # post)) s = (GotResult g, s') \<and> skSent s' = skSent s @ concat (map (msg_events True) pre)"
  using assms
proof (induction pre arbitrary: s)
  case Nil
  then have scan: "scan limit (wire enc (result_msg g # post)) = Token (enc (result_msg g)) (wire enc post)"
    by (auto simp: wire_def codec_ok_def intro!: scan_line)
  have um: "um (enc (result_msg g)) = Inr (result_msg g)" using Nil by (simp add: codec_ok_def)
  show ?case
    unfolding append_Nil guest_loop.simps [of limit um _ _ _ "wire enc (result_msg g # post)" s] scan
      scan_result.case um sum.case
    by (simp add: result_msg_def plain_msg_def)
next
  case (Cons m pre)
  let ?loop = "guest_loop limit um (write_to EventStdout) (write_to EventStderr) (Some emit_artifact)"
  have scan: "scan limit (wire enc ((m # pre) @ result_msg g # post)) = Token (enc m) (wire enc (pre @ result_msg g # post))"
    using Cons.prems(1) by (auto simp: wire_def codec_ok_def intro!: scan_line)
  have um: "um (enc m) = Inr m" and ok: "codec_ok limit enc um (pre @ result_msg g # post)"
    "list_all (\<lambda>m. mType m \<noteq> MsgResult) pre" "mType m \<noteq> MsgResult" using Cons.prems by (simp_all add: codec_ok_def)
  note IH = Cons.IH [OF ok(1,2)]
  obtain s1 where step: "?loop (wire enc ((m # pre) @ result_msg g # post)) s = ?loop (wire enc (pre @ result_msg g # post)) s1"
    and s1: "sink_healthy s1" "skSent s1 = skSent s @ msg_events True m"
  proof -
    note unfold = guest_loop.simps [of limit um _ _ _ "wire enc ((m # pre) @ result_msg g # post)" s, unfolded scan scan_result.case um sum.case]
    note wo = write_to_healthy_sends [OF Cons.prems(3), of _ "mData m"]
    obtain sa where sa: "emit_artifact (mName m) (mData m) s = (None, sa)" "sink_healthy sa"
      "skSent sa = skSent s @ [artifact_event (mName m) (mData m)]"
      unfolding emit_artifact_def using Cons.prems(3) by (rule Emit_healthy_sends)
    have "\<exists>s1. ?loop (wire enc ((m # pre) @ result_msg g # post)) s = ?loop (wire enc (pre @ result_msg g # post)) s1
        \<and> sink_healthy s1 \<and> skSent s1 = skSent s @ msg_events True m"
    proof (cases "mType m")
      case MsgStdout
      show ?thesis using wo [of EventStdout] by (rule) (use unfold MsgStdout in \<open>auto simp: msg_events_def\<close>)
    next
      case MsgStderr
      show ?thesis using wo [of EventStderr] by (rule) (use unfold MsgStderr in \<open>auto simp: msg_events_def\<close>)
    next
      case MsgArtifact
      then show ?thesis using unfold sa Cons.prems(3) by (auto simp: msg_events_def safe_name_def)
    qed (use unfold ok(3) Cons.prems(3) in \<open>auto simp: msg_events_def\<close>)
    then show ?thesis using that by blast
  qed
  then show ?case using IH [OF s1(1)] by auto
qed

text \<open>The events the host should forward, and the result it should report.\<close>

definition chunk_event :: "stream \<times> bytes \<Rightarrow> event" where
  "chunk_event c = data_event (case fst c of Stdout \<Rightarrow> EventStdout | Stderr \<Rightarrow> EventStderr) (snd c)"

definition artifact_events :: "guest_env \<Rightarrow> string \<Rightarrow> event list" where
  "artifact_events env name =
     (case artifact_data env name of Inl _ \<Rightarrow> [] | Inr d \<Rightarrow> [artifact_event (Base name) d])"

definition disk_error :: "boot_env \<Rightarrow> string option" where
  "disk_error boot = mountWorkspacePlatform (beMkdir boot) (beDisk boot)"

definition serve_report :: "boot_env \<Rightarrow> job \<Rightarrow> guest_env \<Rightarrow> guest_result" where
  "serve_report boot spec env =
     (case disk_error boot of
        Some e \<Rightarrow> executor_error_result\<lparr>gExitCode := 137, gMessage := e\<rparr>
      | None \<Rightarrow> job_report spec env)"

definition process_ran :: "boot_env \<Rightarrow> job \<Rightarrow> guest_env \<Rightarrow> bool" where
  "process_ran boot spec env = (disk_error boot = None \<and> early_report spec env = None)"

definition guest_events :: "boot_env \<Rightarrow> job \<Rightarrow> guest_env \<Rightarrow> event list" where
  "guest_events boot spec env =
     (if process_ran boot spec env
      then map chunk_event (take (geRead env) (geWritten env)) @ concat (map (artifact_events env) (jArtifacts spec))
      else [])"

lemma log_msg_quiet [simp]: "mType (log_msg env l) = MsgLog" "msg_events c (log_msg env l) = []"
  by (simp_all add: log_msg_def data_msg_def plain_msg_def msg_events_def)

lemma chunk_msg_events [simp]: "mType (chunk_msg c) \<noteq> MsgResult" "msg_events b (chunk_msg c) = [chunk_event c]"
  by (cases c; cases "fst c"; simp add: chunk_msg_def chunk_event_def data_msg_def plain_msg_def msg_events_def)+

lemma artifact_msgs_events [simp]:
  "list_all (\<lambda>m. mType m \<noteq> MsgResult) (artifact_msgs env n)"
  "concat (map (msg_events True) (artifact_msgs env n)) = artifact_events env n"
  using Base_nonempty [of n]
  by (simp_all add: artifact_msgs_def artifact_events_def data_msg_def plain_msg_def msg_events_def safe_name_def
      split: sum.splits)

lemma concat_map_concat: "concat (map f (concat xss)) = concat (map (\<lambda>xs. concat (map f xs)) xss)"
  by (induction xss) simp_all

lemma started_msgs_events:
  "list_all (\<lambda>m. mType m \<noteq> MsgResult) (started_msgs spec env)"
  "concat (map (msg_events True) (started_msgs spec env)) =
     map chunk_event (take (geRead env) (geWritten env)) @ concat (map (artifact_events env) (jArtifacts spec))"
proof -
  show "list_all (\<lambda>m. mType m \<noteq> MsgResult) (started_msgs spec env)"
    using artifact_msgs_events(1) by (auto simp: started_msgs_def list_all_iff)
  have "concat (map (\<lambda>c. [chunk_event c]) cs) = map chunk_event cs" for cs by (induction cs) simp_all
  then show "concat (map (msg_events True) (started_msgs spec env)) =
     map chunk_event (take (geRead env) (geWritten env)) @ concat (map (artifact_events env) (jArtifacts spec))"
    by (simp add: started_msgs_def concat_map_concat comp_def)
qed

lemma resolver_step_sends:
  assumes "agLogging ag"
  obtains q where "sends ag q (resolver_step boot env spec ag)" and "list_all (\<lambda>m. mType m = MsgLog) q"
proof (cases "resolver_step boot env spec ag = ag")
  case True
  then show ?thesis using that [of "[]"] by simp
next
  case False
  then obtain e where "resolver_step boot env spec ag = log_to env (ResolvFailed e) ag"
    by (auto simp: resolver_step_def split: option.splits if_splits)
  then show ?thesis using that [of "[log_msg env (ResolvFailed e)]"] sends_log [OF assms] by simp
qed

lemma serve_host_sends:
  assumes "beFirst boot = Inr msg" and "mType msg = MsgJob" and "mJob msg = Some spec" and "agent_ok ag"
  obtains quiet post where "list_all (\<lambda>m. mType m = MsgHello \<or> mType m = MsgLog) quiet"
    and "sends (ag\<lparr>agLogging := True\<rparr>) (quiet @ (if process_ran boot spec env then started_msgs spec env else [])
           @ result_msg (serve_report boot spec env) # post) (snd (serve_host boot env ag))"
proof -
  let ?ag = "ag\<lparr>agLogging := True\<rparr>"
  let ?ag1 = "log_to env VsockConnected ?ag"
  have l1: "sends ?ag [log_msg env VsockConnected] ?ag1" by (rule sends_log) simp
  obtain r ag2 where e: "lockedEncoder_Encode (plain_msg MsgHello) ?ag1 = (r, ag2)" by fastforce
  have "agent_ok ?ag1" using l1 assms(4) by (simp add: sends_def agent_ok_def)
  with e have r: "r = None" by (cases rule: Encode_cases) auto
  have l2: "sends ?ag [log_msg env VsockConnected, plain_msg MsgHello] ag2"
    using sends_trans [OF l1 sends_Encode(1) [OF e]] by simp
  then have lg2: "agLogging ag2" by (simp add: sends_def)
  define ag3 where "ag3 = resolver_step boot env spec ag2"
  obtain q where q: "sends ag2 q ag3" "list_all (\<lambda>m. mType m = MsgLog) q"
    unfolding ag3_def using lg2 by (rule resolver_step_sends)
  let ?quiet = "[log_msg env VsockConnected, plain_msg MsgHello] @ q"
  have quiet: "list_all (\<lambda>m. mType m = MsgHello \<or> mType m = MsgLog) ?quiet"
    using q(2) by (auto simp: list_all_iff plain_msg_def)
  have pre: "sends ?ag ?quiet ag3" by (rule sends_trans [OF l2 q(1)])
  have lg3: "agLogging ag3" using q(1) lg2 by (simp add: sends_def)
  show ?thesis
  proof (cases "disk_error boot")
    case (Some x)
    then have "snd (serve_host boot env ag) = sendResult (serve_report boot spec env) ag3"
      using assms e r by (simp add: serve_host_def Let_def ag3_def disk_error_def serve_report_def)
    then show ?thesis
      using that [OF quiet, of "[]"] sends_trans [OF pre sends_result] Some by (simp add: process_ran_def)
  next
    case None
    then have "snd (serve_host boot env ag) = snd (runJob spec env ag3)"
      using assms e r by (simp add: serve_host_def Let_def ag3_def disk_error_def split: prod.splits)
    then show ?thesis
      using that [OF quiet, of "post_msgs spec env"] sends_trans [OF pre runJob_sends [OF lg3, of spec env]] None
      by (simp add: process_ran_def pre_msgs_def serve_report_def)
  qed
qed

section \<open>Properties\<close>

text \<open>From the guest's process to the worker's stream, over any lossless encoding of the messages as lines.\<close>

lemma guest_to_host_codec:
  assumes "beFirst boot = Inr msg" and "mType msg = MsgJob" and "mJob msg = Some spec"
    and "agent_ok ag" and "agSent ag = []"
    and "serve_host boot env ag = (err, ag')"
    and "codec_ok limit enc um (agSent ag')"
    and "readGuest limit um (write_to EventStdout) (write_to EventStderr) (Some emit_artifact)
           (wire enc (agSent ag')) readErr ctx started ended result (NewSink [] flush) = (r, e, s')"
  shows "e = None \<and> skSent s' = guest_events boot spec env
    \<and> rExitCode r = gExitCode (serve_report boot spec env)
    \<and> rTerminationReason r = gTerminationReason (serve_report boot spec env)"
proof -
  let ?msgs = "if process_ran boot spec env then started_msgs spec env else []"
  let ?g = "serve_report boot spec env"
  from serve_host_sends [OF assms(1-4)] obtain quiet post where
    quiet: "list_all (\<lambda>m. mType m = MsgHello \<or> mType m = MsgLog) quiet"
    and sends: "sends (ag\<lparr>agLogging := True\<rparr>) (quiet @ ?msgs @ result_msg ?g # post) (snd (serve_host boot env ag))"
    by blast
  have sent: "agSent ag' = (quiet @ ?msgs) @ result_msg ?g # post"
    using sends assms(4-6) by (simp add: sends_def agent_ok_def)
  have q: "list_all (\<lambda>m. mType m \<noteq> MsgResult) quiet" "concat (map (msg_events True) quiet) = []"
    using quiet by (auto simp: list_all_iff msg_events_def split: msg_type.splits)
  then have ok: "list_all (\<lambda>m. mType m \<noteq> MsgResult) (quiet @ ?msgs)"
    using started_msgs_events(1) [of spec env] by simp
  from guest_loop_wire [OF assms(7) [unfolded sent] ok NewSink_healthy] obtain s1 where
    loop: "guest_loop limit um (write_to EventStdout) (write_to EventStderr) (Some emit_artifact)
      (wire enc (agSent ag')) (NewSink [] flush) = (GotResult ?g, s1)"
    and s1: "skSent s1 = concat (map (msg_events True) (quiet @ ?msgs))"
    unfolding sent by (auto simp: NewSink_def)
  have "skSent s1 = guest_events boot spec env"
    using s1 q(2) started_msgs_events(2) [of spec env] by (simp add: guest_events_def)
  then show ?thesis using assms(8) loop by (auto simp: readGuest_def end_at_def)
qed

text \<open>What the two ends rely on: an encoding of the messages that are sent as lines below the host's bound.\<close>

locale message_codec =
  fixes limit :: nat and enc :: "message \<Rightarrow> bytes" and um :: "bytes \<Rightarrow> string + message" and sendable :: "message \<Rightarrow> bool"
  assumes lossless: "sendable m \<Longrightarrow> um (enc m) = Inr m"
    and one_line: "sendable m \<Longrightarrow> CHR 0x0A \<notin> set (enc m) \<and> enc m \<noteq> [] \<and> last (enc m) \<noteq> CHR 0x0D"
    and fits: "sendable m \<Longrightarrow> length (enc m) < limit"
begin

lemma codec: "list_all sendable ms \<Longrightarrow> codec_ok limit enc um ms"
  using lossless one_line fits by (auto simp: codec_ok_def list_all_iff)

lemmas delivered = guest_to_host_codec [OF _ _ _ _ _ _ codec]

end

text \<open>Lost output.  The result does not depend on how much of the process's output was read before
  \<^verbatim>\<open>cmd.Wait\<close> closed the pipes, and what was not read by then is never sent: for every number of
  reads there is a run that reports the same outcome, a successful completion included, and forwards only
  that much of the output.\<close>

theorem runJob_output_cut:
  "serve_report boot spec (env\<lparr>geRead := n\<rparr>) = serve_report boot spec env
   \<and> (process_ran boot spec env \<longrightarrow> guest_events boot spec (env\<lparr>geRead := n\<rparr>) =
        map chunk_event (take n (geWritten env)) @ concat (map (artifact_events env) (jArtifacts spec)))"
proof -
  let ?env = "env\<lparr>geRead := n\<rparr>"
  have "classify_outcome ?env = classify_outcome env"
    by (cases env) (simp only: classify_outcome_def guest_env.select_convs guest_env.update_convs)
  moreover have "early_report spec ?env = early_report spec env"
    by (cases env) (simp only: early_report_def guest_env.select_convs guest_env.update_convs)
  moreover have "artifact_events ?env = artifact_events env"
    by (rule ext, cases env) (simp only: artifact_events_def artifact_data_def guest_env.select_convs guest_env.update_convs)
  moreover from calculation have "job_report spec ?env = job_report spec env" by (simp add: job_report_def cong: option.case_cong)
  ultimately show ?thesis by (simp add: serve_report_def guest_events_def process_ran_def cong: option.case_cong)
qed

lemma workspace_path:
  assumes "HasPrefix (PJoin workspaceMount name) (workspaceMount @ ''/'')"
  obtains rest where "rest \<noteq> []" and "list_all is_name rest"
    and "PJoin workspaceMount name = render True (''workspace'' # rest)"
proof -
  let ?p = "PJoin workspaceMount name"
  have abs: "IsAbs workspaceMount" by code_simp
  let ?cs = "comps ?p"
  have p: "?p = render True ?cs" by (rule PJoin_render [OF abs])
  have names: "list_all is_name ?cs" by (rule comps_names_abs) (rule IsAbs_PJoin [OF abs])
  from assms obtain r where r: "?p = ''/workspace/'' @ r" by (auto simp: HasPrefix_iff workspaceMount_def)
  with p have j: "Join slash ?cs = ''workspace'' @ slash # r" by (simp add: render_def)
  then have "?cs \<noteq> []" by auto
  with names have "?cs = Split slash (''workspace'' @ slash # r)" using Split_Join_names [OF names] j by simp
  moreover have "Split slash ''workspace'' = [''workspace'']" by code_simp
  ultimately have "?cs = ''workspace'' # Split slash r" using Split_append [of slash "''workspace''" r] by simp
  then show ?thesis using that [of "Split slash r"] names p by simp
qed

lemma artifact_data_Inr:
  assumes "artifact_data env name = Inr d"
  shows "HasPrefix (PJoin workspaceMount name) (workspaceMount @ ''/'')"
    and "geReadFile env (PJoin workspaceMount name) = Inr d"
    and "\<exists>info. geStat env (PJoin workspaceMount name) = Inr info \<and> siRegular info \<and> siSize info \<le> maxArtifactBytes"
  using assms by (auto simp: artifact_data_def Let_def split: if_splits sum.splits)


section \<open>Witnesses\<close>

definition sample_guest_env :: guest_env where
  "sample_guest_env = \<lparr>geText = (\<lambda>_. ''log''), geChdir = None, geLookPath = (\<lambda>c. Inr (''/bin/'' @ c)),
     geStdoutPipe = None, geStderrPipe = None, geStart = None, geWritten = [(Stdout, ''hi'')], geRead = 1,
     geState = Some \<lparr>gpUserMillis = 1, gpSystemMillis = 1, gpSignal = None, gpExitCode = 3\<rparr>, geWaitErr = [],
     geInbox = [], geDeadline = False, gePeak = 0, geMillis = 1,
     geStat = (\<lambda>_. Inr \<lparr>siRegular = True, siSize = 1\<rparr>), geReadFile = (\<lambda>_. Inr ''x'')\<rparr>"

definition sample_boot :: boot_env where
  "sample_boot = \<lparr>beMkdir = (\<lambda>_. None), beMount = (\<lambda>_ _ _. None), beWrite = (\<lambda>_ _. None), beBind = (\<lambda>_ _. None),
     beDial = (\<lambda>_. Inr ()), beFirst = Inr ((plain_msg MsgJob)\<lparr>mJob := Some sample_job\<rparr>), bePnp = Inl ''none'',
     beDisk = (\<lambda>_. None)\<rparr>"

definition sample_agent :: agent where
  "sample_agent = \<lparr>agSent = [], agBroken = False, agFaults = [], agLogging = False, agConsole = []\<rparr>"

theorem runJob_output_cut_witness:
  "guest_events sample_boot sample_job (sample_guest_env\<lparr>geRead := 0\<rparr>) = []
   \<and> serve_report sample_boot sample_job (sample_guest_env\<lparr>geRead := 0\<rparr>)
     = serve_report sample_boot sample_job sample_guest_env"
proof -
  have "process_ran sample_boot sample_job sample_guest_env" "jArtifacts sample_job = []" by code_simp+
  with runJob_output_cut [where boot = sample_boot and spec = sample_job and env = sample_guest_env and n = 0] show ?thesis by simp
qed


end
