(* ===== verification/GuestSystem.thy ===== *)
theory GuestSystem
  imports Guest
begin

text \<open>
  The agent and its kernel: memory sampling from \<^verbatim>\<open>/proc\<close> (\<^verbatim>\<open>internal/guest/mem_linux.go\<close>), the
  reaping of orphans (\<^verbatim>\<open>reapOrphans\<close> in \<^verbatim>\<open>agent.go\<close>) as a step relation beside the job's processes,
  and the properties of the resolver file (\<^verbatim>\<open>resolv_linux.go\<close>) and of the retry loops.
\<close>

section \<open>Memory of the process group\<close>

record proc_entry =
  peName :: string
  peIsDir :: bool
  peStat :: "bytes option" \<comment> \<open>the content of its \<^verbatim>\<open>stat\<close> file\<close>

definition stat_pages :: "int \<Rightarrow> bytes \<Rightarrow> int option" where
  "stat_pages pgid data =
     (case after_last CHR '')'' data of
        None \<Rightarrow> None
      | Some rest \<Rightarrow>
          if length rest \<le> 1 then None
          else (let fields = Fields (tl rest) in
                if length fields < 22 then None
                else case Atoi (fields ! 2) of
                       None \<Rightarrow> None
                     | Some pgrp \<Rightarrow> if pgrp \<noteq> pgid then None else Atoi (fields ! 21)))"

definition entry_bytes :: "int \<Rightarrow> proc_entry \<Rightarrow> int option" where
  "entry_bytes pgid e =
     (if \<not> peIsDir e then None
      else case Atoi (peName e) of
        None \<Rightarrow> None
      | Some _ \<Rightarrow>
          (case peStat e of
             None \<Rightarrow> None
           | Some data \<Rightarrow> map_option (\<lambda>pages. wrap64 (pages * 4096)) (stat_pages pgid data)))"

fun sum_entries :: "int \<Rightarrow> int \<Rightarrow> proc_entry list \<Rightarrow> int" where
  "sum_entries pgid tot [] = tot"
| "sum_entries pgid tot (e # es) =
     (case entry_bytes pgid e of
        None \<Rightarrow> sum_entries pgid tot es
      | Some b \<Rightarrow> sum_entries pgid (wrap64 (tot + b)) es)"

definition processGroupRSS :: "int \<Rightarrow> proc_entry list option \<Rightarrow> int" where
  "processGroupRSS pgid entries =
     (case entries of None \<Rightarrow> 0 | Some es \<Rightarrow> sum_entries pgid 0 es)"

fun samplePeakMemory :: "int \<Rightarrow> int list \<Rightarrow> int" where
  "samplePeakMemory peak [] = peak"
| "samplePeakMemory peak (rss # ticks) = samplePeakMemory (if rss > peak then rss else peak) ticks"

lemma samplePeakMemory_max: "samplePeakMemory peak ticks = foldl max peak ticks"
proof (induction ticks arbitrary: peak)
  case (Cons a ticks)
  have "(if a > peak then a else peak) = max peak a" by (auto simp: max_def)
  with Cons show ?case by simp
qed simp

section \<open>The text of a stat file\<close>

text \<open>A process as \<^verbatim>\<open>/proc/<pid>/stat\<close> shows it: the command name is any string of bytes, spaces and
  parentheses included; \<open>numbers\<close> are the fields from the parent on.\<close>

record guest_process =
  gprPid :: nat
  gprComm :: bytes
  gprState :: char
  gprNumbers :: "int list"

definition process_ok :: "guest_process \<Rightarrow> bool" where
  "process_ok p =
     (int64_range (int (gprPid p)) \<and> 21 \<le> length (gprNumbers p) \<and> list_all int64_range (gprNumbers p)
      \<and> \<not> is_space (gprState p) \<and> gprState p \<noteq> CHR '')'')"

definition stat_text :: "guest_process \<Rightarrow> bytes" where
  "stat_text p = dec (gprPid p) @ '' ('' @ gprComm p @ '') '' @
     Join CHR '' '' ([gprState p] # map fmt_int (gprNumbers p)) @ [newline]"

definition proc_dir :: "guest_process \<Rightarrow> proc_entry" where
  "proc_dir p = \<lparr>peName = dec (gprPid p), peIsDir = True, peStat = Some (stat_text p)\<rparr>"

definition group_bytes :: "int \<Rightarrow> guest_process \<Rightarrow> int" where
  "group_bytes pgid p = (if gprNumbers p ! 1 = pgid then gprNumbers p ! 20 * 4096 else 0)"

lemma Join_set: "set (Join c ws) \<subseteq> insert c (\<Union> (set ` set ws))"
  by (induction c ws rule: Join.induct) auto

lemma stat_pages_text:
  assumes "process_ok p"
  shows "stat_pages pgid (stat_text p) = (if gprNumbers p ! 1 = pgid then Some (gprNumbers p ! 20) else None)"
proof -
  let ?ws = "[gprState p] # map fmt_int (gprNumbers p)"
  let ?line = "Join CHR '' '' ?ws @ [newline]"
  have ws: "list_all is_word ?ws"
    using assms fmt_int_word by (auto simp: process_ok_def is_word_def list_all_iff)
  have "CHR '')'' \<notin> set (Join CHR '' '' ?ws)"
    using Join_set [of "CHR '' ''" ?ws] fmt_int_word assms by (auto simp: process_ok_def)
  then have "CHR '')'' \<notin> set ('' '' @ ?line)" by (simp add: newline_def)
  then have al: "after_last CHR '')'' (stat_text p) = Some ('' '' @ ?line)"
    using after_last_append [of "CHR '')''" "'' '' @ ?line" "dec (gprPid p) @ '' ('' @ gprComm p"]
    by (simp add: stat_text_def)
  have f: "Fields (tl ('' '' @ ?line)) = ?ws" using Fields_Join_line [OF space_is_space(1) ws] by simp
  have n: "21 \<le> length (gprNumbers p)" and r: "list_all int64_range (gprNumbers p)"
    using assms by (simp_all add: process_ok_def)
  then have "int64_range (gprNumbers p ! 1)" "int64_range (gprNumbers p ! 20)" by (simp_all add: list_all_length)
  moreover have "?ws ! 2 = fmt_int (gprNumbers p ! 1)" "?ws ! 21 = fmt_int (gprNumbers p ! 20)"
    using n by (simp_all add: nth_Cons')
  ultimately show ?thesis
    using n f by (simp add: stat_pages_def al Let_def Atoi_fmt_int)
qed

text \<open>A listing of \<^verbatim>\<open>/proc\<close>: processes, and entries that are not processes or are gone.\<close>

definition not_process :: "proc_entry \<Rightarrow> bool" where
  "not_process e = (\<not> peIsDir e \<or> Atoi (peName e) = None \<or> peStat e = None)"

definition listing :: "(proc_entry + guest_process) list \<Rightarrow> proc_entry list" where
  "listing xs = map (case_sum id proc_dir) xs"

lemma Atoi_dec: "int64_range (int n) \<Longrightarrow> Atoi (dec n) = Some (int n)"
  using Atoi_fmt_int [of "int n"] by (simp add: fmt_int_def)

lemma entry_bytes_process:
  assumes "process_ok p"
  shows "entry_bytes pgid (proc_dir p) =
     (if gprNumbers p ! 1 = pgid then Some (wrap64 (gprNumbers p ! 20 * 4096)) else None)"
proof -
  have "Atoi (dec (gprPid p)) = Some (int (gprPid p))" using assms by (simp add: process_ok_def Atoi_dec)
  then show ?thesis using stat_pages_text [OF assms, of pgid] by (simp add: entry_bytes_def proc_dir_def)
qed

lemma entry_bytes_other: "not_process e \<Longrightarrow> entry_bytes pgid e = None"
  by (auto simp: entry_bytes_def not_process_def split: option.splits)

lemma wrap64_add2: "wrap64 (wrap64 a + wrap64 b) = wrap64 (a + b)"
  by (metis wrap64_add add.commute)

lemma sum_entries_listing:
  "list_all (case_sum not_process process_ok) xs \<Longrightarrow>
   sum_entries pgid (wrap64 tot) (listing xs) =
     wrap64 (tot + sum_list (map (case_sum (\<lambda>_. 0) (group_bytes pgid)) xs))"
proof (induction xs arbitrary: tot)
  case (Cons x xs)
  show ?case
  proof (cases x)
    case (Inl e)
    then show ?thesis using Cons by (simp add: listing_def entry_bytes_other)
  next
    case (Inr p)
    then have p: "process_ok p" and IH: "\<And>t. sum_entries pgid (wrap64 t) (listing xs) =
        wrap64 (t + sum_list (map (case_sum (\<lambda>_. 0) (group_bytes pgid)) xs))" using Cons by simp_all
    have "listing (x # xs) = proc_dir p # listing xs" using Inr by (simp add: listing_def)
    then show ?thesis
      using Inr IH [of tot] IH [of "tot + gprNumbers p ! 20 * 4096"] entry_bytes_process [OF p, of pgid]
      by (simp add: group_bytes_def wrap64_add2 add.assoc)
  qed
qed (simp add: listing_def)

section \<open>Reaping orphans\<close>

text \<open>\<^verbatim>\<open>reapOrphans\<close> beside the processes of the job, all descendants of the agent, which is process 1:
  a process whose parent exits becomes a child of the agent, so \<^verbatim>\<open>wait4\<close> answers \<^verbatim>\<open>ECHILD\<close> exactly
  when there is no process left, dead or alive.  The processes may exit, fork and leave the group at
  any time.\<close>

datatype reap_pc = Polling | Draining | Returned

record reap =
  rpPC :: reap_pc
  rpDone :: bool
  rpLive :: "nat set"
  rpZombie :: "nat set"
  rpGroup :: "nat set"

inductive reap_step :: "reap \<Rightarrow> reap \<Rightarrow> bool" where
  deadline: "reap_step s (s\<lparr>rpDone := True\<rparr>)"
| exits: "p \<in> rpLive s \<Longrightarrow> reap_step s (s\<lparr>rpLive := rpLive s - {p}, rpZombie := insert p (rpZombie s)\<rparr>)"
| forks: "p \<in> rpLive s \<Longrightarrow> c \<notin> rpLive s \<union> rpZombie s \<Longrightarrow>
    reap_step s (s\<lparr>rpLive := insert c (rpLive s),
                   rpGroup := (if p \<in> rpGroup s then insert c (rpGroup s) else rpGroup s - {c})\<rparr>)"
| leaves: "p \<in> rpLive s \<Longrightarrow> reap_step s (s\<lparr>rpGroup := rpGroup s - {p}\<rparr>)"
| expired: "rpPC s = Polling \<Longrightarrow> rpDone s \<Longrightarrow>
    reap_step s (s\<lparr>rpPC := Draining, rpLive := rpLive s - rpGroup s,
                   rpZombie := rpZombie s \<union> (rpLive s \<inter> rpGroup s)\<rparr>)"
| reaped: "rpPC s \<noteq> Returned \<Longrightarrow> p \<in> rpZombie s \<Longrightarrow> reap_step s (s\<lparr>rpZombie := rpZombie s - {p}\<rparr>)"
| nothing_ready: "rpPC s = Polling \<Longrightarrow> rpLive s \<union> rpZombie s \<noteq> {} \<Longrightarrow> reap_step s s"
| echild: "rpPC s \<noteq> Returned \<Longrightarrow> rpLive s = {} \<Longrightarrow> rpZombie s = {} \<Longrightarrow> reap_step s (s\<lparr>rpPC := Returned\<rparr>)"

inductive reap_reach :: "reap \<Rightarrow> reap \<Rightarrow> bool" for s0 where
  start: "reap_reach s0 s0"
| step: "reap_reach s0 s \<Longrightarrow> reap_step s t \<Longrightarrow> reap_reach s0 t"

inductive_cases reap_stepE: "reap_step s t"

definition reap_inv :: "reap \<Rightarrow> bool" where
  "reap_inv s = ((rpPC s = Returned \<longrightarrow> rpLive s = {} \<and> rpZombie s = {}) \<and> (rpPC s = Draining \<longrightarrow> rpDone s))"

lemma reap_inv_step: "reap_step s t \<Longrightarrow> reap_inv s \<Longrightarrow> reap_inv t"
  by (induction rule: reap_step.induct) (auto simp: reap_inv_def)

lemma reap_inv_reach: "reap_reach s0 s \<Longrightarrow> rpPC s0 = Polling \<Longrightarrow> reap_inv s"
  by (induction rule: reap_reach.induct) (auto simp: reap_inv_def dest: reap_inv_step [unfolded reap_inv_def])

section \<open>Properties\<close>


text \<open>C33. Memory accounting.  For any listing of \<^verbatim>\<open>/proc\<close>, whatever bytes the command names hold, the
  parser finds for every process its group and its resident pages: the sum is that of the
  processes in the group, in bytes, as a 64-bit integer, and entries that are not processes count
  nothing.\<close>

theorem processGroupRSS_exact:
  assumes "list_all (case_sum not_process process_ok) xs"
  shows "processGroupRSS pgid (Some (listing xs)) = wrap64 (sum_list (map (case_sum (\<lambda>_. 0) (group_bytes pgid)) xs))"
proof -
  have "wrap64 0 = 0" by (simp add: wrap64_def)
  with sum_entries_listing [OF assms, of pgid 0] show ?thesis by (simp add: processGroupRSS_def)
qed

text \<open>The resolver file.  The file the agent writes for a list of name servers is read back as the same
  list by the parser it uses on the kernel's file, so what reaches the job's resolver is what the
  boot parameter set; without one it is the default server.\<close>

theorem resolv_conf_roundtrip:
  assumes "list_all (\<lambda>n. is_word n) servers"
  shows "pnpNameservers (Inr (resolv_conf servers)) = Inr servers"
proof -
  have line: "nameserver_of (''nameserver '' @ s) = [s]" if "is_word s" for s
    using fields_word_space [of "''nameserver''" "CHR '' ''" s] Fields_one [OF that]
    by (simp add: nameserver_of_def is_word_def is_space_def)
  have "concat (map nameserver_of (Split newline (resolv_conf ss))) = ss" if "list_all is_word ss" for ss
    using that
  proof (induction ss)
    case Nil
    then show ?case by (simp add: resolv_conf_def nameserver_of_def)
  next
    case (Cons s ss)
    have "newline \<notin> set (''nameserver '' @ s)"
      using Cons.prems by (auto simp: is_word_def list_all_iff newline_def is_space_def)
    then have "Split newline (resolv_conf (s # ss)) = (''nameserver '' @ s) # Split newline (resolv_conf ss)"
      using Split_append [of newline "''nameserver '' @ s" "resolv_conf ss"] Split_one [of newline "''nameserver '' @ s"]
      by (simp add: resolv_conf_def)
    then show ?case using line [of s] Cons by simp
  qed
  then show ?thesis using assms by (simp add: pnpNameservers_def)
qed

section \<open>Witnesses\<close>


text \<open>A process whose name looks like the end of the name field.\<close>

definition sample_process :: guest_process where
  "sample_process = \<lparr>gprPid = 7, gprComm = ''a) R 1'', gprState = CHR ''S'', gprNumbers = 1 # 9 # replicate 18 0 @ [5]\<rparr>"

theorem processGroupRSS_exact_witness:
  "processGroupRSS 9 (Some (listing [Inr sample_process])) = 20480"
proof -
  have "list_all (case_sum not_process process_ok) [Inr sample_process]"
    by (simp add: process_ok_def sample_process_def int64_range_def is_space_def list_all_iff)
  from processGroupRSS_exact [OF this] show ?thesis
    by (simp add: group_bytes_def sample_process_def wrap64_def nth_append)
qed

theorem resolv_conf_roundtrip_witness:
  "pnpNameservers (Inr (resolv_conf [''1.1.1.1'', ''9.9.9.9''])) = Inr [''1.1.1.1'', ''9.9.9.9'']"
  by (rule resolv_conf_roundtrip) code_simp

end
