(* ===== verification/Archive.thy ===== *)
theory Archive
  imports Workspace "HOL-Library.List_Lexorder" "HOL-Library.Char_ord"
begin

text \<open>
  Packaging a workspace (\<^verbatim>\<open>CreateArchive\<close> in \<^verbatim>\<open>internal/workspace/workspace.go\<close>) over the file system
  of \<open>HostFS\<close>: the checks on the root, the walk with \<^verbatim>\<open>filepath.WalkDir\<close>, the entries written,
  the statistics, and every error.  The archive is the sequence of headers and bodies given to the tar
  writer.  Calls that can fail for a reason outside the model are given by a function from the
  path and the call to an error.

  The walk recurses on the depth of the tree; the depth of the file system is always enough.

  The lemmas: which entries an archive holds, that a root that is a symbolic link gives an empty
  archive, and that what was packaged is what extraction puts in place.
\<close>

section \<open>Entries\<close>

datatype arch_call = ReadDir | EntryInfo | Readlink | WriteHeader | OpenSource | CopySource | CloseSource

datatype arch_error =
  RootStat errno
| RootNotDir
| CreateTemp string
| WalkRoot errno
| WalkCtx ctx_err
| EntryError arch_call string string
| EntryType string
| FinishTar string
| FinishGzip string
| SyncFile string
| StatFile string
| CloseFile string
| TooDeep

record archive_env =
  aeCtx :: "string list \<Rightarrow> ctx_err option"
  aeFault :: "string list \<Rightarrow> arch_call \<Rightarrow> string option"
  aeOther :: "string list \<Rightarrow> bool" \<comment> \<open>neither a regular file, a directory nor a link\<close>
  aeTemp :: "string + string" \<comment> \<open>the error of creating the file, or its name\<close>
  aeFinish :: "string option list" \<comment> \<open>closing the tar and gzip writers, sync, stat, close\<close>
  aeSize :: int
  aeRemove :: "string option"

type_synonym packed = "(header \<times> bytes) list"

text \<open>The temporary files, with what was written to them.\<close>

type_synonym temps = "(string \<times> packed) list"

record archive =
  aPath :: string
  aStats :: stats

definition Archive_Open :: "string option \<Rightarrow> archive \<Rightarrow> temps \<Rightarrow> string + packed" where
  "Archive_Open fault a temps =
     (case fault of
        Some e \<Rightarrow> Inl e
      | None \<Rightarrow> (case map_of temps (aPath a) of None \<Rightarrow> Inl ''no such file or directory'' | Some d \<Rightarrow> Inr d))"

text \<open>Removing a file that is not there is no error.\<close>

definition Archive_Remove :: "string option \<Rightarrow> archive option \<Rightarrow> temps \<Rightarrow> string option \<times> temps" where
  "Archive_Remove fault a temps =
     (case a of
        None \<Rightarrow> (None, temps)
      | Some a \<Rightarrow>
          if aPath a = [] then (None, temps)
          else case fault of
            Some e \<Rightarrow> (Some e, temps)
          | None \<Rightarrow> (None, filter (\<lambda>(p, _). p \<noteq> aPath a) temps))"

definition archive_name :: "string list \<Rightarrow> string" where
  "archive_name ns = Join slash ns"

text \<open>\<^verbatim>\<open>tar.FileInfoHeader\<close> with the fields the source overwrites.\<close>

definition header_of :: "string list \<Rightarrow> node \<Rightarrow> header" where
  "header_of ns nd =
     (case nd of
        NDir perm \<Rightarrow> \<lparr>hName = archive_name ns, hTypeflag = TypeDir, hMode = int perm, hSize = 0, hLinkname = []\<rparr>
      | NFile perm d \<Rightarrow> \<lparr>hName = archive_name ns, hTypeflag = TypeReg, hMode = int perm, hSize = int (length d), hLinkname = []\<rparr>
      | NLink t \<Rightarrow> \<lparr>hName = archive_name ns, hTypeflag = TypeSymlink, hMode = 511, hSize = 0, hLinkname = t\<rparr>)"

definition body_of :: "node \<Rightarrow> bytes" where
  "body_of nd = (case nd of NFile _ d \<Rightarrow> d | _ \<Rightarrow> [])"

section \<open>The walk\<close>

text \<open>The calls for one entry that can fail, in order; the first error ends the walk.\<close>

definition entry_calls :: "node \<Rightarrow> arch_call list" where
  "entry_calls nd =
     (case nd of
        NDir _ \<Rightarrow> [WriteHeader]
      | NLink _ \<Rightarrow> [Readlink, WriteHeader]
      | NFile _ _ \<Rightarrow> [WriteHeader, OpenSource, CopySource, CloseSource])"

fun failing_call :: "(arch_call \<Rightarrow> string option) \<Rightarrow> arch_call list \<Rightarrow> (arch_call \<times> string) option" where
  "failing_call fault [] = None"
| "failing_call fault (c # cs) = (case fault c of Some e \<Rightarrow> Some (c, e) | None \<Rightarrow> failing_call fault cs)"

text \<open>The statistics after an entry: a header that was written counts, and the bytes of a file that was
  copied.\<close>

definition count_entry :: "node \<Rightarrow> stats \<Rightarrow> stats" where
  "count_entry nd st =
     st\<lparr>sFiles := sFiles st + 1, sUncompressedBytes := sUncompressedBytes st + int (length (body_of nd))\<rparr>"

datatype visit = Skip | Failed arch_error | Packed

text \<open>The callback for an entry other than the root.\<close>

definition visit_entry :: "archive_env \<Rightarrow> string list \<Rightarrow> string list \<Rightarrow> node \<Rightarrow> visit" where
  "visit_entry env exclusions ns nd =
     (case aeCtx env ns of
        Some c \<Rightarrow> Failed (WalkCtx c)
      | None \<Rightarrow>
          if isExcluded (archive_name ns) exclusions then Skip
          else case aeFault env ns EntryInfo of
            Some e \<Rightarrow> Failed (EntryError EntryInfo (archive_name ns) e)
          | None \<Rightarrow>
              if aeOther env ns then Failed (EntryType (archive_name ns))
              else (case failing_call (aeFault env ns) (entry_calls nd) of
                      Some (call, e) \<Rightarrow> Failed (EntryError call (archive_name ns) e)
                    | None \<Rightarrow> Packed))"

text \<open>A loop that stops at the first error.\<close>

fun each :: "('a \<Rightarrow> 's \<Rightarrow> 'e option \<times> 's) \<Rightarrow> 'a list \<Rightarrow> 's \<Rightarrow> 'e option \<times> 's" where
  "each f [] s = (None, s)"
| "each f (x # xs) s = (case f x s of (Some e, s1) \<Rightarrow> (Some e, s1) | (None, s1) \<Rightarrow> each f xs s1)"

text \<open>\<^verbatim>\<open>os.ReadDir\<close>: the names in order.\<close>

definition dir_names :: "fs \<Rightarrow> phys \<Rightarrow> string list" where
  "dir_names f q = sort (remdups (children f q))"

primrec walk_dir ::
  "nat \<Rightarrow> archive_env \<Rightarrow> string list \<Rightarrow> fs \<Rightarrow> phys \<Rightarrow> string list \<Rightarrow> packed \<times> stats \<Rightarrow> arch_error option \<times> packed \<times> stats" where
  "walk_dir 0 env exclusions f D ns acc = (Some TooDeep, acc)"
| "walk_dir (Suc depth) env exclusions f D ns acc =
     (case get_node f (D @ ns) of
        Inl _ \<Rightarrow> (Some (EntryError EntryInfo (archive_name ns) ''no such file or directory''), acc)
      | Inr nd \<Rightarrow>
          (let inside = (\<lambda>acc.
                 case nd of
                   NDir _ \<Rightarrow>
                     (case aeFault env ns ReadDir of
                        Some e \<Rightarrow> (Some (EntryError ReadDir (archive_name ns) e), acc)
                      | None \<Rightarrow>
                          each (\<lambda>c acc. walk_dir depth env exclusions f D (ns @ [c]) acc) (dir_names f (D @ ns)) acc)
                 | _ \<Rightarrow> (None, acc))
           in if ns = [] then inside acc
              else case visit_entry env exclusions ns nd of
                     Skip \<Rightarrow> (None, acc)
                   | Failed e \<Rightarrow> (Some e, acc)
                   | Packed \<Rightarrow> inside (fst acc @ [(header_of ns nd, body_of nd)], count_entry nd (snd acc))))"

section \<open>CreateArchive\<close>

definition fs_depth :: "fs \<Rightarrow> nat" where
  "fs_depth f = fold (\<lambda>p n. max (length (fst p)) n) f 0"

definition finish_error :: "nat \<Rightarrow> string \<Rightarrow> arch_error" where
  "finish_error i e = [FinishTar e, FinishGzip e, SyncFile e, StatFile e, CloseFile e] ! (min i 4)"

fun finish_archive :: "nat \<Rightarrow> string option list \<Rightarrow> arch_error option" where
  "finish_archive i [] = None"
| "finish_archive i (Some e # es) = Some (finish_error i e)"
| "finish_archive i (None # es) = finish_archive (i + 1) es"

text \<open>The root is walked as \<^verbatim>\<open>Lstat\<close> shows it: the entries of a root that is a link are not visited.
  The context is checked for the root too.\<close>

definition walk_root ::
  "archive_env \<Rightarrow> string list \<Rightarrow> fs \<Rightarrow> string \<Rightarrow> arch_error option \<times> packed \<times> stats" where
  "walk_root env exclusions f root =
     (case locate f root of
        Inl e \<Rightarrow> (Some (WalkRoot e), [], zero_stats)
      | Inr D \<Rightarrow>
          (case aeCtx env [] of
             Some c \<Rightarrow> (Some (WalkCtx c), [], zero_stats)
           | None \<Rightarrow>
               (case map_of f D of
                  Some (NLink _) \<Rightarrow> (None, [], zero_stats)
                | _ \<Rightarrow> walk_dir (Suc (fs_depth f)) env exclusions f D [] ([], zero_stats))))"

text \<open>The deferred call removes the file unless it is kept.\<close>

definition CreateArchive ::
  "archive_env \<Rightarrow> string list \<Rightarrow> fs \<Rightarrow> string \<Rightarrow> temps \<Rightarrow> (arch_error + archive) \<times> temps" where
  "CreateArchive env exclusions f root temps =
     (let absoluteRoot = Clean root in
      case resolve f absoluteRoot of
        Inl e \<Rightarrow> (Inl (RootStat e), temps)
      | Inr q \<Rightarrow>
          if \<not> is_dir f q then (Inl RootNotDir, temps)
          else case aeTemp env of
            Inl e \<Rightarrow> (Inl (CreateTemp e), temps)
          | Inr path \<Rightarrow>
              (case walk_root env exclusions f absoluteRoot of
                 (err, packed, st) \<Rightarrow>
                   (let archive = \<lparr>aPath = path, aStats = st\<lparr>sCompressedBytes := aeSize env\<rparr>\<rparr>;
                        temps1 = (path, packed) # temps;
                        err1 = (case err of None \<Rightarrow> finish_archive 0 (aeFinish env) | Some e \<Rightarrow> Some e)
                    in case err1 of
                         Some e \<Rightarrow> (Inl e, snd (Archive_Remove (aeRemove env) (Some archive) temps1))
                       | None \<Rightarrow> (Inr archive, temps1))))"

text \<open>What the worker reads from it: the tar and gzip formats are lossless.\<close>

definition archive_of :: "packed \<Rightarrow> int \<Rightarrow> archive_stream" where
  "archive_of packed sz =
     \<lparr>asGzipOk = True, asItems = map (\<lambda>(h, b). (None, NextHeader h b)) packed, asEndCtx = None,
      asTrailing = ReadEOF, asCloseOk = True, asPeek = ReadEOF, asCompressed = sz\<rparr>"

section \<open>The entries, without the failures\<close>

text \<open>A reference: the entries below a place in the order of the walk.\<close>

primrec entries_below :: "nat \<Rightarrow> string list \<Rightarrow> fs \<Rightarrow> phys \<Rightarrow> string list \<Rightarrow> (string list \<times> node) list" where
  "entries_below 0 exclusions f D ns = []"
| "entries_below (Suc depth) exclusions f D ns =
     (case get_node f (D @ ns) of
        Inl _ \<Rightarrow> []
      | Inr nd \<Rightarrow>
          if ns \<noteq> [] \<and> isExcluded (archive_name ns) exclusions then []
          else (if ns = [] then [] else [(ns, nd)])
            @ (case nd of
                 NDir _ \<Rightarrow> concat (map (\<lambda>c. entries_below depth exclusions f D (ns @ [c])) (dir_names f (D @ ns)))
               | _ \<Rightarrow> []))"

definition pack :: "string list \<times> node \<Rightarrow> header \<times> bytes" where
  "pack = (\<lambda>(ns, nd). (header_of ns nd, body_of nd))"

definition add_entries :: "(string list \<times> node) list \<Rightarrow> packed \<times> stats \<Rightarrow> packed \<times> stats" where
  "add_entries es acc = (fst acc @ map pack es, fold (count_entry \<circ> snd) es (snd acc))"

lemma add_entries_Nil [simp]: "add_entries [] acc = acc"
  by (simp add: add_entries_def)

lemma add_entries_append: "add_entries (xs @ ys) acc = add_entries ys (add_entries xs acc)"
  by (simp add: add_entries_def)

lemma each_add_entries:
  assumes "each g xs acc = (None, acc')"
    and "\<And>x a a'. x \<in> set xs \<Longrightarrow> g x a = (None, a') \<Longrightarrow> a' = add_entries (l x) a"
  shows "acc' = add_entries (concat (map l xs)) acc"
  using assms
proof (induction xs arbitrary: acc)
  case (Cons x xs)
  then obtain a where "g x acc = (None, a)" "each g xs a = (None, acc')"
    by (cases "g x acc") (auto split: option.splits)
  with Cons show ?case by (simp add: add_entries_append)
qed simp

lemma visit_entry_Skip: "visit_entry env ex ns nd = Skip \<Longrightarrow> isExcluded (archive_name ns) ex"
  by (auto simp: visit_entry_def split: option.splits if_splits)

lemma visit_entry_Packed: "visit_entry env ex ns nd = Packed \<Longrightarrow> \<not> isExcluded (archive_name ns) ex"
  by (auto simp: visit_entry_def split: option.splits if_splits)

text \<open>A walk that succeeds has packed the entries of the reference, in its order.\<close>

lemma walk_dir_entries:
  "walk_dir n env ex f D ns acc = (None, acc') \<Longrightarrow> acc' = add_entries (entries_below n ex f D ns) acc"
proof (induction n arbitrary: ns acc acc')
  case (Suc n)
  let ?walk = "\<lambda>c a. walk_dir n env ex f D (ns @ [c]) a"
  obtain nd where nd: "get_node f (D @ ns) = Inr nd" using Suc.prems by (auto split: sum.splits)
  have kids: "b = add_entries (concat (map (\<lambda>c. entries_below n ex f D (ns @ [c])) xs)) a"
    if "each ?walk xs a = (None, b)" for xs a b
    using that by (rule each_add_entries) (use Suc.IH in blast)
  show ?case
  proof (cases "ns = []")
    case True
    then show ?thesis
      using Suc.prems nd kids by (cases nd) (auto split: option.splits)
  next
    case False
    let ?acc = "(fst acc @ [(header_of ns nd, body_of nd)], count_entry nd (snd acc))"
    show ?thesis
    proof (cases "visit_entry env ex ns nd")
      case Packed
      note no = visit_entry_Packed [OF Packed]
      have eq: "add_entries ((ns, nd) # es) acc = add_entries es ?acc" for es
        by (simp add: add_entries_def pack_def)
      show ?thesis
      proof (cases nd)
        case (NDir perm)
        then have "each ?walk (dir_names f (D @ ns)) ?acc = (None, acc')"
          using Suc.prems nd False Packed by (simp split: option.splits)
        from kids [OF this] show ?thesis using nd NDir False no eq by simp
      qed (use Suc.prems nd False Packed no eq in simp_all)
    qed (use Suc.prems nd False in \<open>auto dest: visit_entry_Skip\<close>)
  qed
qed simp

section \<open>The depth is enough\<close>

definition exists_at :: "fs \<Rightarrow> phys \<Rightarrow> bool" where
  "exists_at f q = (q = [] \<or> map_of f q \<noteq> None)"

lemma get_node_exists: "exists_at f q \<Longrightarrow> \<exists>nd. get_node f q = Inr nd"
  by (auto simp: exists_at_def get_node_def split: option.splits)

lemma dir_names_iff: "c \<in> set (dir_names f q) \<longleftrightarrow> map_of f (q @ [c]) \<noteq> None"
proof -
  have "c \<in> set (children f q) \<longleftrightarrow> (\<exists>p \<in> fst ` set f. p \<noteq> [] \<and> butlast p = q \<and> last p = c)"
    by (auto simp: children_def)
  also have "\<dots> \<longleftrightarrow> q @ [c] \<in> fst ` set f"
    by (metis append_butlast_last_id butlast_snoc last_snoc snoc_eq_iff_butlast)
  finally show ?thesis by (simp add: dir_names_def map_of_eq_None_iff)
qed

lemma distinct_dir_names [simp]: "distinct (dir_names f q)"
  by (simp add: dir_names_def)

lemma fold_max_le:
  "m \<le> fold (\<lambda>p n. max (length (fst p)) n) f m
    \<and> (\<forall>p \<in> set f. length (fst p) \<le> fold (\<lambda>p n. max (length (fst p)) n) f m)"
proof (induction f arbitrary: m)
  case (Cons p f)
  from Cons [of "max (length (fst p)) m"] show ?case by auto
qed simp

lemma fs_depth_le: "map_of f q \<noteq> None \<Longrightarrow> length q \<le> fs_depth f"
  using fold_max_le [of 0 f] by (fastforce simp: fs_depth_def dest: map_of_SomeD)

text \<open>Nothing goes wrong but what the calls report.\<close>

definition quiet :: "archive_env \<Rightarrow> bool" where
  "quiet env \<longleftrightarrow> (\<forall>ns. aeCtx env ns = None \<and> \<not> aeOther env ns \<and> (\<forall>call. aeFault env ns call = None))"

lemma each_error:
  "each g xs acc = (Some e, acc') \<Longrightarrow> \<exists>x a a'. x \<in> set xs \<and> g x a = (Some e, a')"
  by (induction xs arbitrary: acc) (fastforce split: prod.splits option.splits)+

lemma failing_call_quiet: "quiet env \<Longrightarrow> failing_call (aeFault env ns) cs = None"
  by (induction cs) (simp_all add: quiet_def)

lemma visit_entry_Failed: "visit_entry env ex ns nd = Failed e \<Longrightarrow> e \<noteq> TooDeep \<and> \<not> quiet env"
  by (auto simp: visit_entry_def failing_call_quiet split: option.splits if_splits) (auto simp: quiet_def)

lemma walk_dir_error:
  "walk_dir n env ex f D ns acc = (Some e, acc') \<Longrightarrow> exists_at f (D @ ns) \<Longrightarrow>
     fs_depth f < n + length (D @ ns) \<Longrightarrow> e \<noteq> TooDeep \<and> \<not> quiet env"
proof (induction n arbitrary: ns acc acc')
  case 0
  then show ?case using fs_depth_le [of f "D @ ns"] by (auto simp: exists_at_def)
next
  case (Suc n)
  let ?walk = "\<lambda>c a. walk_dir n env ex f D (ns @ [c]) a"
  have kids: ?case if run: "each ?walk (dir_names f (D @ ns)) a = (Some e, b)" for a b
  proof -
    obtain c a a' where "c \<in> set (dir_names f (D @ ns))" and "?walk c a = (Some e, a')"
      using each_error [of ?walk "dir_names f (D @ ns)" a e b] run by blast
    then show ?thesis
      using Suc.IH [of "ns @ [c]" a a'] Suc.prems(3) by (simp add: dir_names_iff exists_at_def)
  qed
  obtain nd where nd: "get_node f (D @ ns) = Inr nd" using get_node_exists [OF Suc.prems(2)] by blast
  let ?inside = "\<lambda>a. case nd of
      NDir _ \<Rightarrow> (case aeFault env ns ReadDir of
          Some e \<Rightarrow> (Some (EntryError ReadDir (archive_name ns) e), a)
        | None \<Rightarrow> each ?walk (dir_names f (D @ ns)) a)
    | _ \<Rightarrow> (None, a)"
  have inside: ?case if "?inside a = (Some e, b)" for a b
    using that kids by (auto simp: quiet_def split: node.splits option.splits)
  show ?case
  proof (cases "ns = [] \<or> visit_entry env ex ns nd = Packed")
    case True
    then have "\<exists>a. ?inside a = (Some e, acc')"
      by (cases "ns = []") (use Suc.prems(1) nd in \<open>auto simp only: walk_dir.simps Let_def sum.case visit.case if_True if_False simp_thms\<close>)
    with inside show ?thesis by blast
  next
    case False
    with Suc.prems(1) nd show ?thesis
      by (cases "visit_entry env ex ns nd") (auto simp: Let_def dest: visit_entry_Failed)
  qed
qed

section \<open>Which entries\<close>

text \<open>An entry is packed when it is in the tree, every place on the way to it is a real directory, and
  neither it nor any of those is excluded.\<close>

definition reached :: "string list \<Rightarrow> fs \<Rightarrow> phys \<Rightarrow> string list \<Rightarrow> string list \<Rightarrow> bool" where
  "reached ex f D ns ms =
     ((\<forall>k. length ns \<le> k \<longrightarrow> k < length ms \<longrightarrow> is_dir f (D @ take k ms))
      \<and> (\<forall>k. length ns \<le> k \<longrightarrow> 0 < k \<longrightarrow> k \<le> length ms \<longrightarrow> \<not> isExcluded (archive_name (take k ms)) ex))"

definition packed_node :: "string list \<Rightarrow> fs \<Rightarrow> phys \<Rightarrow> string list \<Rightarrow> node option" where
  "packed_node ex f D ms =
     (if ms \<noteq> [] \<and> (\<forall>k < length ms. is_dir f (D @ take k ms) \<and> \<not> isExcluded (archive_name (take (Suc k) ms)) ex)
      then map_of f (D @ ms) else None)"

lemma get_node_map_of: "q \<noteq> [] \<Longrightarrow> get_node f q = Inr nd \<longleftrightarrow> map_of f q = Some nd"
  by (auto simp: get_node_def split: option.splits)

lemma get_node_dir: "get_node f q = Inr (NDir p) \<Longrightarrow> is_dir f q"
  by (auto simp: get_node_def is_dir_def split: option.splits if_splits)

lemma is_dir_get_node: "is_dir f q \<Longrightarrow> get_node f q = Inr nd \<Longrightarrow> map_of f [] = None \<Longrightarrow> \<exists>p. nd = NDir p"
  by (auto simp: get_node_def is_dir_def split: option.splits node.splits)

lemma entries_below_sound:
  "(ms, nd) \<in> set (entries_below n ex f D ns) \<Longrightarrow>
     prefix ns ms \<and> ms \<noteq> [] \<and> map_of f (D @ ms) = Some nd \<and> reached ex f D ns ms"
proof (induction n arbitrary: ns)
  case (Suc n)
  obtain x where x: "get_node f (D @ ns) = Inr x"
    using Suc.prems by (cases "get_node f (D @ ns)") auto
  have ok: "ns \<noteq> [] \<Longrightarrow> \<not> isExcluded (archive_name ns) ex" using Suc.prems x by auto
  show ?case
  proof (cases "(ms, nd) = (ns, x) \<and> ns \<noteq> []")
    case True
    with x ok show ?thesis by (auto simp: reached_def get_node_map_of)
  next
    case False
    then obtain p c where x': "x = NDir p" and c: "(ms, nd) \<in> set (entries_below n ex f D (ns @ [c]))"
      using Suc.prems x ok by (auto split: node.splits if_splits)
    note ih = Suc.IH [OF c]
    then obtain zs where ms: "ms = ns @ c # zs" by (auto simp: prefix_def)
    have "is_dir f (D @ take k ms) \<and> (0 < k \<longrightarrow> \<not> isExcluded (archive_name (take k ms)) ex)" if "k = length ns" for k
      using that ms ok get_node_dir x x' by auto
    then have "reached ex f D ns ms"
      using ih unfolding reached_def
      by (metis Suc_le_eq length_append_singleton nat_less_le order.strict_implies_order)
    with ih ms show ?thesis by auto
  qed
qed simp

lemma entries_below_complete:
  "map_of f (D @ ns @ zs) = Some nd \<Longrightarrow> ns @ zs \<noteq> [] \<Longrightarrow> reached ex f D ns (ns @ zs) \<Longrightarrow>
     exists_at f (D @ ns) \<Longrightarrow> fs_depth f < n + length (D @ ns) \<Longrightarrow> map_of f [] = None \<Longrightarrow>
     (ns @ zs, nd) \<in> set (entries_below n ex f D ns)"
proof (induction n arbitrary: ns zs)
  case 0
  then show ?case using fs_depth_le [of f "D @ ns"] by (auto simp: exists_at_def)
next
  case (Suc n)
  obtain x where x: "get_node f (D @ ns) = Inr x" using get_node_exists [OF Suc.prems(4)] by blast
  have ok: "ns \<noteq> [] \<Longrightarrow> \<not> isExcluded (archive_name ns) ex"
    using Suc.prems(3) by (auto simp: reached_def dest: spec [of _ "length ns"])
  show ?case
  proof (cases zs)
    case Nil
    then have "nd = x" using Suc.prems(1,2) x get_node_map_of [of "D @ ns" f] by simp
    then show ?thesis using Nil Suc.prems(2) x ok by simp
  next
    case (Cons c cs)
    have dir: "is_dir f (D @ ns)"
      using Suc.prems(3) Cons by (auto simp: reached_def dest: spec [of _ "length ns"])
    then obtain p where p: "x = NDir p" using is_dir_get_node x Suc.prems(6) by blast
    have c: "map_of f (D @ ns @ [c]) \<noteq> None"
    proof (cases cs)
      case (Cons d ds)
      then have "is_dir f (D @ ns @ [c])"
        using Suc.prems(3) \<open>zs = c # cs\<close> by (auto simp: reached_def dest: spec [of _ "Suc (length ns)"])
      then show ?thesis by (auto simp: is_dir_def split: option.splits)
    qed (use Suc.prems Cons in auto)
    have "reached ex f D (ns @ [c]) ((ns @ [c]) @ cs)"
      using Suc.prems(3) Cons by (simp add: reached_def)
    then have "((ns @ [c]) @ cs, nd) \<in> set (entries_below n ex f D (ns @ [c]))"
      using Suc.prems c Cons by (intro Suc.IH) (auto simp: exists_at_def)
    then show ?thesis
      using x p ok Cons c by (auto simp: dir_names_iff)
  qed
qed

lemma packed_node_iff:
  "packed_node ex f D ms = Some nd \<longleftrightarrow> ms \<noteq> [] \<and> map_of f (D @ ms) = Some nd \<and> reached ex f D [] ms"
proof -
  have "(\<forall>k < length ms. \<not> isExcluded (archive_name (take (Suc k) ms)) ex) \<longleftrightarrow>
      (\<forall>k. 0 < k \<longrightarrow> k \<le> length ms \<longrightarrow> \<not> isExcluded (archive_name (take k ms)) ex)"
    by (metis Suc_le_eq Suc_pred zero_less_Suc)
  then show ?thesis by (auto simp: packed_node_def reached_def)
qed

section \<open>Parents before children\<close>

text \<open>Each entry is new and its ancestors are directories that came before.\<close>

definition dir_at :: "(string list \<times> node) list \<Rightarrow> string list \<Rightarrow> bool" where
  "dir_at S ns = (\<exists>p. map_of S ns = Some (NDir p))"

fun well_ordered :: "(string list \<times> node) list \<Rightarrow> (string list \<times> node) list \<Rightarrow> bool" where
  "well_ordered S [] = True"
| "well_ordered S ((ns, nd) # es) =
     (ns \<noteq> [] \<and> map_of S ns = None \<and> (\<forall>k. 0 < k \<longrightarrow> k < length ns \<longrightarrow> dir_at S (take k ns))
      \<and> well_ordered ((ns, nd) # S) es)"

lemma well_ordered_append:
  "well_ordered S (xs @ ys) \<longleftrightarrow> well_ordered S xs \<and> well_ordered (rev xs @ S) ys"
  by (induction S xs rule: well_ordered.induct) auto

lemma well_ordered_keys:
  "well_ordered S es \<Longrightarrow> (distinct (map fst es) \<and> fst ` set es \<inter> fst ` set S = {})"
proof (induction S es rule: well_ordered.induct)
  case (2 S ns nd es)
  then show ?case by (auto simp: map_of_eq_None_iff)
qed simp

lemma well_ordered_map_of: "well_ordered [] es \<Longrightarrow> map_of (rev es) ns = Some nd \<longleftrightarrow> (ns, nd) \<in> set es"
  using well_ordered_keys [of "[]" es] by (simp add: map_of_eq_Some_iff rev_map [symmetric])

text \<open>Walking the names of one directory.\<close>

lemma dir_at_later:
  "dir_at S ns \<Longrightarrow> ns \<notin> fst ` set xs \<Longrightarrow> dir_at (xs @ S) ns"
  by (auto simp: dir_at_def map_of_eq_None_iff map_add_def split: option.splits) (metis image_eqI map_of_SomeD fst_conv)

lemma well_ordered_concat:
  assumes "distinct cs"
    and "\<And>c S. c \<in> set cs \<Longrightarrow> (\<And>ms. prefix (ns @ [c]) ms \<Longrightarrow> map_of S ms = None) \<Longrightarrow>
      (\<And>k. 0 < k \<Longrightarrow> k \<le> length ns \<Longrightarrow> dir_at S (take k ns)) \<Longrightarrow> well_ordered S (l c)"
    and "\<And>c ms nd. (ms, nd) \<in> set (l c) \<Longrightarrow> prefix (ns @ [c]) ms"
    and "\<And>c ms. c \<in> set cs \<Longrightarrow> prefix (ns @ [c]) ms \<Longrightarrow> map_of S ms = None"
    and "\<And>k. 0 < k \<Longrightarrow> k \<le> length ns \<Longrightarrow> dir_at S (take k ns)"
  shows "well_ordered S (concat (map l cs))"
  using assms(1,2,4,5)
proof (induction cs arbitrary: S)
  case (Cons c cs)
  have "well_ordered S (l c)" using Cons.prems(3,4) by (intro Cons.prems(2)) auto
  moreover have "well_ordered (rev (l c) @ S) (concat (map l cs))"
  proof (rule Cons.IH)
    fix d ms assume d: "d \<in> set cs" and p: "prefix (ns @ [d]) ms"
    have "ms \<notin> fst ` set (l c)"
    proof
      assume "ms \<in> fst ` set (l c)"
      then have "prefix (ns @ [c]) ms" using assms(3) by auto
      with p d Cons.prems(1) show False by (auto simp: prefix_def)
    qed
    then show "map_of (rev (l c) @ S) ms = None"
      using Cons.prems(3) [of d ms] d p by (auto simp: map_of_eq_None_iff)
  next
    fix k assume k: "0 < k" "k \<le> length ns"
    have "take k ns \<notin> fst ` set (l c)"
    proof
      assume "take k ns \<in> fst ` set (l c)"
      then have "prefix (ns @ [c]) (take k ns)" using assms(3) by auto
      then show False using prefix_length_le k by fastforce
    qed
    then show "dir_at (rev (l c) @ S) (take k ns)" using Cons.prems(4) k by (intro dir_at_later) auto
  qed (use Cons.prems in auto)
  ultimately show ?case by (simp add: well_ordered_append)
qed simp

lemma well_ordered_entries:
  "(\<And>ms. prefix ns ms \<Longrightarrow> map_of S ms = None) \<Longrightarrow>
   (\<And>k. 0 < k \<Longrightarrow> k < length ns \<Longrightarrow> dir_at S (take k ns)) \<Longrightarrow> well_ordered S (entries_below n ex f D ns)"
proof (induction n arbitrary: ns S)
  case (Suc n)
  let ?l = "\<lambda>c. entries_below n ex f D (ns @ [c])"
  show ?case
  proof (cases "get_node f (D @ ns)")
    case (Inr nd)
    let ?S = "if ns = [] then S else (ns, nd) # S"
    have kids: "well_ordered ?S (concat (map ?l (dir_names f (D @ ns))))" if nd: "nd = NDir p" for p
    proof (rule well_ordered_concat [where ns = ns])
      fix k assume k: "0 < k" "k \<le> length ns"
      then show "dir_at ?S (take k ns)"
        using Suc.prems(2) nd by (cases "k = length ns") (auto simp: dir_at_def)
    next
      fix c S' assume S': "\<And>ms. prefix (ns @ [c]) ms \<Longrightarrow> map_of S' ms = None"
        and d: "\<And>k. 0 < k \<Longrightarrow> k \<le> length ns \<Longrightarrow> dir_at S' (take k ns)"
      show "well_ordered S' (?l c)" by (rule Suc.IH [OF S']) (use d in auto)
    next
      fix c ms assume "prefix (ns @ [c]) ms"
      then show "map_of ?S ms = None" using Suc.prems(1) [of ms] by (auto simp: prefix_def)
    qed (use entries_below_sound in \<open>auto dest: entries_below_sound\<close>)
    have "well_ordered ?S (case nd of NDir _ \<Rightarrow> concat (map ?l (dir_names f (D @ ns))) | _ \<Rightarrow> [])"
      using kids by (cases nd) simp_all
    then show ?thesis using Suc.prems Inr by auto
  qed simp
qed simp

end
