(* ===== verification/Roundtrip.thy ===== *)
theory Roundtrip
  imports Archive
begin

text \<open>
  The way of a workspace from the client to the worker: what \<^verbatim>\<open>CreateArchive\<close> wrote is given to
  \<^verbatim>\<open>Extract\<close> (both in \<^verbatim>\<open>internal/workspace/workspace.go\<close>).  Extraction of entries in which every
  directory comes before what is in it succeeds and rebuilds exactly those entries.

  The properties: which entries an archive holds, that no temporary file is left by a failure, the
  round trip, and the empty archive of a root that is a symbolic link.
\<close>

section \<open>Extraction of well-ordered entries\<close>

text \<open>A node as extraction creates it: the permission bits only.\<close>

definition placed_node :: "node \<Rightarrow> node" where
  "placed_node nd =
     (case nd of
        NDir p \<Rightarrow> NDir (p mod 512)
      | NFile p d \<Rightarrow> NFile (p mod 512) d
      | NLink t \<Rightarrow> NLink t)"

text \<open>The tree below \<open>D\<close> is exactly the entries \<open>S\<close>.\<close>

definition mirror :: "fs \<Rightarrow> phys \<Rightarrow> (string list \<times> node) list \<Rightarrow> bool" where
  "mirror f D S \<longleftrightarrow> (\<forall>ns. ns \<noteq> [] \<longrightarrow> map_of f (D @ ns) = map_option placed_node (map_of S ns))"

definition link_inside :: "string \<Rightarrow> string list \<times> node \<Rightarrow> bool" where
  "link_inside dest =
     (\<lambda>(ns, nd). case nd of
        NLink t \<Rightarrow> validateSymlink dest (PJoin dest (archive_name ns)) t = None
      | _ \<Rightarrow> True)"

definition file_name :: "string \<Rightarrow> bool" where
  "file_name c = (is_name c \<and> CHR 0x00 \<notin> set c)"

lemma file_names: "list_all file_name ns \<Longrightarrow> list_all is_name ns"
  by (induction ns) (simp_all add: file_name_def)

lemma parents_loop_present:
  assumes "w_faults w = []" and "list_all is_name (cur @ cs)" and "at_dir (w_fs w) cur d"
    and "\<And>k. 0 < k \<Longrightarrow> k \<le> length cs \<Longrightarrow> \<exists>p. map_of (w_fs w) (d @ take k cs) = Some (NDir p)"
  shows "parents_loop (render True cur) cs w = (None, w) \<and> at_dir (w_fs w) (cur @ cs) (d @ cs)"
  using assms(2-)
proof (induction cs arbitrary: cur d)
  case (Cons c cs)
  have nm: "list_all is_name (cur @ [c])" using Cons.prems(1) by simp
  have pj: "PJoin (render True cur) c = render True (cur @ [c])"
    using nm by (subst PJoin_name) (simp_all add: IsAbs_render comps_render clean_list_names)
  obtain p where p: "map_of (w_fs w) (d @ [c]) = Some (NDir p)" using Cons.prems(3) [of 1] by auto
  have ls: "os_lstat (render True (cur @ [c])) w = (Inr (NDir p), w)"
    using at_dir_locate [OF Cons.prems(2) nm] p assms(1) by (simp add: os_lstat_def get_node_def)
  have at: "at_dir (w_fs w) (cur @ [c]) (d @ [c])"
    using Cons.prems(2) nm p by (intro at_dir_snoc) (simp_all add: is_dir_def)
  have "\<exists>q. map_of (w_fs w) ((d @ [c]) @ take k cs) = Some (NDir q)" if "0 < k" "k \<le> length cs" for k
    using Cons.prems(3) [of "Suc k"] that by simp
  from Cons.IH [OF _ at this] Cons.prems(1) show ?case using pj ls by (simp add: Let_def)
qed simp

lemma ensureSafeParents_present:
  assumes "w_faults w = []" and nm: "list_all is_name (R @ ns)" and "at_dir (w_fs w) R D"
    and "\<And>k. 0 < k \<Longrightarrow> k \<le> length ns \<Longrightarrow> \<exists>p. map_of (w_fs w) (D @ take k ns) = Some (NDir p)"
  shows "ensureSafeParents (render True R) (render True (R @ ns)) w = (None, w)
    \<and> at_dir (w_fs w) (R @ ns) (D @ ns)"
proof (cases "ns = []")
  case False
  have "Rel (render True R) (render True (R @ ns)) = Some (render False ns)"
    using Rel_names [of "render True R" ns] nm by (simp add: IsAbs_render comps_render clean_list_names)
  moreover have "\<not> escapes (render False ns)"
    using nm by (auto simp: escapes_render clean_list_names dest: is_nameD)
  moreover have sp: "Split slash (render False ns) = ns"
    using nm False by (simp add: render_def Split_Join_names)
  moreover from this have "render False ns \<noteq> ''.''" using nm by (auto simp: is_name_def)
  ultimately show ?thesis
    using parents_loop_present [OF assms] by (simp add: ensureSafeParents_def escapes_def)
next
  case True
  have "Rel (render True R) (render True R) = Some (render False [])"
    using Rel_names [of "render True R" "[]"] nm by (simp add: IsAbs_render comps_render clean_list_names)
  with True assms(3) show ?thesis by (simp add: ensureSafeParents_def render_def HasPrefix_def)
qed

definition is_file :: "node \<Rightarrow> bool" where
  "is_file nd = (case nd of NFile _ _ \<Rightarrow> True | _ \<Rightarrow> False)"

lemma os_create_fresh:
  assumes "w_faults w = []" and "locate (w_fs w) p = Inr q" and "q \<noteq> []" and "map_of (w_fs w) q = None"
  shows "os_create p nd w = (Inr q, w\<lparr>w_fs := (q, nd) # w_fs w\<rparr>)"
  using assms by (simp add: os_create_def)

lemma perm_bits_nat [simp]: "perm_bits (int n) = n mod 512"
  unfolding perm_bits_def by (simp add: nat_mod_distrib)

lemma place_entry_fresh:
  assumes "w_faults w = []" and "locate (w_fs w) p = Inr q" and "q \<noteq> []" and "map_of (w_fs w) q = None"
    and "\<And>t. nd = NLink t \<Longrightarrow> validateSymlink dest p t = None"
  shows "\<exists>w'. place_entry dest name p (header_of ns nd) (body_of nd) w = (None, is_file nd, w')
    \<and> w_faults w' = [] \<and> map_of (w_fs w') = (map_of (w_fs w))(q \<mapsto> placed_node nd)"
proof (cases nd)
  case (NFile perm d)
  note cr = os_create_fresh [OF assms(1-4), of "NFile (perm mod 512) []"]
  show ?thesis using NFile cr assms(1)
    by (simp add: place_entry_def header_of_def body_of_def write_regular_def os_create_excl_def fd_write_def
        fd_close_def is_file_def placed_node_def)
qed (use os_create_fresh [OF assms(1-4)] assms in \<open>simp_all add: place_entry_def header_of_def os_mkdir_def
    os_symlink_def is_file_def placed_node_def\<close>)

lemma safeArchivePath_names:
  assumes "list_all file_name ns" and "ns \<noteq> []"
  shows "safeArchivePath (archive_name ns) = Inr (archive_name ns)" and "comps (archive_name ns) = ns"
proof -
  have nm: "list_all is_name ns" using assms(1) by (rule file_names)
  have r: "archive_name ns = render False ns" using assms(2) by (simp add: archive_name_def render_def)
  have cl: "Clean (archive_name ns) = archive_name ns" "comps (archive_name ns) = ns" "\<not> IsAbs (archive_name ns)"
    using nm by (simp_all add: r Clean_render comps_render IsAbs_render clean_list_names)
  have ne: "\<not> escapes (archive_name ns)"
    using nm by (auto simp: r escapes_render clean_list_names dest: is_nameD)
  have "CHR 0x00 \<notin> set (archive_name ns)"
    unfolding archive_name_def using assms(1) by (induction slash ns rule: Join.induct) (auto simp: file_name_def)
  moreover have "archive_name ns \<noteq> ''.''" "archive_name ns \<noteq> []"
    using cl(2) nm assms(2) by (auto simp: comps_def clean_comps_def clean_step_def)
  ultimately show "safeArchivePath (archive_name ns) = Inr (archive_name ns)"
    using cl ne by (simp add: safeArchivePath_def Contains_char escapes_def)
  show "comps (archive_name ns) = ns" by (rule cl(2))
qed

lemma mirror_add:
  assumes "mirror f D S" and "map_of g = (map_of f)(D @ ns \<mapsto> placed_node nd)"
  shows "mirror g D ((ns, nd) # S)"
  using assms by (simp add: mirror_def)

lemma mirror_dir: "mirror f D S \<Longrightarrow> dir_at S ns \<Longrightarrow> ns \<noteq> [] \<Longrightarrow> \<exists>p. map_of f (D @ ns) = Some (NDir p)"
  by (auto simp: mirror_def dir_at_def placed_node_def)

lemma extends_fresh: "map_of f q = None \<Longrightarrow> map_of g = (map_of f)(q \<mapsto> nd) \<Longrightarrow> extends f g {q}"
  by (auto simp: extends_def map_le_upd_fresh)

lemma header_of_simps [simp]:
  "hName (header_of ns nd) = archive_name ns" "hSize (header_of ns nd) = int (length (body_of nd))"
  by (simp_all add: header_of_def body_of_def split: node.splits)

lemma extract_entry_fresh:
  assumes faults: "w_faults w = []" and R: "list_all is_name R" and at: "at_dir (w_fs w) R D"
    and S: "mirror (w_fs w) D S" "map_of S ns = None"
    and up: "\<And>k. 0 < k \<Longrightarrow> k < length ns \<Longrightarrow> dir_at S (take k ns)"
    and ns: "list_all file_name ns" "ns \<noteq> []" and new: "archive_name ns \<notin> set seen"
    and lim: "sFiles st + 1 \<le> lMaxFiles lim"
      "sUncompressedBytes st + int (length (body_of nd)) \<le> lMaxUncompressedBytes lim"
    and link: "link_inside (render True R) (ns, nd)"
  shows "\<exists>w'. extract_entry lim (render True R) (header_of ns nd) (body_of nd) seen st w =
      (None, archive_name ns # seen, count_entry nd st, w')
    \<and> w_faults w' = [] \<and> at_dir (w_fs w') R D \<and> mirror (w_fs w') D ((ns, nd) # S)"
proof -
  obtain ms m where split: "ns = ms @ [m]" using ns(2) by (metis append_butlast_last_id)
  note nm = file_names [OF ns(1)]
  have Rns: "list_all is_name (R @ ms @ [m])" using R nm split by simp
  have target: "PJoin (render True R) (archive_name ns) = render True (R @ ms @ [m])"
    using PJoin_names [of "render True R" ns] R nm ns(2) split
    by (simp add: IsAbs_render comps_render clean_list_names archive_name_def)
  have dir: "Dir (render True (R @ ms @ [m])) = render True (R @ ms)"
    using Dir_render [of "R @ ms" m] Rns by simp
  have "\<exists>p. map_of (w_fs w) (D @ take k ms) = Some (NDir p)" if "0 < k" "k \<le> length ms" for k
    using mirror_dir [OF S(1) up [of k]] that split by (cases "ms = []") auto
  then have par: "ensureSafeParents (render True R) (render True (R @ ms)) w = (None, w)"
    and at2: "at_dir (w_fs w) (R @ ms) (D @ ms)"
    using ensureSafeParents_present [OF faults _ at, of ms] Rns by simp_all
  have loc: "locate (w_fs w) (render True (R @ ms @ [m])) = Inr (D @ ns)"
    using at_dir_locate [OF at2, of m] Rns split by simp
  have fresh: "map_of (w_fs w) (D @ ns) = None" using S ns(2) by (simp add: mirror_def)
  have "\<And>t. nd = NLink t \<Longrightarrow> validateSymlink (render True R) (render True (R @ ms @ [m])) t = None"
    using link target by (simp add: link_inside_def)
  then obtain w' where pl: "place_entry (render True R) (archive_name ns) (render True (R @ ms @ [m]))
        (header_of ns nd) (body_of nd) w = (None, is_file nd, w')"
    and w': "w_faults w' = []" "map_of (w_fs w') = (map_of (w_fs w))(D @ ns \<mapsto> placed_node nd)"
    using place_entry_fresh [OF faults loc _ fresh] ns(2) by blast
  have "extract_entry lim (render True R) (header_of ns nd) (body_of nd) seen st w =
      (None, archive_name ns # seen, count_entry nd st, w')"
    using safeArchivePath_names(1) [OF ns] new lim target dir par pl
    by (cases nd) (simp_all add: extract_entry_def Let_def count_entry_def is_file_def body_of_def)
  moreover have "at_dir (w_fs w') R D" using extends_fresh [OF fresh w'(2)] at by (rule at_dir_mono)
  ultimately show ?thesis using w' mirror_add [OF S(1) w'(2)] by blast
qed

text \<open>The whole list.\<close>

definition to_item :: "string list \<times> node \<Rightarrow> ctx_err option \<times> tar_next" where
  "to_item e = (None, NextHeader (fst (pack e)) (snd (pack e)))"

lemma to_item_pair: "to_item (ns, nd) = (None, NextHeader (header_of ns nd) (body_of nd))"
  by (simp add: to_item_def pack_def)

definition content_size :: "(string list \<times> node) list \<Rightarrow> int" where
  "content_size es = (\<Sum>(ns, nd) \<leftarrow> es. int (length (body_of nd)))"

lemma content_size_nonneg: "0 \<le> content_size es"
  by (induction es) (auto simp: content_size_def)

lemma archive_name_inj:
  "list_all file_name xs \<Longrightarrow> list_all file_name ys \<Longrightarrow> xs \<noteq> [] \<Longrightarrow> ys \<noteq> [] \<Longrightarrow>
     archive_name xs = archive_name ys \<Longrightarrow> xs = ys"
  using safeArchivePath_names(2) by metis

lemma fold_count_entry:
  "fold (count_entry \<circ> snd) es st =
     st\<lparr>sFiles := sFiles st + int (length es), sUncompressedBytes := sUncompressedBytes st + content_size es\<rparr>"
  by (induction es arbitrary: st) (auto simp: content_size_def count_entry_def)

lemma extract_loop_fresh:
  assumes "list_all is_name R" and "well_ordered S es" and "list_all (list_all file_name \<circ> fst) es"
    and "list_all (list_all file_name \<circ> fst) S" "[] \<notin> fst ` set S" and "list_all (link_inside (render True R)) es"
    and "w_faults w = []" and "at_dir (w_fs w) R D" and "mirror (w_fs w) D S"
    and "set seen = archive_name ` fst ` set S"
    and "sFiles st + int (length es) \<le> lMaxFiles lim"
    and "sUncompressedBytes st + content_size es \<le> lMaxUncompressedBytes lim"
  shows "\<exists>seen' w'. extract_loop lim (render True R) (map to_item es) None seen st w =
      (None, seen', fold (count_entry \<circ> snd) es st, w') \<and> mirror (w_fs w') D (rev es @ S)"
  using assms(2-)
proof (induction S es arbitrary: seen st w rule: well_ordered.induct)
  case (2 S ns nd es)
  have ns: "list_all file_name ns" "ns \<noteq> []" and nS: "map_of S ns = None" using "2.prems"(1,2) by simp_all
  have names: "list_all file_name xs \<and> xs \<noteq> [] \<and> xs \<noteq> ns" if "xs \<in> fst ` set S" for xs
    using that "2.prems"(3,4) nS unfolding list_all_iff [of _ S] map_of_eq_None_iff by (auto simp: image_iff)
  have new: "archive_name ns \<notin> set seen"
    using names archive_name_inj [OF ns(1) _ ns(2)] by (auto simp: "2.prems"(9))
  have sz: "content_size ((ns, nd) # es) = int (length (body_of nd)) + content_size es" by (simp add: content_size_def)
  have "\<exists>w'. extract_entry lim (render True R) (header_of ns nd) (body_of nd) seen st w =
      (None, archive_name ns # seen, count_entry nd st, w')
    \<and> w_faults w' = [] \<and> at_dir (w_fs w') R D \<and> mirror (w_fs w') D ((ns, nd) # S)"
    using "2.prems" ns new sz content_size_nonneg [of es] by (intro extract_entry_fresh [OF _ assms(1)]) auto
  then obtain w' where en: "extract_entry lim (render True R) (header_of ns nd) (body_of nd) seen st w =
      (None, archive_name ns # seen, count_entry nd st, w')"
    and w': "w_faults w' = []" "at_dir (w_fs w') R D" "mirror (w_fs w') D ((ns, nd) # S)" by blast
  have "\<exists>seen' w''. extract_loop lim (render True R) (map to_item es) None (archive_name ns # seen) (count_entry nd st) w' =
      (None, seen', fold (count_entry \<circ> snd) es (count_entry nd st), w'') \<and> mirror (w_fs w'') D (rev es @ (ns, nd) # S)"
    using "2.prems" ns sz w' by (intro "2.IH") (auto simp: count_entry_def)
  then show ?case by (simp add: to_item_pair en comp_def)
qed simp

section \<open>The archive of a workspace\<close>

text \<open>The root directory of a file system is implicit.\<close>

definition implicit_root :: "fs \<Rightarrow> bool" where
  "implicit_root f = (map_of f [] = None)"

lemma CreateArchive_ok:
  assumes "CreateArchive env ex f root temps = (Inr a, temps')"
  obtains packed st where "walk_root env ex f (Clean root) = (None, packed, st)"
    and "temps' = (aPath a, packed) # temps" and "aStats a = st\<lparr>sCompressedBytes := aeSize env\<rparr>"
  using assms by (auto simp: CreateArchive_def Let_def split: sum.splits if_splits prod.splits option.splits)

lemma walk_root_dir:
  assumes "locate f p = Inr D" and "is_dir f D" and "implicit_root f" and "walk_root env ex f p = (None, acc)"
  shows "acc = add_entries (entries_below (Suc (fs_depth f)) ex f D []) ([], zero_stats)"
proof -
  have "\<nexists>t. map_of f D = Some (NLink t)"
    using assms(2,3) by (auto simp: is_dir_def implicit_root_def split: option.splits)
  then have "walk_dir (Suc (fs_depth f)) env ex f D [] ([], zero_stats) = (None, acc)"
    using assms(1,4) by (auto simp: walk_root_def split: option.splits node.splits)
  then show ?thesis by (rule walk_dir_entries)
qed

lemma entries_below_iff:
  assumes "is_dir f D" and "implicit_root f"
  shows "(ns, nd) \<in> set (entries_below (Suc (fs_depth f)) ex f D []) \<longleftrightarrow> packed_node ex f D ns = Some nd"
proof
  let ?n = "Suc (fs_depth f)"
  assume "(ns, nd) \<in> set (entries_below ?n ex f D [])"
  from entries_below_sound [OF this] show "packed_node ex f D ns = Some nd" by (simp only: packed_node_iff simp_thms)
next
  let ?n = "Suc (fs_depth f)"
  assume p: "packed_node ex f D ns = Some nd"
  have "exists_at f (D @ [])" using assms(1) by (auto simp: is_dir_def exists_at_def)
  moreover have "map_of f (D @ [] @ ns) = Some nd" "[] @ ns \<noteq> []" "reached ex f D [] ([] @ ns)"
    using p by (simp_all add: packed_node_iff)
  ultimately have "([] @ ns, nd) \<in> set (entries_below ?n ex f D [])"
    using assms(2) by (intro entries_below_complete) (simp_all add: implicit_root_def)
  then show "(ns, nd) \<in> set (entries_below ?n ex f D [])" by (simp only: append_Nil)
qed

lemma well_ordered_root: "well_ordered [] (entries_below n ex f D [])"
  by (rule well_ordered_entries) simp_all

text \<open>The entries of an archive, in order.\<close>

lemma CreateArchive_entries_below:
  assumes "CreateArchive env ex f root temps = (Inr a, temps')"
    and "locate f (Clean root) = Inr D" and "is_dir f D" and "implicit_root f"
  shows "temps' = (aPath a, map pack (entries_below (Suc (fs_depth f)) ex f D [])) # temps"
    and "aStats a = \<lparr>sFiles = int (length (entries_below (Suc (fs_depth f)) ex f D [])),
      sUncompressedBytes = content_size (entries_below (Suc (fs_depth f)) ex f D []), sCompressedBytes = aeSize env\<rparr>"
proof -
  from assms(1) obtain packed st where w: "walk_root env ex f (Clean root) = (None, packed, st)"
    and t: "temps' = (aPath a, packed) # temps" and st: "aStats a = st\<lparr>sCompressedBytes := aeSize env\<rparr>"
    by (rule CreateArchive_ok)
  note acc = walk_root_dir [OF assms(2-4) w]
  show "temps' = (aPath a, map pack (entries_below (Suc (fs_depth f)) ex f D [])) # temps"
    using acc t by (simp add: add_entries_def del: entries_below.simps)
  show "aStats a = \<lparr>sFiles = int (length (entries_below (Suc (fs_depth f)) ex f D [])),
      sUncompressedBytes = content_size (entries_below (Suc (fs_depth f)) ex f D []), sCompressedBytes = aeSize env\<rparr>"
    using acc st by (simp add: add_entries_def fold_count_entry zero_stats_def del: entries_below.simps)
qed

text \<open>C23. What an archive holds.  When packaging a real directory succeeds, the archive file holds
  exactly one entry for every node of the tree that is reached through real directories and is neither
  excluded nor inside something excluded, no other entry, every directory before what is in it, and the
  statistics are the number of entries and the sum of the file sizes.\<close>

theorem CreateArchive_entries:
  assumes "CreateArchive env ex f root temps = (Inr a, temps')"
    and "locate f (Clean root) = Inr D" and "is_dir f D" and "implicit_root f"
  shows "\<exists>es. Archive_Open None a temps' = Inr (map pack es)
    \<and> (\<forall>ns nd. (ns, nd) \<in> set es \<longleftrightarrow> packed_node ex f D ns = Some nd)
    \<and> well_ordered [] es \<and> distinct (map fst es)
    \<and> sFiles (aStats a) = int (length es) \<and> sUncompressedBytes (aStats a) = content_size es"
proof (intro exI conjI)
  let ?es = "entries_below (Suc (fs_depth f)) ex f D []"
  note l = CreateArchive_entries_below [OF assms]
  show "Archive_Open None a temps' = Inr (map pack ?es)" using l(1) by (simp add: Archive_Open_def del: entries_below.simps)
  show "\<forall>ns nd. (ns, nd) \<in> set ?es \<longleftrightarrow> packed_node ex f D ns = Some nd"
    using entries_below_iff [OF assms(3,4)] by blast
  show "well_ordered [] ?es" by (rule well_ordered_root)
  then show "distinct (map fst ?es)" using well_ordered_keys by blast
  show "sFiles (aStats a) = int (length ?es)" "sUncompressedBytes (aStats a) = content_size ?es"
    using l(2) by (simp_all del: entries_below.simps)
qed

lemma option_eq_Some: "(\<And>x. a = Some x \<longleftrightarrow> b = Some x) \<Longrightarrow> a = b"
  by (cases a; cases b) auto

lemma entries_below_map_of:
  assumes "is_dir f D" and "implicit_root f"
  shows "map_of (rev (entries_below (Suc (fs_depth f)) ex f D [])) ns = packed_node ex f D ns"
  using well_ordered_map_of [OF well_ordered_root] entries_below_iff [OF assms] by (intro option_eq_Some) blast

lemma archive_of_items: "asItems (archive_of (map pack es) sz) = map to_item es"
  by (auto simp: archive_of_def to_item_def pack_def)

lemma Extract_fresh:
  assumes dest: "clean_abs dest" "wf_fs (w_fs w)" "w_faults w = []" "resolve (w_fs w) dest = Inr E"
      "ensureEmptyDirectory dest w = (None, w)"
    and es: "well_ordered [] es" "list_all (list_all file_name \<circ> fst) es" "list_all (link_inside dest) es"
    and lim: "1 \<le> lMaxFiles lim" "1 \<le> lMaxUncompressedBytes lim" "int (length es) \<le> lMaxFiles lim"
      "content_size es \<le> lMaxUncompressedBytes lim"
  shows "\<exists>w'. Extract (archive_of (map pack es) sz) dest lim w =
      (None, \<lparr>sFiles = int (length es), sUncompressedBytes = content_size es, sCompressedBytes = sz\<rparr>, w')
    \<and> mirror (w_fs w') E (rev es)"
proof -
  note R = clean_absD [OF dest(1)] and em = ensureEmptyDirectory_ok [OF dest(5,4)]
  have at: "at_dir (w_fs w) (comps dest) E" using em(1) dest(4) R by (simp add: at_dir_resolve)
  have mi: "mirror (w_fs w) E []" using wf_fs_empty_dir [OF dest(2) em(2)] by (simp add: mirror_def)
  have "\<exists>seen' w'. extract_loop lim (render True (comps dest)) (map to_item es) None [] zero_stats w =
      (None, seen', fold (count_entry \<circ> snd) es zero_stats, w') \<and> mirror (w_fs w') E (rev es @ [])"
    using R es dest(3) at mi lim by (intro extract_loop_fresh) (simp_all add: zero_stats_def)
  then obtain seen' w' where
    "extract_loop lim dest (map to_item es) None [] zero_stats w =
      (None, seen', fold (count_entry \<circ> snd) es zero_stats, w')" and "mirror (w_fs w') E (rev es)"
    using R(1) by auto
  then show ?thesis
    using dest(5) lim(1,2)
    by (simp add: Extract_def archive_of_items fold_count_entry zero_stats_def)
      (simp add: archive_of_def finish_stream_def)
qed

text \<open>The entries of a workspace have names and links that extraction accepts.\<close>

lemma entries_below_fit:
  assumes "is_dir f D" and "implicit_root f" and "list_all (list_all file_name \<circ> fst) f"
    and links: "\<And>ns t. packed_node ex f D ns = Some (NLink t) \<Longrightarrow>
      validateSymlink dest (PJoin dest (archive_name ns)) t = None"
  shows "list_all (list_all file_name \<circ> fst) (entries_below (Suc (fs_depth f)) ex f D [])"
    and "list_all (link_inside dest) (entries_below (Suc (fs_depth f)) ex f D [])"
proof -
  let ?es = "entries_below (Suc (fs_depth f)) ex f D []"
  have in_es: "packed_node ex f D ns = Some nd" if "(ns, nd) \<in> set ?es" for ns nd
    using that entries_below_iff [OF assms(1,2)] by blast
  have "list_all file_name ns" if "(ns, nd) \<in> set ?es" for ns nd
    using in_es [OF that] assms(3) unfolding packed_node_iff list_all_iff [of _ f]
    by (fastforce dest!: map_of_SomeD bspec)
  then show "list_all (list_all file_name \<circ> fst) ?es" unfolding list_all_iff [of _ ?es] by force
  have "link_inside dest (ns, nd)" if "(ns, nd) \<in> set ?es" for ns nd
    using in_es [OF that] links by (auto simp: link_inside_def split: node.splits)
  then show "list_all (link_inside dest) ?es" unfolding list_all_iff by force
qed


section \<open>Failures\<close>

lemma finish_archive_error: "finish_archive i es = Some e \<Longrightarrow> e \<noteq> TooDeep \<and> (\<exists>x. Some x \<in> set es)"
proof (induction i es rule: finish_archive.induct)
  case (2 i x es)
  have "[FinishTar x, FinishGzip x, SyncFile x, StatFile x, CloseFile x] ! k \<noteq> TooDeep" if "k < 5" for k
    using that by (auto simp: less_Suc_eq numeral_eq_Suc)
  from this [of "min i 4"] 2 show ?case by (auto simp: finish_error_def)
qed auto

lemma locate_exists:
  assumes "list_all is_name cs" and "resolve f (render True cs) = Inr q" and "locate f (render True cs) = Inr D"
  shows "exists_at f D"
proof (cases cs rule: rev_cases)
  case Nil
  with assms(3) show ?thesis by (auto simp: render_def locate_def exists_at_def)
next
  case (snoc ds c)
  then have c: "is_name c" and sp: "Split slash (render True cs) = [] # ds @ [c]"
    using assms(1) by (simp_all add: Split_render)
  obtain d m where d: "walk f maxSymlinks [] ds = Inr (d, m)" "is_dir f d" "D = d @ [c]"
    using assms(3) c sp by (auto simp: locate_def Let_def butlast_append is_name_def split: sum.splits if_splits)
  have "walk f m d [c] \<noteq> Inl ENOENT"
    using walk_append [OF d(1,2), of "[c]"] assms(2) snoc assms(1)
    by (auto simp: resolve_render simp del: walk.simps)
  then show ?thesis using c d(3) by (cases "map_of f (d @ [c])") (auto simp: is_name_def exists_at_def)
qed

lemma Clean_abs_render: "IsAbs p \<Longrightarrow> Clean p = render True (comps p) \<and> list_all is_name (comps p)"
  by (simp add: Clean_def comps_names_abs)

lemma walk_dir_TooDeep: "walk_dir (Suc (fs_depth f)) env ex f D [] acc = (Some e, acc') \<Longrightarrow> e \<noteq> TooDeep"
proof (cases "exists_at f D")
  case True
  assume "walk_dir (Suc (fs_depth f)) env ex f D [] acc = (Some e, acc')"
  from walk_dir_error [OF this] True show ?thesis by simp
next
  case False
  assume "walk_dir (Suc (fs_depth f)) env ex f D [] acc = (Some e, acc')"
  with False show ?thesis by (auto simp: exists_at_def get_node_def)
qed

lemma walk_root_TooDeep: "walk_root env ex f p = (Some e, r) \<Longrightarrow> e \<noteq> TooDeep"
  unfolding walk_root_def
  by (auto split: sum.splits option.splits node.splits simp del: walk_dir.simps dest: walk_dir_TooDeep)

lemma CreateArchive_failed:
  assumes "CreateArchive env ex f root temps = (Inl e, temps')"
  obtains (early) "temps' = temps" and "e \<noteq> TooDeep"
  | (late) p packed st where "aeTemp env = Inr p" and "e \<noteq> TooDeep"
      and "temps' = snd (Archive_Remove (aeRemove env) (Some \<lparr>aPath = p, aStats = st\<rparr>) ((p, packed) # temps))"
proof -
  obtain err packed st where w: "walk_root env ex f (Clean root) = (err, packed, st)"
    by (cases "walk_root env ex f (Clean root)") auto
  let ?err = "case err of None \<Rightarrow> finish_archive 0 (aeFinish env) | Some e \<Rightarrow> Some e"
  have deep: "x \<noteq> TooDeep" if "?err = Some x" for x
    using that walk_root_TooDeep [of env ex f "Clean root" x "(packed, st)"] w finish_archive_error
    by (auto split: option.splits)
  show thesis
  proof (cases "\<exists>q p. resolve f (Clean root) = Inr q \<and> is_dir f q \<and> aeTemp env = Inr p")
    case True
    then obtain q p where q: "resolve f (Clean root) = Inr q" "is_dir f q" and p: "aeTemp env = Inr p" by blast
    let ?a = "\<lparr>aPath = p, aStats = st\<lparr>sCompressedBytes := aeSize env\<rparr>\<rparr>"
    have "?err = Some e" and "temps' = snd (Archive_Remove (aeRemove env) (Some ?a) ((p, packed) # temps))"
      using assms q p w by (auto simp: CreateArchive_def Let_def split: option.splits)
    then show thesis using late p deep by blast
  next
    case False
    then show thesis using assms
      by (auto simp: CreateArchive_def Let_def intro: early split: sum.splits if_splits)
  qed
qed

text \<open>A failure leaves nothing behind.  When packaging fails, at any point and for any reason, and
  the removal of the temporary file works, the temporary files are those from before the call.  The
  error is never that the walk ran out of depth: the bound on the recursion is always large enough.\<close>

theorem CreateArchive_fails_clean:
  assumes "CreateArchive env ex f root temps = (Inl e, temps')" and "aeRemove env = None"
    and "\<And>p. aeTemp env = Inr p \<Longrightarrow> p \<noteq> [] \<and> map_of temps p = None"
  shows "temps' = temps \<and> e \<noteq> TooDeep"
  using assms(1)
proof (cases rule: CreateArchive_failed)
  case (late p packed st)
  have "filter (\<lambda>(q, _). q \<noteq> p) temps = temps"
    using assms(3) [OF late(1)] by (auto simp: filter_id_conv map_of_eq_None_iff image_iff)
  then show ?thesis using late assms(2,3) by (simp add: Archive_Remove_def)
qed simp

section \<open>Packaging succeeds, and packages nothing through a link\<close>

definition calm :: "archive_env \<Rightarrow> string \<Rightarrow> bool" where
  "calm env p \<longleftrightarrow> quiet env \<and> aeTemp env = Inr p \<and> list_all (\<lambda>e. e = None) (aeFinish env)"

lemma finish_calm: "list_all (\<lambda>e. e = None) es \<Longrightarrow> finish_archive i es = None"
  by (induction i es rule: finish_archive.induct) auto

lemma walk_root_quiet:
  assumes "quiet env" and "locate f p = Inr D" and "exists_at f D"
  shows "\<exists>packed st. walk_root env ex f p = (None, packed, st)"
proof -
  obtain err packed st where w: "walk_dir (Suc (fs_depth f)) env ex f D [] ([], zero_stats) = (err, packed, st)"
    by (cases "walk_dir (Suc (fs_depth f)) env ex f D [] ([], zero_stats)") auto
  have "err = None"
    using walk_dir_error [of "Suc (fs_depth f)" env ex f D "[]" "([], zero_stats)" _ "(packed, st)"] w assms
    by (cases err) auto
  moreover have "aeCtx env [] = None" using assms(1) by (simp add: quiet_def)
  ultimately show ?thesis
    using w assms(2) by (simp add: walk_root_def del: walk_dir.simps split: option.split node.split)
qed

text \<open>A workspace path that is a symbolic link.  With no failing call, packaging a root that leads to
  a directory always succeeds; but when the root itself is a symbolic link to a directory, the archive is
  empty: the check of the root follows the link and the walk does not, so the job silently runs without
  any file of the workspace.\<close>

theorem CreateArchive_link_root:
  assumes "calm env p" and "IsAbs root" and "resolve f (Clean root) = Inr q" and "is_dir f q"
    and "locate f (Clean root) = Inr D"
  shows "\<exists>a temps'. CreateArchive env ex f root temps = (Inr a, temps')
    \<and> (\<forall>t. map_of f D = Some (NLink t) \<longrightarrow> Archive_Open None a temps' = Inr [] \<and> sFiles (aStats a) = 0)"
proof -
  have "exists_at f D"
    using locate_exists [of "comps root"] assms(2,3,5) Clean_abs_render [OF assms(2)] by metis
  then obtain packed st where w: "walk_root env ex f (Clean root) = (None, packed, st)"
    using walk_root_quiet [OF _ assms(5)] assms(1) unfolding calm_def by blast
  have link: "packed = [] \<and> st = zero_stats" if "map_of f D = Some (NLink t)" for t
    using that w assms(1,5) by (simp add: walk_root_def calm_def quiet_def)
  have "finish_archive 0 (aeFinish env) = None" using assms(1) by (simp add: calm_def finish_calm)
  then have "CreateArchive env ex f root temps =
      (Inr \<lparr>aPath = p, aStats = st\<lparr>sCompressedBytes := aeSize env\<rparr>\<rparr>, (p, packed) # temps)"
    using w assms by (simp add: CreateArchive_def calm_def)
  then show ?thesis using link by (auto simp: Archive_Open_def zero_stats_def)
qed

section \<open>A workspace\<close>

definition sample_fs :: fs where
  "sample_fs = [([''s''], NDir 493), ([''s'', ''b''], NDir 488), ([''s'', ''b'', ''x''], NFile 420 ''abc''),
     ([''s'', ''a''], NLink ''b/x''), ([''s'', ''.git''], NDir 493), ([''s'', ''.git'', ''k''], NFile 420 ''q''),
     ([''l''], NLink ''s'')]"

definition pack_env :: "string option \<Rightarrow> archive_env" where
  "pack_env fault = \<lparr>aeCtx = (\<lambda>_. None), aeFault = (\<lambda>ns call. if call = WriteHeader then fault else None),
     aeOther = (\<lambda>_. False), aeTemp = Inr ''/tmp/w1'', aeFinish = [None, None, None, None, None],
     aeSize = 80, aeRemove = None\<rparr>"

definition sample_dest :: world where
  "sample_dest = \<lparr>w_fs = [([''w''], NDir 448)], w_faults = []\<rparr>"

definition sample_packed :: packed where
  "sample_packed = map pack [([''a''], NLink ''b/x''), ([''b''], NDir 488), ([''b'', ''x''], NFile 420 ''abc'')]"

definition pack_archive :: archive where
  "pack_archive = \<lparr>aPath = ''/tmp/w1'', aStats = \<lparr>sFiles = 3, sUncompressedBytes = 3, sCompressedBytes = 80\<rparr>\<rparr>"

lemma sample_made:
  "CreateArchive (pack_env None) defaultExclusions sample_fs ''/s'' [] =
     (Inr pack_archive, [(''/tmp/w1'', sample_packed)])"
  by code_simp

lemma sample_src:
  "locate sample_fs (Clean ''/s'') = Inr [''s'']" "is_dir sample_fs [''s'']" "implicit_root sample_fs"
  "list_all (list_all file_name \<circ> fst) sample_fs"
  by code_simp+

theorem CreateArchive_entries_witness:
  "\<exists>es. sample_packed = map pack es
    \<and> (\<forall>ns nd. (ns, nd) \<in> set es \<longleftrightarrow> packed_node defaultExclusions sample_fs [''s''] ns = Some nd)"
  using CreateArchive_entries [OF sample_made sample_src(1-3)]
  by (auto simp: Archive_Open_def pack_archive_def)

lemma sample_links:
  assumes "packed_node defaultExclusions sample_fs [''s''] ns = Some (NLink t)"
  shows "validateSymlink ''/w'' (PJoin ''/w'' (archive_name ns)) t = None"
proof -
  have "map_of sample_fs ([''s''] @ ns) = Some (NLink t)" using assms by (simp add: packed_node_iff)
  then have "ns = [''a''] \<and> t = ''b/x''" by (auto simp: sample_fs_def split: if_splits)
  moreover have "validateSymlink ''/w'' (PJoin ''/w'' (archive_name [''a''])) ''b/x'' = None" by code_simp
  ultimately show ?thesis by simp
qed


theorem CreateArchive_fails_clean_witness:
  "CreateArchive (pack_env (Some ''disk full'')) [] sample_fs ''/s'' [(''/tmp/other'', [])] =
     (Inl (EntryError WriteHeader ''.git'' ''disk full''), [(''/tmp/other'', [])])"
proof -
  obtain temps' where r: "CreateArchive (pack_env (Some ''disk full'')) [] sample_fs ''/s'' [(''/tmp/other'', [])] =
      (Inl (EntryError WriteHeader ''.git'' ''disk full''), temps')"
  proof
    show "CreateArchive (pack_env (Some ''disk full'')) [] sample_fs ''/s'' [(''/tmp/other'', [])] =
      (Inl (EntryError WriteHeader ''.git'' ''disk full''), snd
        (CreateArchive (pack_env (Some ''disk full'')) [] sample_fs ''/s'' [(''/tmp/other'', [])]))"
      by code_simp
  qed
  from CreateArchive_fails_clean [OF this] show ?thesis using r by (auto simp: pack_env_def)
qed

theorem CreateArchive_link_root_witness:
  "\<exists>a temps'. CreateArchive (pack_env None) defaultExclusions sample_fs ''/l'' [] = (Inr a, temps')
    \<and> Archive_Open None a temps' = Inr [] \<and> sFiles (aStats a) = 0"
proof -
  have c: "calm (pack_env None) ''/tmp/w1''" by (simp add: calm_def quiet_def pack_env_def)
  have f: "IsAbs ''/l''" "resolve sample_fs (Clean ''/l'') = Inr [''s'']" "is_dir sample_fs [''s'']"
    "locate sample_fs (Clean ''/l'') = Inr [''l'']" "map_of sample_fs [''l''] = Some (NLink ''s'')"
    by code_simp+
  from CreateArchive_link_root [OF c f(1-4)] f(5) show ?thesis by blast
qed

end
