(* ===== verification/Sweep.thy ===== *)
theory Sweep
  imports FirecrackerRun
begin

text \<open>
  The sweep of state left behind by a daemon that died (\<^verbatim>\<open>internal/executor/sweep_linux.go\<close>), and
  \<^verbatim>\<open>NewFirecracker\<close> (\<^verbatim>\<open>firecracker.go\<close>), which runs it before the executor is used.  The state is what
  the sweep reads and changes: the entries of the work directory, the control groups with the
  processes in them, the network devices, and the signals sent.  The process table and the outcome of
  every call are given by the environment.

  The lemmas: the state after a sweep is computed exactly; what belongs to a live VM is kept when
  the work directory is a clean path, and is not when it is written with a trailing slash.
\<close>

section \<open>Processes\<close>

definition isOrphanedProcess :: "(int \<Rightarrow> string option) \<Rightarrow> int \<Rightarrow> int \<Rightarrow> bool" where
  "isOrphanedProcess readStat pid self =
     (case readStat pid of
        None \<Rightarrow> True
      | Some stat \<Rightarrow>
          (case after_last CHR '')'' stat of
             None \<Rightarrow> True
           | Some rest \<Rightarrow>
               if length rest \<le> 1 then True
               else (let fields = Fields (tl rest) in
                     if length fields < 2 then True
                     else case Atoi (fields ! 1) of
                            None \<Rightarrow> True
                          | Some ppid \<Rightarrow> ppid = 1 \<and> ppid \<noteq> self)))"

record sweep_env =
  seProc :: "(string \<times> string option) list option" \<comment> \<open>\<^verbatim>\<open>/proc\<close>: names and command lines\<close>
  seStat :: "int \<Rightarrow> string option"
  seSelf :: int
  seGone :: "int \<Rightarrow> bool" \<comment> \<open>the process has ended after the signals\<close>
  seMkdirAll :: bool
  seReadDir :: bool
  seRemoveAll :: "string \<Rightarrow> bool"
  seReadGroups :: bool
  seLoadGroup :: "string \<Rightarrow> bool"
  seDeleteGroup :: "string \<Rightarrow> bool"
  seLinkList :: bool
  seLinkDel :: "string \<Rightarrow> bool"

record sweep_state =
  swSignals :: "(int \<times> signal) list"
  swDirs :: "(string \<times> bool) list" \<comment> \<open>entries of the work directory, and whether directories\<close>
  swGroups :: "(string \<times> int list option) list" \<comment> \<open>\<open>None\<close> when \<^verbatim>\<open>cgroup.procs\<close> cannot be read\<close>
  swLinks :: "string list"

definition NUL :: char where "NUL = CHR 0x00"

definition cmdline_args :: "string \<Rightarrow> string list" where
  "cmdline_args cmdline = Split NUL (TrimRight NUL cmdline)"

text \<open>The job directory of a process that is a VM of this work directory.\<close>

definition job_dir :: "string \<Rightarrow> string list \<Rightarrow> string option" where
  "job_dir workDir args =
     (if args = [] \<or> Base (hd args) \<noteq> ''firecracker'' then None
      else let apiSock = fcAPISockFromCmdline args; jobDir = Dir apiSock
           in if apiSock = [] \<or> (jobDir \<noteq> workDir \<and> \<not> HasPrefix jobDir (workDir @ ''/'')) then None
              else Some jobDir)"

text \<open>One entry of \<^verbatim>\<open>/proc\<close>: its process number and job directory.\<close>

definition our_vm :: "string \<Rightarrow> string \<times> string option \<Rightarrow> (int \<times> string) option" where
  "our_vm workDir =
     (\<lambda>(name, cmdline).
        case Atoi name of
          None \<Rightarrow> None
        | Some pid \<Rightarrow>
            (case cmdline of
               None \<Rightarrow> None
             | Some text \<Rightarrow> map_option (Pair pid) (job_dir workDir (cmdline_args text))))"

text \<open>The loop over \<^verbatim>\<open>/proc\<close>: orphaned processes, their directories, and live directories.\<close>

fun scan_procs ::
  "sweep_env \<Rightarrow> string \<Rightarrow> (string \<times> string option) list \<Rightarrow> int list \<Rightarrow> string list \<Rightarrow> string list \<Rightarrow>
     int list \<times> string list \<times> string list" where
  "scan_procs env workDir [] fcs orphans live = (fcs, orphans, live)"
| "scan_procs env workDir (p # ps) fcs orphans live =
     (case our_vm workDir p of
        None \<Rightarrow> scan_procs env workDir ps fcs orphans live
      | Some (pid, jobDir) \<Rightarrow>
          if isOrphanedProcess (seStat env) pid (seSelf env)
          then scan_procs env workDir ps (fcs @ [pid]) (jobDir # orphans) live
          else scan_procs env workDir ps fcs orphans (jobDir # live))"

text \<open>Both signals to every orphan; the processes that ended leave their groups.\<close>

definition terminate :: "sweep_env \<Rightarrow> int list \<Rightarrow> sweep_state \<Rightarrow> sweep_state" where
  "terminate env fcs st =
     (if fcs = [] then st
      else st\<lparr>swSignals := swSignals st @ map (\<lambda>pid. (pid, SIGTERM)) fcs @ map (\<lambda>pid. (pid, SIGKILL)) fcs,
              swGroups := map (\<lambda>(g, ps). (g, map_option (filter (\<lambda>pid. \<not> (pid \<in> set fcs \<and> seGone env pid))) ps))
                (swGroups st)\<rparr>)"

section \<open>The sweep\<close>

definition sweep_dirs :: "sweep_env \<Rightarrow> string \<Rightarrow> string list \<Rightarrow> sweep_state \<Rightarrow> sweep_state" where
  "sweep_dirs env workDir live st =
     (if seMkdirAll env \<and> seReadDir env
      then st\<lparr>swDirs := filter (\<lambda>(name, isDir).
             \<not> isDir \<or> \<not> HasPrefix name ''vm-'' \<or> PJoin workDir name \<in> set live
             \<or> \<not> seRemoveAll env (PJoin workDir name)) (swDirs st)\<rparr>
      else st)"

text \<open>The text of \<^verbatim>\<open>cgroup.procs\<close>: one number per line.\<close>

definition procs_text :: "int list \<Rightarrow> string" where
  "procs_text ps = concat (map (\<lambda>p. fmt_int p @ [CHR 0x0A]) ps)"

definition group_live :: "string \<times> int list option \<Rightarrow> bool" where
  "group_live = (\<lambda>(name, procs). case procs of None \<Rightarrow> True | Some ps \<Rightarrow> TrimSpace (procs_text ps) \<noteq> [])"

definition is_job_group :: "string \<Rightarrow> bool" where
  "is_job_group name = HasPrefix name ''yonk-''"

definition live_ids :: "sweep_env \<Rightarrow> sweep_state \<Rightarrow> string list" where
  "live_ids env st =
     (if seReadGroups env
      then map (\<lambda>(name, _). drop 5 name) (filter (\<lambda>g. is_job_group (fst g) \<and> group_live g) (swGroups st))
      else [])"

definition sweep_groups :: "sweep_env \<Rightarrow> sweep_state \<Rightarrow> sweep_state" where
  "sweep_groups env st =
     (if seReadGroups env
      then st\<lparr>swGroups := filter (\<lambda>g. \<not> is_job_group (fst g) \<or> group_live g
             \<or> \<not> (seLoadGroup env (fst g) \<and> seDeleteGroup env (fst g))) (swGroups st)\<rparr>
      else st)"

definition sweep_links :: "sweep_env \<Rightarrow> string list \<Rightarrow> sweep_state \<Rightarrow> sweep_state" where
  "sweep_links env liveTaps st =
     (if seLinkList env
      then st\<lparr>swLinks := filter (\<lambda>name. \<not> HasPrefix name tapPrefix \<or> name \<in> set liveTaps \<or> \<not> seLinkDel env name)
             (swLinks st)\<rparr>
      else st)"

definition sweepOrphans :: "sweep_env \<Rightarrow> string \<Rightarrow> sweep_state \<Rightarrow> sweep_state" where
  "sweepOrphans env workDir st =
     (case seProc env of
        None \<Rightarrow> st
      | Some entries \<Rightarrow>
          (case scan_procs env workDir entries [] [] [] of
             (orphanFCs, orphanJobDirs, liveJobDirs) \<Rightarrow>
               (let st1 = terminate env orphanFCs st;
                    live = filter (\<lambda>d. d \<notin> set orphanJobDirs) liveJobDirs;
                    st2 = sweep_dirs env workDir live st1;
                    ids = live_ids env st2;
                    st3 = sweep_groups env st2
                in sweep_links env (map tapName ids) st3)))"

section \<open>The scan\<close>

lemma scan_procs_sets:
  assumes "scan_procs env workDir ps fcs orphans live = (fcs', orphans', live')"
  shows "set fcs' = set fcs \<union> {pid. \<exists>p \<in> set ps. \<exists>d. our_vm workDir p = Some (pid, d)
      \<and> isOrphanedProcess (seStat env) pid (seSelf env)}"
    and "set orphans' = set orphans \<union> {d. \<exists>p \<in> set ps. \<exists>pid. our_vm workDir p = Some (pid, d)
      \<and> isOrphanedProcess (seStat env) pid (seSelf env)}"
    and "set live' = set live \<union> {d. \<exists>p \<in> set ps. \<exists>pid. our_vm workDir p = Some (pid, d)
      \<and> \<not> isOrphanedProcess (seStat env) pid (seSelf env)}"
  using assms
proof (induction env workDir ps fcs orphans live rule: scan_procs.induct)
  case (2 env workDir p ps fcs orphans live)
  {
    case 1
    with 2 show ?case by (cases "our_vm workDir p") (auto split: prod.splits if_splits)
  next
    case 2
    with "2.IH" show ?case by (cases "our_vm workDir p") (auto split: prod.splits if_splits)
  next
    case 3
    with "2.IH" show ?case by (cases "our_vm workDir p") (auto split: prod.splits if_splits)
  }
qed auto

text \<open>A VM of the work directory in the process table.\<close>

definition runs_in :: "sweep_env \<Rightarrow> string \<Rightarrow> int \<Rightarrow> string \<Rightarrow> bool" where
  "runs_in env workDir pid d =
     (case seProc env of None \<Rightarrow> False | Some es \<Rightarrow> list_ex (\<lambda>p. our_vm workDir p = Some (pid, d)) es)"

definition orphaned :: "sweep_env \<Rightarrow> int \<Rightarrow> bool" where
  "orphaned env pid = isOrphanedProcess (seStat env) pid (seSelf env)"

definition live_dir :: "sweep_env \<Rightarrow> string \<Rightarrow> string \<Rightarrow> bool" where
  "live_dir env workDir d \<longleftrightarrow>
     (\<exists>pid. runs_in env workDir pid d \<and> \<not> orphaned env pid) \<and> (\<nexists>pid. runs_in env workDir pid d \<and> orphaned env pid)"

lemma runs_in_iff: "runs_in env workDir pid d \<longleftrightarrow>
  (\<exists>es. seProc env = Some es \<and> (\<exists>p \<in> set es. our_vm workDir p = Some (pid, d)))"
  unfolding runs_in_def by (cases "seProc env") (simp_all add: list_ex_iff)

lemma scan_procs_runs:
  assumes "scan_procs env workDir es [] [] [] = (fcs, orphans, live)" and "seProc env = Some es"
  shows "pid \<in> set fcs \<longleftrightarrow> (\<exists>d. runs_in env workDir pid d) \<and> orphaned env pid"
    and "d \<in> set (filter (\<lambda>d. d \<notin> set orphans) live) \<longleftrightarrow> live_dir env workDir d"
  using scan_procs_sets [OF assms(1)] assms(2) by (auto simp: runs_in_iff orphaned_def live_dir_def)

lemma TrimSpace_Nil: "TrimSpace s = [] \<longleftrightarrow> list_all is_space s"
proof -
  have "TrimSpace s = [] \<longleftrightarrow> (\<forall>c \<in> set (dropWhile is_space s). is_space c)"
    by (simp add: TrimSpace_def)
  also have "\<dots> \<longleftrightarrow> list_all is_space s" by (induction s) simp_all
  finally show ?thesis .
qed

lemma procs_text_space: "list_all is_space (procs_text ps) \<longleftrightarrow> ps = []"
proof (cases ps)
  case (Cons p qs)
  obtain c cs where "fmt_int p = c # cs" using fmt_int_word [of p] by (cases "fmt_int p") (auto simp: is_word_def)
  moreover have "\<not> is_space c" if "c \<in> set (fmt_int p)" for c
    using that fmt_int_word [of p] by (auto simp: is_word_def list_all_iff)
  ultimately show ?thesis using Cons by (simp add: procs_text_def)
qed (simp add: procs_text_def)

lemma group_live_iff: "group_live (g, ps) \<longleftrightarrow> ps \<noteq> Some []"
  by (simp add: group_live_def TrimSpace_Nil procs_text_space split: option.splits)

section \<open>After a sweep\<close>

definition dir_kept :: "sweep_env \<Rightarrow> string \<Rightarrow> string \<times> bool \<Rightarrow> bool" where
  "dir_kept env workDir =
     (\<lambda>(name, isDir). \<not> isDir \<or> \<not> HasPrefix name ''vm-'' \<or> live_dir env workDir (PJoin workDir name)
        \<or> \<not> (seMkdirAll env \<and> seReadDir env \<and> seRemoveAll env (PJoin workDir name)))"

definition killed :: "sweep_env \<Rightarrow> string \<Rightarrow> int \<Rightarrow> bool" where
  "killed env workDir pid \<longleftrightarrow> (\<exists>d. runs_in env workDir pid d) \<and> orphaned env pid"

text \<open>The groups when the sweep looks at them.\<close>

definition groups_after :: "sweep_env \<Rightarrow> string \<Rightarrow> sweep_state \<Rightarrow> (string \<times> int list option) list" where
  "groups_after env workDir st =
     map (\<lambda>(g, ps). (g, map_option (filter (\<lambda>pid. \<not> (killed env workDir pid \<and> seGone env pid))) ps)) (swGroups st)"

lemma map_option_filter_True: "map_option (filter (\<lambda>x. True)) ps = ps"
  by (cases ps) simp_all

lemma terminate_simps:
  assumes "\<And>pid. pid \<in> set fcs \<longleftrightarrow> killed env workDir pid"
  shows "swGroups (terminate env fcs st) = groups_after env workDir st"
    and "swDirs (terminate env fcs st) = swDirs st" and "swLinks (terminate env fcs st) = swLinks st"
    and "set (swSignals (terminate env fcs st)) = set (swSignals st) \<union> {(pid, sig) |pid sig. killed env workDir pid}"
proof -
  have sig: "x = SIGTERM \<or> x = SIGKILL" for x by (cases x) simp_all
  show "set (swSignals (terminate env fcs st)) = set (swSignals st) \<union> {(pid, sig) |pid sig. killed env workDir pid}"
    using assms sig by (auto simp: terminate_def)
  show "swGroups (terminate env fcs st) = groups_after env workDir st"
    using assms by (cases "fcs = []") (auto simp: terminate_def groups_after_def map_option_filter_True intro!: map_idI [symmetric])
qed (simp_all add: terminate_def)

text \<open>The state afterwards, field by field.\<close>

lemma sweepOrphans_fields:
  assumes "seProc env = Some es"
  shows "swDirs (sweepOrphans env workDir st) = filter (dir_kept env workDir) (swDirs st)"
    and "swGroups (sweepOrphans env workDir st) = swGroups (sweep_groups env (st\<lparr>swGroups := groups_after env workDir st\<rparr>))"
    and "swLinks (sweepOrphans env workDir st) = swLinks (sweep_links env
      (map tapName (live_ids env (st\<lparr>swGroups := groups_after env workDir st\<rparr>))) st)"
    and "set (swSignals (sweepOrphans env workDir st)) =
      set (swSignals st) \<union> {(pid, sig) |pid sig. killed env workDir pid}"
proof -
  obtain fcs orphans live where sc: "scan_procs env workDir es [] [] [] = (fcs, orphans, live)"
    by (cases "scan_procs env workDir es [] [] []") auto
  note r = scan_procs_runs [OF sc assms]
  have k: "pid \<in> set fcs \<longleftrightarrow> killed env workDir pid" for pid by (simp add: r(1) killed_def)
  note t = terminate_simps [of fcs env workDir st, OF k]
  let ?live = "filter (\<lambda>d. d \<notin> set orphans) live"
  have sweep: "sweepOrphans env workDir st =
      (let st2 = sweep_dirs env workDir ?live (terminate env fcs st) in
       sweep_links env (map tapName (live_ids env st2)) (sweep_groups env st2))"
    by (simp add: sweepOrphans_def assms sc Let_def)
  have in_live: "PJoin workDir name \<in> set ?live \<longleftrightarrow> live_dir env workDir (PJoin workDir name)" for name
    using r(2) by blast
  show "swDirs (sweepOrphans env workDir st) = filter (dir_kept env workDir) (swDirs st)"
    unfolding sweep Let_def sweep_links_def sweep_groups_def sweep_dirs_def in_live
    by (auto simp: t dir_kept_def intro!: filter_cong filter_True [symmetric])
  show "swGroups (sweepOrphans env workDir st) = swGroups (sweep_groups env (st\<lparr>swGroups := groups_after env workDir st\<rparr>))"
    unfolding sweep Let_def sweep_links_def sweep_groups_def sweep_dirs_def by (simp add: t)
  show "swLinks (sweepOrphans env workDir st) = swLinks (sweep_links env
      (map tapName (live_ids env (st\<lparr>swGroups := groups_after env workDir st\<rparr>))) st)"
    unfolding sweep Let_def sweep_links_def sweep_groups_def sweep_dirs_def live_ids_def by (simp add: t)
  show "set (swSignals (sweepOrphans env workDir st)) =
      set (swSignals st) \<union> {(pid, sig) |pid sig. killed env workDir pid}"
    unfolding sweep Let_def sweep_links_def sweep_groups_def sweep_dirs_def by (simp add: t)
qed

definition calls_work :: "sweep_env \<Rightarrow> bool" where
  "calls_work env \<longleftrightarrow> seMkdirAll env \<and> seReadDir env \<and> seReadGroups env \<and> seLinkList env
     \<and> (\<forall>x. seRemoveAll env x \<and> seLoadGroup env x \<and> seDeleteGroup env x \<and> seLinkDel env x)"

lemma is_job_group_split: "is_job_group g \<longleftrightarrow> g = ''yonk-'' @ drop 5 g"
proof -
  have "length ''yonk-'' = 5" by simp
  then show ?thesis unfolding is_job_group_def HasPrefix_def by (metis append_eq_conv_conj append_take_drop_id)
qed

text \<open>C40. What a sweep clears.  When the process table can be read and no call fails, then afterwards
  every VM directory left in the work directory belongs to a live VM, no control group of a job is
  without processes, and every TAP device left is that of a job whose control group is still
  there.\<close>

theorem sweep_removes_orphans:
  assumes "seProc env = Some es" and "calls_work env" and "st' = sweepOrphans env workDir st"
  shows "(\<forall>name. (name, True) \<in> set (swDirs st') \<and> HasPrefix name ''vm-'' \<longrightarrow> live_dir env workDir (PJoin workDir name))
    \<and> (\<forall>g ps. (g, ps) \<in> set (swGroups st') \<and> is_job_group g \<longrightarrow> ps \<noteq> Some [])
    \<and> (\<forall>l. l \<in> set (swLinks st') \<and> HasPrefix l tapPrefix \<longrightarrow>
        (\<exists>j ps. (''yonk-'' @ j, ps) \<in> set (swGroups st') \<and> l = tapName j))"
proof (intro conjI allI impI)
  note f = sweepOrphans_fields [OF assms(1), of workDir st]
  fix name assume "(name, True) \<in> set (swDirs st') \<and> HasPrefix name ''vm-''"
  then show "live_dir env workDir (PJoin workDir name)"
    using f(1) assms(2,3) by (auto simp: dir_kept_def calls_work_def)
next
  note f = sweepOrphans_fields [OF assms(1), of workDir st]
  fix g ps assume "(g, ps) \<in> set (swGroups st') \<and> is_job_group g"
  then show "ps \<noteq> Some []"
    using f(2) assms(2,3) by (auto simp: sweep_groups_def calls_work_def group_live_iff)
next
  note f = sweepOrphans_fields [OF assms(1), of workDir st]
  fix l assume "l \<in> set (swLinks st') \<and> HasPrefix l tapPrefix"
  then obtain g ps where g: "(g, ps) \<in> set (groups_after env workDir st)" "is_job_group g" "group_live (g, ps)"
    and l: "l = tapName (drop 5 g)"
    using f(3) assms(2,3) by (auto simp: sweep_links_def live_ids_def calls_work_def)
  have "(''yonk-'' @ drop 5 g, ps) \<in> set (swGroups st')"
    using g f(2) assms(2,3) is_job_group_split [of g] by (auto simp: sweep_groups_def calls_work_def)
  with l show "\<exists>j ps. (''yonk-'' @ j, ps) \<in> set (swGroups st') \<and> l = tapName j" by blast
qed

section \<open>Live VMs\<close>

lemma PJoin_prefix:
  assumes "IsAbs d" and "Clean d = d" and "d \<noteq> ''/''" and "is_name c"
  shows "HasPrefix (PJoin d c) (d @ ''/'')"
proof -
  have d: "d = render True (comps d)" using assms(1,2) by (simp add: Clean_def)
  then have ne: "comps d \<noteq> []" using assms(3) by (auto simp: render_def)
  have "PJoin d c = render True (comps d @ [c])" using assms by (simp add: PJoin_name)
  also have "\<dots> = d @ ''/'' @ c" using ne by (subst (2) d) (simp add: render_def Join_append)
  finally show ?thesis by (simp add: HasPrefix_def)
qed

text \<open>A VM process as the executor starts it: a binary named firecracker with the socket in the job
  directory.\<close>

definition vm_process :: "sweep_env \<Rightarrow> int \<Rightarrow> string \<Rightarrow> bool" where
  "vm_process env pid d \<longleftrightarrow> (\<exists>es name cmd. seProc env = Some es \<and> (name, Some cmd) \<in> set es \<and> Atoi name = Some pid
     \<and> Base (hd (cmdline_args cmd)) = ''firecracker'' \<and> fcAPISockFromCmdline (cmdline_args cmd) \<noteq> []
     \<and> Dir (fcAPISockFromCmdline (cmdline_args cmd)) = d)"

lemma vm_process_runs:
  assumes "vm_process env pid d" and "HasPrefix d (workDir @ ''/'')"
  shows "runs_in env workDir pid d"
proof -
  obtain es name cmd where e: "seProc env = Some es" "(name, Some cmd) \<in> set es" "Atoi name = Some pid"
      "Base (hd (cmdline_args cmd)) = ''firecracker''" "fcAPISockFromCmdline (cmdline_args cmd) \<noteq> []"
      "Dir (fcAPISockFromCmdline (cmdline_args cmd)) = d"
    using assms(1) by (auto simp: vm_process_def)
  then have "our_vm workDir (name, Some cmd) = Some (pid, d)"
    using assms(2) by (auto simp: our_vm_def job_dir_def Let_def cmdline_args_def)
  then show ?thesis using e(1,2) by (auto simp: runs_in_iff)
qed

text \<open>C12. A live VM is not disturbed.  Let the work directory be a clean absolute path other than the
  root, and let a Firecracker process with its socket in the directory \<open>vm\<close> there have a living parent, with no
  orphaned process in the same directory.  Then the sweep sends the process no signal, keeps the
  directory, keeps every control group the process is in, with the process in it, and, when the
  groups can be listed, keeps the TAP device of the job of such a group.\<close>

theorem sweep_keeps_live_vm:
  assumes "IsAbs workDir" and "Clean workDir = workDir" and "workDir \<noteq> ''/''" and "is_name vm"
    and "vm_process env pid (PJoin workDir vm)" and "\<not> orphaned env pid"
    and "\<nexists>q. runs_in env workDir q (PJoin workDir vm) \<and> orphaned env q"
    and "seReadGroups env" and "st' = sweepOrphans env workDir st"
  shows "((pid, sig) \<in> set (swSignals st') \<longrightarrow> (pid, sig) \<in> set (swSignals st))
    \<and> ((vm, isDir) \<in> set (swDirs st) \<longrightarrow> (vm, isDir) \<in> set (swDirs st'))
    \<and> ((''yonk-'' @ j, Some ps) \<in> set (swGroups st) \<and> pid \<in> set ps \<longrightarrow>
        (\<exists>ps'. (''yonk-'' @ j, Some ps') \<in> set (swGroups st') \<and> pid \<in> set ps')
        \<and> (tapName j \<in> set (swLinks st) \<longrightarrow> tapName j \<in> set (swLinks st')))"
proof -
  obtain es where es: "seProc env = Some es" using assms(5) by (auto simp: vm_process_def)
  note f = sweepOrphans_fields [OF es, of workDir st]
  have "runs_in env workDir pid (PJoin workDir vm)"
    using assms(5) PJoin_prefix [OF assms(1-4)] by (rule vm_process_runs)
  then have live: "live_dir env workDir (PJoin workDir vm)" using assms(6,7) by (auto simp: live_dir_def)
  have nk: "\<not> killed env workDir pid" using assms(6) by (simp add: killed_def)
  have group: "\<exists>qs. (''yonk-'' @ j, Some qs) \<in> set (groups_after env workDir st) \<and> pid \<in> set qs"
    if "(''yonk-'' @ j, Some ps) \<in> set (swGroups st)" "pid \<in> set ps"
    using that nk by (force simp: groups_after_def)
  have "(''yonk-'' @ j, Some qs) \<in> set (swGroups st') \<and> (tapName j \<in> set (swLinks st) \<longrightarrow> tapName j \<in> set (swLinks st'))"
    if "(''yonk-'' @ j, Some qs) \<in> set (groups_after env workDir st)" "pid \<in> set qs" for qs
  proof -
    have "group_live (''yonk-'' @ j, Some qs)" using that(2) by (auto simp: group_live_iff)
    moreover have "j \<in> set (live_ids env (st\<lparr>swGroups := groups_after env workDir st\<rparr>))"
      using that calculation assms(8) by (force simp: live_ids_def is_job_group_split)
    ultimately show ?thesis using f(2,3) that(1) assms(8,9) by (auto simp: sweep_groups_def sweep_links_def)
  qed
  then show ?thesis using f(1,4) live nk assms(9) group by (auto simp: dir_kept_def)
qed

section \<open>A work directory that is not clean\<close>

definition live_cmdline :: string where
  "live_cmdline = ''firecracker'' @ [NUL] @ ''--api-sock'' @ [NUL] @ ''/v/vm-1/s'' @ [NUL]"

text \<open>Process 7 is a child of another daemon, process 5; the sweeping daemon is process 9.\<close>

definition sample_sweep :: sweep_env where
  "sample_sweep = \<lparr>seProc = Some [(''7'', Some live_cmdline), (''self'', None)],
     seStat = (\<lambda>pid. if pid = 7 then Some ''7 (firecracker) S 5 7 7 0'' else None), seSelf = 9,
     seGone = (\<lambda>_. True), seMkdirAll = True, seReadDir = True, seRemoveAll = (\<lambda>_. True), seReadGroups = True,
     seLoadGroup = (\<lambda>_. True), seDeleteGroup = (\<lambda>_. True), seLinkList = True, seLinkDel = (\<lambda>_. True)\<rparr>"

definition sample_host :: "string list \<Rightarrow> sweep_state" where
  "sample_host links = \<lparr>swSignals = [], swDirs = [(''vm-1'', True), (''vm-2'', True), (''log'', False)],
     swGroups = [(''yonk-j'', Some [7]), (''yonk-k'', Some []), (''user'', Some [])], swLinks = links\<rparr>"

text \<open>A trailing slash defeats the protection of live VMs.  With the work directory \<^verbatim>\<open>/v\<close> the sweep keeps the
  directory of a live VM and removes the one nobody uses; with \<^verbatim>\<open>/v/\<close>, the same directory, it
  removes both, since the test for VMs of this work directory compares texts.\<close>

theorem sweep_trailing_slash:
  "let st = sample_host [] in
     Clean ''/v/'' = ''/v''
     \<and> swDirs (sweepOrphans sample_sweep ''/v'' (st\<lparr>swGroups := []\<rparr>)) = [(''vm-1'', True), (''log'', False)]
     \<and> swDirs (sweepOrphans sample_sweep ''/v/'' (st\<lparr>swGroups := []\<rparr>)) = [(''log'', False)]"
  by code_simp

lemma sample_vm: "vm_process sample_sweep 7 (PJoin ''/v'' ''vm-1'')"
proof -
  have "Atoi ''7'' = Some 7" "Base (hd (cmdline_args live_cmdline)) = ''firecracker''"
    "fcAPISockFromCmdline (cmdline_args live_cmdline) \<noteq> []"
    "Dir (fcAPISockFromCmdline (cmdline_args live_cmdline)) = PJoin ''/v'' ''vm-1''"
    by code_simp+
  moreover have "seProc sample_sweep = Some [(''7'', Some live_cmdline), (''self'', None)]"
    by (simp add: sample_sweep_def)
  ultimately show ?thesis unfolding vm_process_def
    by (intro exI [of _ "[(''7'', Some live_cmdline), (''self'', None)]"] exI [of _ "''7''"] exI [of _ live_cmdline]) simp
qed

lemma sample_no_orphan: "runs_in sample_sweep ''/v'' q d \<Longrightarrow> \<not> orphaned sample_sweep q"
proof -
  assume "runs_in sample_sweep ''/v'' q d"
  moreover have "our_vm ''/v'' (''7'', Some live_cmdline) = Some (7, ''/v/vm-1'')" "our_vm ''/v'' (''self'', None) = None"
    by code_simp+
  moreover have "\<not> orphaned sample_sweep 7" by code_simp
  ultimately show ?thesis by (auto simp: runs_in_def sample_sweep_def)
qed

theorem sweep_keeps_live_vm_witness:
  "(''vm-1'', True) \<in> set (swDirs (sweepOrphans sample_sweep ''/v'' (sample_host [tapName ''j''])))
    \<and> tapName ''j'' \<in> set (swLinks (sweepOrphans sample_sweep ''/v'' (sample_host [tapName ''j''])))"
proof -
  have a: "IsAbs ''/v''" "Clean ''/v'' = ''/v''" "''/v'' \<noteq> ''/''" "is_name ''vm-1''" by code_simp+
  have "runs_in sample_sweep ''/v'' 7 (PJoin ''/v'' ''vm-1'')"
    using sample_vm by (rule vm_process_runs) code_simp
  then have b: "\<not> orphaned sample_sweep 7" by (rule sample_no_orphan)
  have c: "\<nexists>q. runs_in sample_sweep ''/v'' q (PJoin ''/v'' ''vm-1'') \<and> orphaned sample_sweep q"
    using sample_no_orphan by blast
  have d: "seReadGroups sample_sweep" by (simp add: sample_sweep_def)
  from sweep_keeps_live_vm [OF a sample_vm b c d refl, of SIGKILL "sample_host [tapName ''j'']" True "''j''" "[7]"]
  show ?thesis by (simp add: sample_host_def)
qed

theorem sweep_removes_orphans_witness:
  "live_dir sample_sweep ''/v'' (PJoin ''/v'' ''vm-1'')
    \<and> (''vm-2'', True) \<notin> set (swDirs (sweepOrphans sample_sweep ''/v'' (sample_host []\<lparr>swGroups := []\<rparr>)))"
proof -
  let ?st = "sweepOrphans sample_sweep ''/v'' (sample_host []\<lparr>swGroups := []\<rparr>)"
  have p: "seProc sample_sweep = Some [(''7'', Some live_cmdline), (''self'', None)]" by (simp add: sample_sweep_def)
  have c: "calls_work sample_sweep" by (simp add: sample_sweep_def calls_work_def)
  have d: "swDirs ?st = [(''vm-1'', True), (''log'', False)]" by code_simp
  have "HasPrefix ''vm-1'' ''vm-''" by (simp add: HasPrefix_def)
  then have "live_dir sample_sweep ''/v'' (PJoin ''/v'' ''vm-1'')"
    using sweep_removes_orphans [OF p c refl, of "''/v''" "sample_host []\<lparr>swGroups := []\<rparr>"] d by simp
  with d show ?thesis by simp
qed

section \<open>NewFirecracker\<close>

text \<open>The ceilings are checked before anything is touched; the network is set up and the sweep runs before
  the checks of the host.\<close>

definition NewFirecracker ::
  "string \<Rightarrow> host_probe \<Rightarrow> net_init \<Rightarrow> sweep_env \<Rightarrow> FirecrackerConfig \<Rightarrow> sweep_state \<Rightarrow>
     (new_error + FirecrackerConfig \<times> jobNetwork) \<times> sweep_state" where
  "NewFirecracker tmp hp ni env cfg st =
     (let cfg = with_defaults tmp cfg in
      case check_ceilings cfg of
        Some e \<Rightarrow> (Inl e, st)
      | None \<Rightarrow>
          (let net = newJobNetwork ni yonkNftRuleset (cfMaxEgressMbps cfg) (cfMaxEgressPPS cfg) (cfGuestResolvers cfg);
               st1 = sweepOrphans env (cfWorkDir cfg) st
           in case preflight hp cfg of
                Some e \<Rightarrow> (Inl e, st1)
              | None \<Rightarrow> (Inr (cfg, net), st1)))"

lemma NewFirecracker_ok:
  assumes "NewFirecracker tmp hp ni env cfg st = (Inr (cfg', net), st')"
  shows "cfg' = with_defaults tmp cfg" and "st' = sweepOrphans env (cfWorkDir cfg') st"
    and "minGuestCPUs \<le> cfMaxVCPU cfg'" and "minGuestMemoryMB \<le> cfMaxMemoryMB cfg'"
    and "minGuestDiskMB \<le> cfMaxDiskMB cfg'" and "preflight hp cfg' = None"
  using assms
  by (auto simp: NewFirecracker_def check_ceilings_def Let_def split: option.splits if_splits)

end
