(* ===== verification/Daemon.thy ===== *)
theory Daemon
  imports Sweep Worker
begin

text \<open>
  The worker daemon (\<^verbatim>\<open>cmd/yonkd/main.go\<close>): the flags and their defaults, the choice of the executor, what
  the worker reports about itself, the start of the server and its end.  The host gives the results of
  the system calls; the server is the one of \<open>Worker\<close>, the executor that of \<open>FirecrackerRun\<close> or
  \<open>Restricted\<close>.

  The lemmas: what holds whenever the daemon serves, when it falls back to the executor without
  isolation, and that the memory it reports is that of \<^verbatim>\<open>/proc/meminfo\<close>.
\<close>

section \<open>Memory\<close>

definition maxScanTokenSize :: nat where "maxScanTokenSize = 64 * 1024"

definition meminfo_line :: "string \<Rightarrow> int \<times> int \<Rightarrow> int \<times> int" where
  "meminfo_line line acc =
     (let fields = Fields line in
      if length fields < 2 then acc
      else case Atoi (fields ! 1) of
             None \<Rightarrow> acc
           | Some valueKB \<Rightarrow>
               if fields ! 0 = ''MemTotal:'' then (go_div valueKB 1024, snd acc)
               else if fields ! 0 = ''MemAvailable:'' then (fst acc, go_div valueKB 1024)
               else acc)"

function scan_meminfo :: "bytes \<Rightarrow> int \<times> int \<Rightarrow> int \<times> int" where
  "scan_meminfo data acc =
     (case scan maxScanTokenSize data of
        Token line rest \<Rightarrow> scan_meminfo rest (meminfo_line line acc)
      | _ \<Rightarrow> acc)"
  by pat_completeness auto
termination
  by (relation "measure (\<lambda>(data, acc). length data)") (auto dest: scan_smaller)

declare scan_meminfo.simps [simp del]

text \<open>\<open>None\<close> when the file cannot be opened.\<close>

definition memorySnapshot :: "bytes option \<Rightarrow> int \<times> int" where
  "memorySnapshot meminfo = (case meminfo of None \<Rightarrow> (0, 0) | Some data \<Rightarrow> scan_meminfo data (0, 0))"

section \<open>Flags\<close>

record daemon_flags =
  dfListen :: string
  dfName :: string
  dfMaxConcurrent :: int
  dfExecutor :: string
  dfFirecrackerBin :: string
  dfKernel :: string
  dfRootfs :: string
  dfVmWorkDir :: string
  dfMaxVCPU :: int
  dfMaxMemoryMB :: int
  dfMaxDiskMB :: int
  dfMaxEgressMbps :: "64 word"
  dfMaxEgressPPS :: "64 word"
  dfGuestResolver :: string

definition default_flags :: "string \<Rightarrow> string \<Rightarrow> daemon_flags" where
  "default_flags hostname tmp =
     \<lparr>dfListen = ''127.0.0.1:9665'', dfName = hostname, dfMaxConcurrent = 4, dfExecutor = ''auto'',
      dfFirecrackerBin = ''/opt/yonk/firecracker'', dfKernel = ''/opt/yonk/vmlinux.bin'',
      dfRootfs = ''/opt/yonk/rootfs.ext4'', dfVmWorkDir = tmp, dfMaxVCPU = 4, dfMaxMemoryMB = 4096,
      dfMaxDiskMB = 8192, dfMaxEgressMbps = 100, dfMaxEgressPPS = 10000, dfGuestResolver = ''1.1.1.1,9.9.9.9''\<rparr>"

definition fc_config :: "daemon_flags \<Rightarrow> FirecrackerConfig" where
  "fc_config fl =
     \<lparr>cfBinPath = dfFirecrackerBin fl, cfKernelPath = dfKernel fl, cfRootfsPath = dfRootfs fl,
      cfWorkDir = dfVmWorkDir fl, cfMaxVCPU = dfMaxVCPU fl, cfMaxMemoryMB = dfMaxMemoryMB fl,
      cfMaxDiskMB = dfMaxDiskMB fl, cfMaxEgressMbps = dfMaxEgressMbps fl, cfMaxEgressPPS = dfMaxEgressPPS fl,
      cfGuestResolvers = Split CHR '','' (dfGuestResolver fl)\<rparr>"

section \<open>The executor\<close>

datatype serve_result = ServerClosed | ServeFailed string

text \<open>Which of the two happens first in the \<^verbatim>\<open>select\<close>, and what follows.\<close>

datatype daemon_end = ServeEnds serve_result | Signalled "string option" serve_result

record daemon_env =
  deHostname :: "string + string"
  deFlags :: "daemon_flags \<Rightarrow> daemon_flags" \<comment> \<open>\<^verbatim>\<open>flag.Parse\<close> applied to the defaults\<close>
  deTempDir :: string
  deProbe :: host_probe
  deNet :: net_init
  deSweep :: sweep_env
  deGOOS :: string
  deGOARCH :: string
  deNumCPU :: int
  deMeminfo :: "bytes option"
  deEnd :: daemon_end

datatype daemon_error =
  HostnameError string
| MicrovmError new_error
| UnknownExecutor string
| CapabilitiesError string
| NoCapabilities
| ConfigureError server_error
| ServeError string
| ShutdownError string

datatype backend = Microvm FirecrackerConfig jobNetwork | RestrictedProcess

definition select_executor ::
  "daemon_env \<Rightarrow> daemon_flags \<Rightarrow> sweep_state \<Rightarrow> (daemon_error + backend) \<times> sweep_state" where
  "select_executor env fl st =
     (let new = NewFirecracker (deTempDir env) (deProbe env) (deNet env) (deSweep env) (fc_config fl) in
      if dfExecutor fl = ''microvm''
      then (case new st of
              (Inl e, st1) \<Rightarrow> (Inl (MicrovmError e), st1)
            | (Inr (cfg, net), st1) \<Rightarrow> (Inr (Microvm cfg net), st1))
      else if dfExecutor fl = ''restricted'' then (Inr RestrictedProcess, st)
      else if dfExecutor fl = ''auto''
      then (case new st of
              (Inl _, st1) \<Rightarrow> (Inr RestrictedProcess, st1)
            | (Inr (cfg, net), st1) \<Rightarrow> (Inr (Microvm cfg net), st1))
      else (Inl (UnknownExecutor (dfExecutor fl)), st))"

definition capabilities :: "daemon_env \<Rightarrow> backend \<Rightarrow> string + executor_capability list" where
  "capabilities env b =
     (case b of
        Microvm _ _ \<Rightarrow> Firecracker_Capabilities (deGOOS env) (deGOARCH env)
      | RestrictedProcess \<Rightarrow> Inr (Restricted_Capabilities (deGOOS env) (deGOARCH env)))"

text \<open>Only the microVM executor has the method that reports network modes.\<close>

definition network_modes :: "backend \<Rightarrow> string list" where
  "network_modes b = (case b of Microvm _ net \<Rightarrow> NetworkModes (Some net) | RestrictedProcess \<Rightarrow> [])"

definition daemon_info :: "daemon_env \<Rightarrow> daemon_flags \<Rightarrow> backend \<Rightarrow> executor_capability list \<Rightarrow> worker_info" where
  "daemon_info env fl b caps =
     (case memorySnapshot (deMeminfo env) of
        (tot, avail) \<Rightarrow>
          \<lparr>wiName = dfName fl, wiHost = \<lparr>pOS = deGOOS env, pArch = deGOARCH env\<rparr>,
           wiResources = \<lparr>snapCPUCores = deNumCPU env, snapMemoryTotalMB = tot, snapMemoryAvailableMB = avail\<rparr>,
           wiExecutors = caps, wiNetworkModes = network_modes b\<rparr>)"

section \<open>The daemon\<close>

definition await_end :: "daemon_end \<Rightarrow> daemon_error option" where
  "await_end ending =
     (let served = (\<lambda>r. case r of ServerClosed \<Rightarrow> None | ServeFailed e \<Rightarrow> Some (ServeError e))
      in case ending of
           ServeEnds r \<Rightarrow> served r
         | Signalled (Some e) _ \<Rightarrow> Some (ShutdownError e)
         | Signalled None r \<Rightarrow> served r)"

text \<open>What is served: the description, the slots and the executor.\<close>

type_synonym serving = "worker_info \<times> slots \<times> backend"

definition daemon_run :: "daemon_env \<Rightarrow> sweep_state \<Rightarrow> daemon_error option \<times> serving option \<times> sweep_state" where
  "daemon_run env st =
     (case deHostname env of
        Inl e \<Rightarrow> (Some (HostnameError e), None, st)
      | Inr hostname \<Rightarrow>
          (let fl = deFlags env (default_flags hostname (deTempDir env)) in
           case select_executor env fl st of
             (Inl e, st1) \<Rightarrow> (Some e, None, st1)
           | (Inr b, st1) \<Rightarrow>
               (case capabilities env b of
                  Inl e \<Rightarrow> (Some (CapabilitiesError e), None, st1)
                | Inr caps \<Rightarrow>
                    if caps = [] then (Some NoCapabilities, None, st1)
                    else (let info = daemon_info env fl b caps in
                          case NewServer info True True (dfMaxConcurrent fl) of
                            Inl e \<Rightarrow> (Some (ConfigureError e), None, st1)
                          | Inr slots \<Rightarrow> (await_end (deEnd env), Some (info, slots, b), st1)))))"

text \<open>\<^verbatim>\<open>main\<close>: the exit status.\<close>

definition daemon_main :: "daemon_env \<Rightarrow> sweep_state \<Rightarrow> int" where
  "daemon_main env st = (case fst (daemon_run env st) of None \<Rightarrow> 0 | Some _ \<Rightarrow> 1)"

section \<open>What holds while the daemon serves\<close>

definition flags_of :: "daemon_env \<Rightarrow> string \<Rightarrow> daemon_flags" where
  "flags_of env hostname = deFlags env (default_flags hostname (deTempDir env))"

lemma daemon_run_serving:
  assumes "daemon_run env st = (err, Some (info, slots, b), st')"
  obtains hostname caps where "deHostname env = Inr hostname"
    and "select_executor env (flags_of env hostname) st = (Inr b, st')"
    and "capabilities env b = Inr caps" and "caps \<noteq> []"
    and "info = daemon_info env (flags_of env hostname) b caps"
    and "NewServer info True True (dfMaxConcurrent (flags_of env hostname)) = Inr slots"
    and "err = await_end (deEnd env)"
  using assms
  by (auto simp: daemon_run_def flags_of_def Let_def split: sum.splits prod.splits if_splits)

lemma daemon_run_serves:
  assumes "deHostname env = Inr hostname" and "select_executor env (flags_of env hostname) st = (Inr b, st')"
    and "capabilities env b = Inr caps" and "caps \<noteq> []"
    and "NewServer (daemon_info env (flags_of env hostname) b caps) True True (dfMaxConcurrent (flags_of env hostname)) = Inr slots"
  shows "daemon_run env st =
    (await_end (deEnd env), Some (daemon_info env (flags_of env hostname) b caps, slots, b), st')"
  using assms by (simp add: daemon_run_def flags_of_def Let_def)

definition new_firecracker :: "daemon_env \<Rightarrow> daemon_flags \<Rightarrow> sweep_state \<Rightarrow> (new_error + FirecrackerConfig \<times> jobNetwork) \<times> sweep_state" where
  "new_firecracker env fl st =
     NewFirecracker (deTempDir env) (deProbe env) (deNet env) (deSweep env) (fc_config fl) st"

lemma select_executor_cases:
  assumes "select_executor env fl st = (Inr b, st')"
  obtains (vm) cfg net where "b = Microvm cfg net" and "dfExecutor fl = ''microvm'' \<or> dfExecutor fl = ''auto''"
      and "new_firecracker env fl st = (Inr (cfg, net), st')"
  | (plain) "b = RestrictedProcess" and "dfExecutor fl = ''restricted''" and "st' = st"
  | (fallback) e where "b = RestrictedProcess" and "dfExecutor fl = ''auto''" and "new_firecracker env fl st = (Inl e, st')"
proof -
  obtain r st1 where r: "new_firecracker env fl st = (r, st1)" by fastforce
  show thesis
  proof (cases r)
    case (Inl e)
    with r assms show thesis
      by (auto simp: select_executor_def Let_def new_firecracker_def [symmetric] intro: plain fallback split: if_splits)
  next
    case (Inr cn)
    with r assms show thesis
      by (cases cn) (auto simp: select_executor_def Let_def new_firecracker_def [symmetric] intro: plain vm split: if_splits)
  qed
qed

text \<open>C13. What holds whenever the daemon serves.  The worker has a name and at least one slot, exactly
  as many as configured, and advertises exactly one capability.  Work without a VM is advertised only when it was asked
  for or, in automatic mode, when the microVM executor could not be created.  Work in a VM is advertised only on
  Linux on amd64, after the ceilings and every check of the host passed and the sweep ran.  The network
  mode for egress is advertised only by a microVM executor whose network was set up.\<close>

theorem daemon_serving_sound:
  assumes "daemon_run env st = (err, Some (info, slots, b), st')"
  shows "\<exists>hostname. deHostname env = Inr hostname \<and> (let fl = flags_of env hostname in
    wiName info = dfName fl \<and> wiName info \<noteq> [] \<and> 1 \<le> dfMaxConcurrent fl \<and> int (slCap slots) = dfMaxConcurrent fl
    \<and> (case b of
         RestrictedProcess \<Rightarrow> map capIsolation (wiExecutors info) = [''restricted-host-process''] \<and> wiNetworkModes info = []
           \<and> (dfExecutor fl = ''restricted'' \<and> st' = st
              \<or> dfExecutor fl = ''auto'' \<and> (\<exists>e. new_firecracker env fl st = (Inl e, st')))
       | Microvm cfg net \<Rightarrow> map capIsolation (wiExecutors info) = [''microvm'']
           \<and> deGOOS env = ''linux'' \<and> deGOARCH env = ''amd64''
           \<and> (''egress'' \<in> set (wiNetworkModes info) \<longleftrightarrow> jnReady net)
           \<and> preflight (deProbe env) cfg = None \<and> minGuestMemoryMB \<le> cfMaxMemoryMB cfg
           \<and> st' = sweepOrphans (deSweep env) (cfWorkDir cfg) st))"
proof -
  from assms obtain hostname caps where h: "deHostname env = Inr hostname"
    and sel: "select_executor env (flags_of env hostname) st = (Inr b, st')"
    and caps: "capabilities env b = Inr caps" and info: "info = daemon_info env (flags_of env hostname) b caps"
    and srv: "NewServer info True True (dfMaxConcurrent (flags_of env hostname)) = Inr slots"
    by (rule daemon_run_serving)
  let ?fl = "flags_of env hostname"
  have srv': "wiName info \<noteq> []" "1 \<le> dfMaxConcurrent ?fl" "int (slCap slots) = dfMaxConcurrent ?fl"
    using srv by (auto simp: NewServer_def split: if_splits)
  have flds: "wiName info = dfName ?fl" "wiExecutors info = caps" "wiNetworkModes info = network_modes b"
    by (simp_all add: info daemon_info_def split: prod.splits)
  have rp: "map capIsolation (wiExecutors info) = [''restricted-host-process'']" "wiNetworkModes info = []"
    if "b = RestrictedProcess"
    using caps that flds(3) unfolding flds(2) by (auto simp: capabilities_def Restricted_Capabilities_def network_modes_def)
  from sel show ?thesis
  proof (cases rule: select_executor_cases)
    case (vm cfg net)
    note ok = NewFirecracker_ok [OF vm(3) [unfolded new_firecracker_def]]
    have "map capIsolation (wiExecutors info) = [''microvm'']" "deGOOS env = ''linux''" "deGOARCH env = ''amd64''"
      using caps vm(1) unfolding flds(2) by (auto simp: capabilities_def Firecracker_Capabilities_def split: if_splits)
    moreover have "''egress'' \<in> set (wiNetworkModes info) \<longleftrightarrow> jnReady net"
      using vm(1) flds(3) by (simp add: network_modes_def NetworkModes_def)
    ultimately show ?thesis using h srv' flds(1) vm(1) ok by (simp add: Let_def)
  next
    case plain
    with h srv' flds(1) rp show ?thesis by (simp add: Let_def)
  next
    case (fallback e)
    with h srv' flds(1) rp show ?thesis by (simp add: Let_def)
  qed
qed

text \<open>Automatic mode falls back only when the microVM executor cannot be created: on a Linux host of another
  architecture it can be, and the daemon then stops.\<close>

theorem daemon_auto_stops:
  assumes "deHostname env = Inr hostname" and "dfExecutor (flags_of env hostname) = ''auto''"
    and "deGOARCH env = ''arm64''" and "new_firecracker env (flags_of env hostname) st = (Inr (cfg, net), st')"
  shows "daemon_run env st = (Some (CapabilitiesError ''firecracker executor requires linux/amd64''), None, st')"
proof -
  have "select_executor env (flags_of env hostname) st = (Inr (Microvm cfg net), st')"
    using assms(2,4) by (simp add: select_executor_def Let_def new_firecracker_def [symmetric])
  then show ?thesis
    using assms(1,3) by (simp add: daemon_run_def flags_of_def capabilities_def Firecracker_Capabilities_def)
qed

section \<open>The memory reported\<close>

text \<open>The file as the kernel writes it: a name with a colon, spaces, a number and the unit.\<close>

record mem_entry =
  meName :: string
  mePad :: nat
  meKB :: nat

definition mem_line :: "mem_entry \<Rightarrow> string" where
  "mem_line e = meName e @ CHR '' '' # replicate (mePad e) CHR '' '' @ dec (meKB e) @ '' kB''"

definition mem_text :: "mem_entry list \<Rightarrow> bytes" where
  "mem_text es = concat (map (\<lambda>e. mem_line e @ [CHR 0x0A]) es)"

definition mem_entry_ok :: "mem_entry \<Rightarrow> bool" where
  "mem_entry_ok e \<longleftrightarrow> is_word (meName e) \<and> int64_range (int (meKB e)) \<and> length (mem_line e) < maxScanTokenSize"

definition mem_mb :: "string \<Rightarrow> mem_entry list \<Rightarrow> int" where
  "mem_mb name es = (case find (\<lambda>e. meName e = name) es of None \<Rightarrow> 0 | Some e \<Rightarrow> int (meKB e) div 1024)"

lemma Fields_replicate: "Fields (replicate n CHR '' '' @ s) = Fields s"
  by (induction n) (simp_all add: Fields_space)

lemma mem_line_fields: "is_word (meName e) \<Longrightarrow> Fields (mem_line e) = [meName e, dec (meKB e), ''kB'']"
proof -
  assume w: "is_word (meName e)"
  have d: "is_word (dec (meKB e))" using fmt_int_word [of "int (meKB e)"] by (simp add: fmt_int_def)
  have "Fields ('' kB'') = [''kB'']" by (simp add: Fields_def is_space_def)
  then have "Fields (dec (meKB e) @ '' kB'') = [dec (meKB e), ''kB'']"
    using fields_word_space [OF d space_is_space(1), of "''kB''"] by (simp add: Fields_space)
  then show ?thesis
    using fields_word_space [OF w space_is_space(1)] by (simp add: mem_line_def Fields_replicate)
qed

lemma Atoi_nat: "int64_range (int n) \<Longrightarrow> Atoi (dec n) = Some (int n)"
  using Atoi_fmt_int [of "int n"] by (simp add: fmt_int_def)

lemma scan_mem_text:
  assumes "mem_entry_ok e"
  shows "scan_meminfo (mem_text (e # es)) acc = scan_meminfo (mem_text es) (meminfo_line (mem_line e) acc)"
proof -
  have w: "is_word (meName e)" using assms by (simp add: mem_entry_ok_def)
  have "CHR 0x0A \<notin> set (mem_line e)"
    using w digit_word [of "CHR 0x0A" "meKB e"]
    by (auto simp: mem_line_def is_word_def list_all_iff is_space_def)
  then have "scan maxScanTokenSize (mem_line e @ CHR 0x0A # mem_text es) = Token (mem_line e) (mem_text es)"
    using assms by (intro scan_line) (auto simp: mem_entry_ok_def mem_line_def)
  then show ?thesis by (subst scan_meminfo.simps) (simp add: mem_text_def)
qed

lemma scan_meminfo_text:
  assumes "list_all mem_entry_ok es" and "distinct (map meName es)"
  shows "scan_meminfo (mem_text es) acc =
    (if \<exists>e \<in> set es. meName e = ''MemTotal:'' then mem_mb ''MemTotal:'' es else fst acc,
     if \<exists>e \<in> set es. meName e = ''MemAvailable:'' then mem_mb ''MemAvailable:'' es else snd acc)"
  using assms
proof (induction es arbitrary: acc)
  case Nil
  then show ?case
    by (subst scan_meminfo.simps) (simp add: mem_text_def scan_def maxScanTokenSize_def)
next
  case (Cons e es)
  have ok: "mem_entry_ok e" using Cons.prems by simp
  then have l: "meminfo_line (mem_line e) acc =
      (if meName e = ''MemTotal:'' then (int (meKB e) div 1024, snd acc)
       else if meName e = ''MemAvailable:'' then (fst acc, int (meKB e) div 1024) else acc)"
    by (simp add: meminfo_line_def mem_line_fields Atoi_nat mem_entry_ok_def)
  have "find (\<lambda>x. meName x = n) es = None \<longleftrightarrow> \<not> (\<exists>x \<in> set es. meName x = n)" for n by (auto simp: find_None_iff)
  with Cons l show ?case
    by (auto simp: scan_mem_text [OF ok] mem_mb_def image_iff split: option.splits)
qed

text \<open>The memory a worker reports.  On a file as the kernel writes it, with any other lines and any
  alignment, the total and the available memory are the numbers of their lines divided by 1024, and zero
  when there is no such line; a file that cannot be read gives zero for both.\<close>

theorem memorySnapshot_exact:
  assumes "list_all mem_entry_ok es" and "distinct (map meName es)"
  shows "memorySnapshot (Some (mem_text es)) = (mem_mb ''MemTotal:'' es, mem_mb ''MemAvailable:'' es)
    \<and> memorySnapshot None = (0, 0)"
proof -
  have "find (\<lambda>x. meName x = n) es = None" if "\<not> (\<exists>x \<in> set es. meName x = n)" for n
    using that by (auto simp: find_None_iff)
  then show ?thesis
    using scan_meminfo_text [OF assms, of "(0, 0)"] by (auto simp: memorySnapshot_def mem_mb_def)
qed

section \<open>A host\<close>

definition sample_daemon :: "string \<Rightarrow> daemon_env" where
  "sample_daemon goarch =
     \<lparr>deHostname = Inr ''box'', deFlags = (\<lambda>fl. fl), deTempDir = ''/tmp'',
      deProbe = \<lparr>hpStat = (\<lambda>_. None), hpLookPath = (\<lambda>_. True), hpVersion = (\<lambda>_. True)\<rparr>,
      deNet = \<lparr>niStatTun = None, niIpForward = None, niNft = (\<lambda>_. None)\<rparr>, deSweep = sample_sweep,
      deGOOS = ''linux'', deGOARCH = goarch, deNumCPU = 8, deMeminfo = None,
      deEnd = Signalled None ServerClosed\<rparr>"

definition sample_flags :: daemon_flags where
  "sample_flags = default_flags ''box'' ''/tmp''"

lemma sample_fallback:
  "new_firecracker (sample_daemon goarch) sample_flags st =
     (Inl (AssetMissing ''/opt/yonk/firecracker''), sweepOrphans sample_sweep ''/tmp'' st)"
  by (simp add: new_firecracker_def NewFirecracker_def sample_daemon_def sample_flags_def default_flags_def fc_config_def
      with_defaults_def check_ceilings_def minGuestCPUs_def minGuestMemoryMB_def minGuestDiskMB_def preflight_def Let_def)

theorem daemon_serving_sound_witness:
  "\<exists>err (info :: worker_info) slots st'.
     daemon_run (sample_daemon ''amd64'') (sample_host []) = (err, Some (info, slots, RestrictedProcess), st')
     \<and> wiNetworkModes info = [] \<and> int (slCap slots) = 4"
proof -
  let ?env = "sample_daemon ''amd64''" and ?st = "sample_host []"
  have fl: "flags_of ?env ''box'' = sample_flags"
    by (simp add: flags_of_def sample_daemon_def sample_flags_def)
  have "select_executor ?env sample_flags ?st = (Inr RestrictedProcess, sweepOrphans sample_sweep ''/tmp'' ?st)"
    using sample_fallback [of "''amd64''" ?st]
    by (simp add: select_executor_def Let_def new_firecracker_def [symmetric] sample_flags_def default_flags_def)
  then have sel: "select_executor ?env (flags_of ?env ''box'') ?st =
      (Inr RestrictedProcess, sweepOrphans sample_sweep ''/tmp'' ?st)"
    by (simp only: fl)
  have h: "deHostname ?env = Inr ''box''" by (simp add: sample_daemon_def)
  have c: "capabilities ?env RestrictedProcess = Inr (Restricted_Capabilities ''linux'' ''amd64'')"
    by (simp add: capabilities_def sample_daemon_def)
  have ne: "Restricted_Capabilities ''linux'' ''amd64'' \<noteq> []" by (simp add: Restricted_Capabilities_def)
  have "\<exists>slots. NewServer (daemon_info ?env (flags_of ?env ''box'') RestrictedProcess (Restricted_Capabilities ''linux'' ''amd64''))
      True True (dfMaxConcurrent (flags_of ?env ''box'')) = Inr slots"
    unfolding fl
    by (simp add: NewServer_def daemon_info_def sample_flags_def default_flags_def split: prod.splits)
  then obtain err info slots st' where r: "daemon_run ?env ?st = (err, Some (info, slots, RestrictedProcess), st')"
    using daemon_run_serves [OF h sel c ne] by metis
  have "wiNetworkModes info = [] \<and> int (slCap slots) = 4"
    using daemon_serving_sound [OF r] h fl by (auto simp: Let_def sample_flags_def default_flags_def)
  with r show ?thesis by blast
qed

theorem memorySnapshot_exact_witness:
  "memorySnapshot (Some (mem_text [\<lparr>meName = ''MemTotal:'', mePad = 3, meKB = 2048\<rparr>,
     \<lparr>meName = ''MemFree:'', mePad = 0, meKB = 5\<rparr>])) = (2, 0)"
proof -
  have "length (dec 2048) = 4" "length (dec 5) = 1" by (simp_all add: dec.simps)
  then have "list_all mem_entry_ok [\<lparr>meName = ''MemTotal:'', mePad = 3, meKB = 2048\<rparr>,
      \<lparr>meName = ''MemFree:'', mePad = 0, meKB = 5\<rparr>]"
    by (simp add: mem_entry_ok_def is_word_def is_space_def int64_range_def mem_line_def maxScanTokenSize_def)
  from memorySnapshot_exact [OF this] show ?thesis by (simp add: mem_mb_def)
qed

end
