(* ===== verification/Upload.thy ===== *)
theory Upload
  imports Roundtrip Worker
begin

text \<open>
  The upload of a workspace across the two programs: what \<^verbatim>\<open>CreateArchive\<close> of the client wrote is the workspace
  field of a request to \<^verbatim>\<open>handleRun\<close> of the worker.  The lemmas follow the worker from the creation of the
  workspace directory to the call of the executor.
\<close>

lemma wf_fs_fresh_dir:
  assumes "wf_fs f" and "is_dir f d"
  shows "wf_fs ((d @ [c], NDir perm) # f)"
proof -
  have "is_dir ((d @ [c], NDir perm) # f) q" if "is_dir f q" for q
    using that by (auto simp: is_dir_def split: option.splits node.splits)
  with assms show ?thesis by (auto simp: wf_fs_def list_all_iff)
qed

lemma children_fresh_dir:
  assumes "wf_fs f" and "map_of f (d @ [c]) = None"
  shows "children ((d @ [c], NDir perm) # f) (d @ [c]) = []"
proof -
  have "butlast p \<noteq> d @ [c]" if "(p, nd) \<in> set f" for p nd
  proof
    assume b: "butlast p = d @ [c]"
    then have "is_dir f (d @ [c])" using assms(1) that by (fastforce simp: wf_fs_def list_all_iff)
    with assms(2) show False by (simp add: is_dir_def)
  qed
  then show ?thesis by (auto simp: children_def filter_empty_conv)
qed

text \<open>A new directory is an empty destination.\<close>

lemma fresh_dir_ready:
  assumes at: "at_dir (w_fs w) cs E" and nm: "list_all is_name (cs @ [c])" and quiet: "w_faults w = []"
    and wf: "wf_fs (w_fs w)" and new: "map_of (w_fs w) (E @ [c]) = None"
    and w1_def: "w1 = w\<lparr>w_fs := (E @ [c], NDir perm) # w_fs w\<rparr>"
  shows "os_mkdir (render True (cs @ [c])) perm w = (Inr (E @ [c]), w1)"
    and "clean_abs (render True (cs @ [c]))" and "wf_fs (w_fs w1)" and "w_faults w1 = []"
    and "resolve (w_fs w1) (render True (cs @ [c])) = Inr (E @ [c])"
    and "ensureEmptyDirectory (render True (cs @ [c])) w1 = (None, w1)"
proof -
  have loc: "locate (w_fs w) (render True (cs @ [c])) = Inr (E @ [c])" using at nm by (rule at_dir_locate)
  show "os_mkdir (render True (cs @ [c])) perm w = (Inr (E @ [c]), w1)"
    unfolding w1_def os_mkdir_def using os_create_fresh [OF quiet loc _ new] by simp
  show "clean_abs (render True (cs @ [c]))"
    using nm by (simp add: clean_abs_def IsAbs_render Clean_render clean_list_names)
  have "is_dir (w_fs w) E" using at by (simp add: at_dir_def)
  then show "wf_fs (w_fs w1)" unfolding w1_def using wf_fs_fresh_dir [OF wf] by simp
  show f1: "w_faults w1 = []" using quiet by (simp add: w1_def)
  have ex: "extends (w_fs w) (w_fs w1) {E @ [c]}"
    using new by (intro extends_fresh) (simp_all add: w1_def)
  have "at_dir (w_fs w1) (cs @ [c]) (E @ [c])"
    using at_dir_mono [OF ex at] nm by (intro at_dir_snoc) (simp_all add: w1_def is_dir_def)
  then show res: "resolve (w_fs w1) (render True (cs @ [c])) = Inr (E @ [c])"
    using nm by (simp add: at_dir_resolve)
  have "children (w_fs w1) (E @ [c]) = []" unfolding w1_def using children_fresh_dir [OF wf new] by simp
  then show "ensureEmptyDirectory (render True (cs @ [c])) w1 = (None, w1)"
    using res f1 by (simp add: ensureEmptyDirectory_def os_stat_def os_readdir_def get_node_def is_dir_def w1_def)
qed

lemma run_in_workspace_accepts:
  assumes "os_mkdir (PJoin dir ''workspace'') 448 w = (Inr q, w1)"
    and "Extract (ptArchive wpart) (PJoin dir ''workspace'') (extraction_limits spec) w1 = (None, st, w2)"
    and "sCompressedBytes st \<le> maxWorkspaceUploadBytes" and "reFlusher env"
  shows "run_in_workspace info run ext ert env spec dir wpart [] PartsEOF w =
    (case stream_job info run ext ert spec (reRemove env) dir (PJoin dir ''workspace'') st
            (NewSink (reFaults env) True) w2 of
       (s, w3) \<Rightarrow> (Stream (skSent s), w3))"
  using assms by (simp add: run_in_workspace_def)

text \<open>From the archive of the client to the state in which the executor is called.\<close>

lemma upload_extracted:
  assumes made: "CreateArchive env ex f root temps = (Inr a, temps')"
    and src: "locate f (Clean root) = Inr D" "is_dir f D" "implicit_root f" "list_all (list_all file_name \<circ> fst) f"
    and opened: "Archive_Open None a temps' = Inr packed"
    and dir: "at_dir (w_fs w) cs E" "list_all is_name cs" "dir = render True cs"
    and world: "w_faults w = []" "wf_fs (w_fs w)" "map_of (w_fs w) (E @ [''workspace'']) = None"
    and links: "\<And>ns t. packed_node ex f D ns = Some (NLink t) \<Longrightarrow>
      validateSymlink (PJoin dir ''workspace'') (PJoin (PJoin dir ''workspace'') (archive_name ns)) t = None"
    and lim: "1 \<le> lMaxFiles lim" "1 \<le> lMaxUncompressedBytes lim" "sFiles (aStats a) \<le> lMaxFiles lim"
      "sUncompressedBytes (aStats a) \<le> lMaxUncompressedBytes lim"
  shows "\<exists>q w1 w2. os_mkdir (PJoin dir ''workspace'') 448 w = (Inr q, w1)
    \<and> Extract (archive_of packed (sCompressedBytes (aStats a))) (PJoin dir ''workspace'') lim w1 = (None, aStats a, w2)
    \<and> (\<forall>ns. ns \<noteq> [] \<longrightarrow>
         map_of (w_fs w2) (E @ ''workspace'' # ns) = map_option placed_node (packed_node ex f D ns))"
proof -
  let ?es = "entries_below (Suc (fs_depth f)) ex f D []"
  let ?w1 = "w\<lparr>w_fs := (E @ [''workspace''], NDir 448) # w_fs w\<rparr>"
  have ws: "is_name ''workspace''" by (simp add: is_name_def)
  have root: "PJoin dir ''workspace'' = render True (cs @ [''workspace''])"
    using dir ws PJoin_name [of dir "''workspace''"] by (simp add: IsAbs_render comps_render clean_list_names)
  note fresh = fresh_dir_ready [where perm = 448, OF dir(1) _ world refl, folded root]
  note l = CreateArchive_entries_below [OF made src(1-3)]
  note fit = entries_below_fit [OF src(2-4) links]
  have packed: "packed = map pack ?es" using opened l(1) by (simp add: Archive_Open_def del: entries_below.simps)
  have "\<exists>w2. Extract (archive_of (map pack ?es) (aeSize env)) (PJoin dir ''workspace'') lim ?w1 =
      (None, \<lparr>sFiles = int (length ?es), sUncompressedBytes = content_size ?es, sCompressedBytes = aeSize env\<rparr>, w2)
    \<and> mirror (w_fs w2) (E @ [''workspace'']) (rev ?es)"
    using fresh(2-6) dir(2) ws lim l(2)
    by (intro Extract_fresh [OF _ _ _ _ _ well_ordered_root fit]) (simp_all del: entries_below.simps)
  then show ?thesis
    using fresh(1) dir(2) ws l(2) entries_below_map_of [OF src(2,3)]
    by (auto simp: packed mirror_def simp del: entries_below.simps)
qed

end
