(* ===== verification/Endpoint.thy ===== *)
theory Endpoint
  imports Client
begin

text \<open>
  The endpoint of a worker (\<^verbatim>\<open>NormalizeEndpoint\<close> and \<^verbatim>\<open>New\<close> in \<^verbatim>\<open>internal/client/client.go\<close>), with what they
  use of \<^verbatim>\<open>net/url\<close>: the parser of absolute and relative references, the split of host and port, and the
  text of a URL.  The parser of a host in brackets (an IP literal), which differs between releases of the
  library, is a parameter.

  The lemmas: a plain host with or without scheme, port and final slash gets the default scheme and
  port; whatever the input, an endpoint that is accepted is an HTTP URL of a host and a port only.
\<close>

section \<open>Pieces of net/url\<close>

definition Cut :: "char \<Rightarrow> string \<Rightarrow> string \<times> string" where
  "Cut c s = (takeWhile (\<lambda>x. x \<noteq> c) s, tl (dropWhile (\<lambda>x. x \<noteq> c) s))"

definition is_letter :: "char \<Rightarrow> bool" where
  "is_letter c = (let n = (of_char c :: nat) in 97 \<le> n \<and> n \<le> 122 \<or> 65 \<le> n \<and> n \<le> 90)"

definition to_lower :: "char \<Rightarrow> char" where
  "to_lower c = (let n = (of_char c :: nat) in if 65 \<le> n \<and> n \<le> 90 then char_of (n + 32) else c)"

text \<open>\<^verbatim>\<open>getScheme\<close>: \<open>None\<close> when the scheme is missing before a colon.\<close>

fun scheme_loop :: "string \<Rightarrow> string \<Rightarrow> string \<Rightarrow> (string \<times> string) option" where
  "scheme_loop raw acc [] = Some ([], raw)"
| "scheme_loop raw acc (c # s) =
     (if is_letter c then scheme_loop raw (c # acc) s
      else if is_digit c \<or> c \<in> set ''+-.''
      then (if acc = [] then Some ([], raw) else scheme_loop raw (c # acc) s)
      else if c = CHR '':'' then (if acc = [] then None else Some (rev acc, s))
      else Some ([], raw))"

definition getScheme :: "string \<Rightarrow> (string \<times> string) option" where
  "getScheme raw = scheme_loop raw [] raw"

text \<open>The text up to the last occurrence of a byte, and what follows it.\<close>

definition cut_last :: "char \<Rightarrow> string \<Rightarrow> (string \<times> string) option" where
  "cut_last c s = map_option (\<lambda>r. (take (length s - length r - 1) s, r)) (after_last c s)"

definition host_safe :: "char \<Rightarrow> bool" where
  "host_safe c = (unreserved c \<or> c \<in> set ''!$&()*+,;=:[]<>'' \<or> c = CHR 0x27 \<or> c = CHR 0x22)"

text \<open>\<^verbatim>\<open>unescape\<close> of a host: a percent sign escapes itself or a byte that is not ASCII; other ASCII bytes must
  be allowed in a host.\<close>

fun unescape_host :: "string \<Rightarrow> string option" where
  "unescape_host [] = Some []"
| "unescape_host (c # s) =
     (if c = CHR ''%''
      then (case s of
              a # b # s' \<Rightarrow>
                (case (unhex a, unhex b) of
                   (Some x, Some y) \<Rightarrow>
                     if x < 8 \<and> \<not> (x = 2 \<and> y = 5) then None
                     else map_option (\<lambda>r. char_of (16 * x + y) # r) (unescape_host s')
                 | _ \<Rightarrow> None)
            | _ \<Rightarrow> None)
      else if (of_char c :: nat) < 128 \<and> \<not> host_safe c then None
      else map_option (\<lambda>r. c # r) (unescape_host s))"

definition parseHost :: "(string \<Rightarrow> string option) \<Rightarrow> string \<Rightarrow> string option" where
  "parseHost literal host =
     (if CHR ''['' \<in> set host then literal host
      else case after_last CHR '':'' host of
             Some port \<Rightarrow> if list_all is_digit port then unescape_host host else None
           | None \<Rightarrow> unescape_host host)"

definition userinfo_char :: "char \<Rightarrow> bool" where
  "userinfo_char c = (is_letter c \<or> is_digit c \<or> c \<in> set ''-._:~!$&()*+,;=%@'' \<or> c = CHR 0x27)"

text \<open>The boolean says that there is user information.\<close>

definition parseAuthority :: "(string \<Rightarrow> string option) \<Rightarrow> string \<Rightarrow> (bool \<times> string) option" where
  "parseAuthority literal authority =
     (case cut_last CHR ''@'' authority of
        None \<Rightarrow> map_option (Pair False) (parseHost literal authority)
      | Some (userinfo, host) \<Rightarrow>
          (case parseHost literal host of
             None \<Rightarrow> None
           | Some h \<Rightarrow>
               if list_all userinfo_char userinfo \<and> url_unescape (fst (Cut CHR '':'' userinfo)) \<noteq> None
                  \<and> url_unescape (snd (Cut CHR '':'' userinfo)) \<noteq> None
               then Some (True, h) else None))"

record url =
  uScheme :: string
  uOpaque :: string
  uHasUser :: bool
  uHost :: string
  uPath :: string
  uForceQuery :: bool
  uRawQuery :: string
  uFragment :: string

definition is_ctl :: "char \<Rightarrow> bool" where
  "is_ctl c = ((of_char c :: nat) < 32 \<or> (of_char c :: nat) = 127)"

text \<open>The query: whether it is a lone question mark at the end, what comes before it, and its text.\<close>

definition split_query :: "string \<Rightarrow> bool \<times> string \<times> string" where
  "split_query rest =
     (if rest \<noteq> [] \<and> last rest = CHR ''?'' \<and> CHR ''?'' \<notin> set (butlast rest) then (True, butlast rest, [])
      else (False, Cut CHR ''?'' rest))"

text \<open>After the scheme: the query, then the authority and the path.\<close>

definition parse_rest :: "(string \<Rightarrow> string option) \<Rightarrow> string \<Rightarrow> string \<Rightarrow> url option" where
  "parse_rest literal scheme rest0 =
     (case split_query rest0 of
        (force, rest, query) \<Rightarrow>
          (let u = \<lparr>uScheme = scheme, uOpaque = [], uHasUser = False, uHost = [], uPath = [],
                    uForceQuery = force, uRawQuery = query, uFragment = []\<rparr>
           in if \<not> HasPrefix rest ''/'' \<and> scheme \<noteq> [] then Some (u\<lparr>uOpaque := rest\<rparr>)
              else if \<not> HasPrefix rest ''/'' \<and> CHR '':'' \<in> set (fst (Cut CHR ''/'' rest)) then None
              else if (scheme \<noteq> [] \<or> \<not> HasPrefix rest ''///'') \<and> HasPrefix rest ''//''
              then (let authority = takeWhile (\<lambda>c. c \<noteq> CHR ''/'') (drop 2 rest);
                        path = dropWhile (\<lambda>c. c \<noteq> CHR ''/'') (drop 2 rest)
                    in case parseAuthority literal authority of
                         None \<Rightarrow> None
                       | Some (user, host) \<Rightarrow>
                           map_option (\<lambda>p. u\<lparr>uHasUser := user, uHost := host, uPath := p\<rparr>) (url_unescape path))
              else map_option (\<lambda>p. u\<lparr>uPath := p\<rparr>) (url_unescape rest)))"

definition url_Parse :: "(string \<Rightarrow> string option) \<Rightarrow> string \<Rightarrow> url option" where
  "url_Parse literal raw =
     (case Cut CHR ''#'' raw of
        (text, frag) \<Rightarrow>
          if list_ex is_ctl text then None
          else (case (if text = ''*'' then Some \<lparr>uScheme = [], uOpaque = [], uHasUser = False, uHost = [], uPath = ''*'',
                        uForceQuery = False, uRawQuery = [], uFragment = []\<rparr>
                      else case getScheme text of
                             None \<Rightarrow> None
                           | Some (scheme, rest) \<Rightarrow> parse_rest literal (map to_lower scheme) rest) of
                  None \<Rightarrow> None
                | Some u \<Rightarrow> map_option (\<lambda>f. u\<lparr>uFragment := f\<rparr>) (url_unescape frag)))"

text \<open>\<^verbatim>\<open>splitHostPort\<close>, \<^verbatim>\<open>Hostname\<close> and \<^verbatim>\<open>Port\<close>.\<close>

definition splitHostPort :: "string \<Rightarrow> string \<times> string" where
  "splitHostPort hostPort =
     (let (host, port) = (case cut_last CHR '':'' hostPort of
            Some (h, p) \<Rightarrow> if list_all is_digit p then (h, p) else (hostPort, [])
          | None \<Rightarrow> (hostPort, []))
      in (if HasPrefix host ''['' \<and> HasSuffix host '']'' then butlast (tl host) else host, port))"

definition JoinHostPort :: "string \<Rightarrow> string \<Rightarrow> string" where
  "JoinHostPort host port =
     (if CHR '':'' \<in> set host then ''['' @ host @ '']:'' @ port else host @ '':'' @ port)"

text \<open>\<^verbatim>\<open>URL.String\<close> of a URL with a scheme and a host and without opaque part, user information, path and
  fragment.\<close>

definition host_url :: "url \<Rightarrow> string" where
  "host_url u =
     uScheme u @ ''://'' @ url_escape host_safe (uHost u)
       @ (if uForceQuery u \<or> uRawQuery u \<noteq> [] then ''?'' @ uRawQuery u else [])"

section \<open>The endpoint\<close>

definition defaultPort :: string where "defaultPort = ''9665''"

datatype endpoint_error = EndpointRequired | EndpointParse | EndpointScheme string | EndpointHost | EndpointPath

definition NormalizeEndpoint :: "(string \<Rightarrow> string option) \<Rightarrow> string \<Rightarrow> endpoint_error + string" where
  "NormalizeEndpoint literal endpoint0 =
     (let trimmed = TrimSpace endpoint0 in
      if trimmed = [] then Inl EndpointRequired
      else let endpoint = (if \<not> Contains trimmed ''://'' then ''http://'' @ trimmed else trimmed)
           in case url_Parse literal endpoint of
                None \<Rightarrow> Inl EndpointParse
              | Some u \<Rightarrow>
                  if uScheme u \<noteq> ''http'' \<and> uScheme u \<noteq> ''https'' then Inl (EndpointScheme (uScheme u))
                  else if fst (splitHostPort (uHost u)) = [] \<or> uHasUser u then Inl EndpointHost
                  else if uPath u \<noteq> [] \<and> uPath u \<noteq> ''/'' \<or> uRawQuery u \<noteq> [] \<or> uFragment u \<noteq> [] then Inl EndpointPath
                  else let u1 = (if snd (splitHostPort (uHost u)) = []
                                 then u\<lparr>uHost := JoinHostPort (fst (splitHostPort (uHost u))) defaultPort\<rparr> else u)
                       in Inr (TrimSuffix (host_url (u1\<lparr>uPath := []\<rparr>)) ''/''))"

text \<open>\<^verbatim>\<open>New\<close>: the parsed base URL of the client.\<close>

definition client_New :: "(string \<Rightarrow> string option) \<Rightarrow> string \<Rightarrow> endpoint_error + url" where
  "client_New literal endpoint =
     (case NormalizeEndpoint literal endpoint of
        Inl e \<Rightarrow> Inl e
      | Inr normalized \<Rightarrow>
          (case url_Parse literal normalized of None \<Rightarrow> Inl EndpointParse | Some u \<Rightarrow> Inr u))"

section \<open>What an accepted endpoint is\<close>

lemma escape_char_set: "c \<in> set (escape_char safe x) \<Longrightarrow> safe c \<or> c = CHR ''%'' \<or> is_digit c \<or> is_letter c"
proof -
  have up: "is_digit (upper_hex d) \<or> is_letter (upper_hex d)" if "d < 16" for d
    using that by (simp add: upper_hex_def is_digit_def is_letter_def)
  show "c \<in> set (escape_char safe x) \<Longrightarrow> ?thesis"
    using up [OF of_char_nibbles(1) [of x]] up [OF of_char_nibbles(2) [of x]]
    by (auto simp: escape_char_def split: if_splits)
qed

lemma url_escape_host_set:
  assumes "c \<in> set (url_escape host_safe h)"
  shows "c \<notin> set ''/@#? ''"
proof -
  obtain x where "c \<in> set (escape_char host_safe x)" using assms by (auto simp: url_escape_def)
  from escape_char_set [OF this] show ?thesis
    by (auto simp: host_safe_def unreserved_def is_digit_def is_letter_def)
qed

lemma TrimSuffix_id:
  assumes "last s \<noteq> c"
  shows "TrimSuffix s [c] = s"
proof -
  have "\<not> HasSuffix s [c]"
  proof
    assume "HasSuffix s [c]"
    then have "drop (length s - 1) s = [c]" "s \<noteq> []" by (auto simp: HasSuffix_def)
    then have "last s = c" by (metis append_take_drop_id last_snoc)
    with assms show False by simp
  qed
  then show ?thesis by (simp add: TrimSuffix_def)
qed

lemma url_escape_nonempty: "h \<noteq> [] \<Longrightarrow> url_escape safe h \<noteq> []"
  by (cases h) (simp_all add: url_escape_def escape_char_def)

lemma NormalizeEndpoint_cases:
  assumes "NormalizeEndpoint literal e = Inr r"
  obtains u where "uScheme u = ''http'' \<or> uScheme u = ''https''" and "\<not> uHasUser u" and "uRawQuery u = []"
    and "fst (splitHostPort (uHost u)) \<noteq> []"
    and "r = TrimSuffix (host_url (u\<lparr>uHost := (if snd (splitHostPort (uHost u)) = []
      then JoinHostPort (fst (splitHostPort (uHost u))) defaultPort else uHost u), uPath := []\<rparr>)) ''/''"
proof -
  let ?t = "TrimSpace e"
  obtain u where u: "url_Parse literal (if \<not> Contains ?t ''://'' then ''http://'' @ ?t else ?t) = Some u"
    using assms by (auto simp: NormalizeEndpoint_def Let_def split: if_splits option.splits)
  show thesis
    using assms u that [of u]
    by (cases "snd (splitHostPort (uHost u)) = []")
      (auto simp: NormalizeEndpoint_def Let_def split: if_splits)
qed


section \<open>Plain hosts\<close>

text \<open>A host of unreserved bytes and an optional port.\<close>

definition plain_port :: "string \<Rightarrow> bool" where
  "plain_port p = (p = [] \<or> (hd p = CHR '':'' \<and> tl p \<noteq> [] \<and> list_all is_digit (tl p)))"

definition auth_char :: "char \<Rightarrow> bool" where
  "auth_char c = (unreserved c \<or> c = CHR '':'')"

lemma auth_char_facts:
  assumes "auth_char c"
  shows "c \<noteq> CHR ''/''" "c \<noteq> CHR ''@''" "c \<noteq> CHR ''#''" "c \<noteq> CHR ''?''" "c \<noteq> CHR ''[''" "c \<noteq> CHR ''%''"
    "\<not> is_ctl c" "\<not> is_space c" "host_safe c"
  using assms by (auto simp: auth_char_def unreserved_def is_ctl_def is_space_def host_safe_def)

lemma digit_auth: "is_digit c \<Longrightarrow> unreserved c \<and> c \<noteq> CHR '':''"
  by (auto simp: is_digit_def unreserved_def)

lemma plain_authority:
  assumes "list_all unreserved host" and "plain_port p"
  shows "list_all auth_char (host @ p)"
  using assms digit_auth by (cases p) (auto simp: list_all_iff auth_char_def plain_port_def)

lemma unreserved_no_colon: "unreserved c \<Longrightarrow> c \<noteq> CHR '':''"
  by (auto simp: unreserved_def)

lemma unescape_host_plain: "list_all auth_char s \<Longrightarrow> unescape_host s = Some s"
  by (induction s) (auto dest: auth_char_facts)

lemma split_plain:
  assumes "list_all unreserved host" and "plain_port p" and "host \<noteq> []"
  shows "after_last CHR '':'' (host @ p) = (if p = [] then None else Some (tl p))"
    and "splitHostPort (host @ p) = (host, tl p)" and "list_all is_digit (tl p)"
proof -
  have nc: "CHR '':'' \<notin> set host" using assms(1) unreserved_no_colon by (auto simp: list_all_iff)
  have nd: "CHR '':'' \<notin> set (tl p)" and "list_all is_digit (tl p)"
    using assms(2) digit_auth by (auto simp: plain_port_def list_all_iff)
  then show "list_all is_digit (tl p)" by simp
  show al: "after_last CHR '':'' (host @ p) = (if p = [] then None else Some (tl p))"
    using assms(2) after_last_None [OF nc] after_last_append [OF nd, of host] by (cases p) (auto simp: plain_port_def)
  have "\<not> HasPrefix host ''[''" using assms(1,3) by (cases host) (auto simp: HasPrefix_def unreserved_def)
  moreover have "take (length (host @ p) - length (tl p) - 1) (host @ p) = host" if "p \<noteq> []"
    using that by (cases p) auto
  ultimately show "splitHostPort (host @ p) = (host, tl p)"
    using al \<open>list_all is_digit (tl p)\<close>
    by (cases "p = []") (simp_all add: splitHostPort_def cut_last_def)
qed

lemma parseAuthority_plain:
  assumes "list_all unreserved host" and "plain_port p" and "host \<noteq> []"
  shows "parseAuthority literal (host @ p) = Some (False, host @ p)"
proof -
  note a = plain_authority [OF assms(1,2)]
  have "CHR ''@'' \<notin> set (host @ p)" "CHR ''['' \<notin> set (host @ p)"
    using a auth_char_facts(2,5) unfolding list_all_iff by blast+
  moreover have "unescape_host (host @ p) = Some (host @ p)" using a by (rule unescape_host_plain)
  ultimately show ?thesis
    using split_plain [OF assms]
    by (cases "p = []") (simp_all add: parseAuthority_def cut_last_def after_last_None parseHost_def)
qed

lemma Cut_absent: "c \<notin> set s \<Longrightarrow> Cut c s = (s, [])"
  by (induction s) (auto simp: Cut_def)

definition plain_url :: "string \<Rightarrow> string \<Rightarrow> string \<Rightarrow> url" where
  "plain_url scheme host path = \<lparr>uScheme = scheme, uOpaque = [], uHasUser = False, uHost = host, uPath = path,
     uForceQuery = False, uRawQuery = [], uFragment = []\<rparr>"

lemma parse_rest_plain:
  assumes "list_all unreserved host" and "plain_port p" and "host \<noteq> []" and "z = [] \<or> z = ''/''"
    and "scheme \<noteq> []"
  shows "parse_rest literal scheme (''//'' @ host @ p @ z) = Some (plain_url scheme (host @ p) z)"
proof -
  let ?rest = "''//'' @ host @ p @ z"
  have a: "\<And>c. c \<in> set (host @ p) \<Longrightarrow> auth_char c"
    using plain_authority [OF assms(1,2)] by (simp add: list_all_iff)
  have sl: "\<And>c. c \<in> set (host @ p) \<Longrightarrow> c \<noteq> slash" using auth_char_facts(1) a by blast
  have nq: "CHR ''?'' \<notin> set ?rest" using assms(4) auth_char_facts(4) a by auto
  then have query: "split_query ?rest = (False, ?rest, [])"
    using last_in_set [of ?rest] by (auto simp: split_query_def Cut_absent)
  have "takeWhile (\<lambda>c. c \<noteq> slash) ((host @ p) @ z) = host @ p"
    using sl assms(4) by (subst takeWhile_append2) auto
  moreover have "dropWhile (\<lambda>c. c \<noteq> slash) ((host @ p) @ z) = z"
    using sl assms(4) by (subst dropWhile_append2) auto
  moreover have "url_unescape z = Some z" using assms(4) by auto
  ultimately show ?thesis
    using parseAuthority_plain [OF assms(1-3), of literal] assms(5)
    unfolding parse_rest_def query by (simp add: HasPrefix_def plain_url_def)
qed

lemma url_Parse_plain:
  assumes "list_all unreserved host" and "plain_port p" and "host \<noteq> []" and "z = [] \<or> z = ''/''"
    and "scheme = ''http'' \<or> scheme = ''https''"
  shows "url_Parse literal (scheme @ ''://'' @ host @ p @ z) = Some (plain_url scheme (host @ p) z)"
proof -
  let ?raw = "scheme @ ''://'' @ host @ p @ z"
  have a: "\<And>c. c \<in> set (host @ p) \<Longrightarrow> auth_char c"
    using plain_authority [OF assms(1,2)] by (simp add: list_all_iff)
  have "CHR ''#'' \<notin> set ?raw" using assms(4,5) auth_char_facts(3) a by auto
  then have cut: "Cut CHR ''#'' ?raw = (?raw, [])" by (rule Cut_absent)
  have "\<not> list_ex is_ctl ?raw"
    using assms(4,5) auth_char_facts(7) a by (auto simp: list_ex_iff is_ctl_def)
  moreover have "?raw \<noteq> ''*''" using assms(5) by auto
  moreover have "getScheme ?raw = Some (scheme, ''//'' @ host @ p @ z)"
    using assms(5) by (auto simp: getScheme_def is_letter_def is_digit_def)
  moreover have "map to_lower scheme = scheme" using assms(5) by (auto simp: to_lower_def)
  moreover have "scheme \<noteq> []" using assms(5) by auto
  ultimately show ?thesis
    using parse_rest_plain [OF assms(1-4)] unfolding url_Parse_def cut by (simp add: plain_url_def)
qed

lemma Contains_skip:
  assumes "CHR '':'' \<notin> set s"
  shows "Contains (s @ r) ''://'' = Contains r ''://''"
  using assms by (induction s) (auto simp: HasPrefix_def)

lemma port_no_scheme:
  assumes "plain_port p" and "z = [] \<or> z = ''/''"
  shows "\<not> Contains (p @ z) ''://''"
proof (cases p)
  case (Cons c ds)
  then have c: "c = CHR '':''" and ds: "ds \<noteq> []" "list_all is_digit ds" using assms(1) by (simp_all add: plain_port_def)
  then have "CHR '':'' \<notin> set ds" using digit_auth unfolding list_all_iff by blast
  moreover have "\<not> is_digit slash" by (simp add: is_digit_def)
  then have "hd ds \<noteq> slash" using ds by (cases ds) auto
  moreover have "\<not> Contains z ''://''" using assms(2) by (auto simp: HasPrefix_def)
  ultimately show ?thesis
    using Cons c ds(1) Contains_skip [of ds z] by (cases ds) (auto simp: HasPrefix_def)
qed (use assms(2) in \<open>auto simp: HasPrefix_def\<close>)

lemma TrimSpace_id: "list_all (\<lambda>c. \<not> is_space c) s \<Longrightarrow> TrimSpace s = s"
proof -
  assume s: "list_all (\<lambda>c. \<not> is_space c) s"
  have "dropWhile is_space t = t" if "list_all (\<lambda>c. \<not> is_space c) t" for t
    using that by (cases t) simp_all
  from this [OF s] this [of "rev s"] s show ?thesis by (simp add: TrimSpace_def)
qed

text \<open>A plain endpoint means what it says.  A host name, with or without one of the two schemes, a port and a
  final slash, is accepted; the result has the scheme http and the port 9665 where none was given and no
  slash, and the client is created with exactly that URL.\<close>

theorem NormalizeEndpoint_plain:
  assumes "s = [] \<or> s = ''http://'' \<or> s = ''https://''" and "list_all unreserved host" and "host \<noteq> []"
    and "plain_port p" and "z = [] \<or> z = ''/''"
  shows "let scheme = (if s = ''https://'' then ''https'' else ''http''); port = (if p = [] then '':9665'' else p)
    in NormalizeEndpoint literal (s @ host @ p @ z) = Inr (scheme @ ''://'' @ host @ port)
      \<and> client_New literal (s @ host @ p @ z) = Inr (plain_url scheme (host @ port) [])"
proof -
  let ?scheme = "if s = ''https://'' then ''https'' else ''http''" and ?port = "if p = [] then '':9665'' else p"
  let ?a = "s @ host @ p @ z"
  have sch: "?scheme = ''http'' \<or> ?scheme = ''https''" by simp
  have pp: "plain_port ?port" using assms(4) by (auto simp: plain_port_def is_digit_def)
  have auth: "\<And>c. c \<in> set (host @ p) \<Longrightarrow> auth_char c"
    using plain_authority [OF assms(2,4)] by (simp add: list_all_iff)
  have trim: "TrimSpace ?a = ?a"
    using assms(1,5) auth auth_char_facts(8) by (intro TrimSpace_id) (auto simp: list_all_iff is_space_def)
  have nc: "CHR '':'' \<notin> set host" using assms(2) unreserved_no_colon by (auto simp: list_all_iff)
  have full: "(if \<not> Contains ?a ''://'' then ''http://'' @ ?a else ?a) = ?scheme @ ''://'' @ host @ p @ z"
    using assms(1) Contains_skip [OF nc, of "p @ z"] port_no_scheme [OF assms(4,5)] by (auto simp: HasPrefix_def)
  note parsed = url_Parse_plain [OF assms(2,4,3,5) sch, of literal]
  note split = split_plain(2) [OF assms(2,4,3)]
  have host: "(if snd (splitHostPort (host @ p)) = [] then JoinHostPort host defaultPort else host @ p) = host @ ?port"
    using nc split assms(4) by (cases p) (auto simp: JoinHostPort_def defaultPort_def plain_port_def)
  have esc: "url_escape host_safe (host @ ?port) = host @ ?port"
    using plain_authority [OF assms(2) pp] auth_char_facts(9)
    by (intro url_escape_safe) (auto simp: list_all_iff)
  have "last (host @ ?port) \<noteq> slash"
    using plain_authority [OF assms(2) pp] auth_char_facts(1) assms(3) last_in_set [of "host @ ?port"]
    unfolding list_all_iff by blast
  then have ts: "TrimSuffix (?scheme @ ''://'' @ host @ ?port) ''/'' = ?scheme @ ''://'' @ host @ ?port"
    using assms(3) by (intro TrimSuffix_id) simp
  have norm: "NormalizeEndpoint literal ?a = Inr (?scheme @ ''://'' @ host @ ?port)"
    using parsed split host ts esc assms(3,5) sch
    unfolding NormalizeEndpoint_def trim Let_def full
    by (auto simp: plain_url_def host_url_def)
  then show ?thesis
    using url_Parse_plain [OF assms(2) pp assms(3) _ sch, of "[]" literal] by (simp add: client_New_def Let_def)
qed


theorem NormalizeEndpoint_plain_witness:
  "NormalizeEndpoint (\<lambda>_. None) ''box.lan/'' = Inr ''http://box.lan:9665''
    \<and> client_New (\<lambda>_. None) ''https://box.lan:80'' = Inr (plain_url ''https'' ''box.lan:80'' [])"
proof -
  have h: "list_all unreserved ''box.lan''" "''box.lan'' \<noteq> []" by (simp_all add: unreserved_def)
  have p: "plain_port []" "plain_port '':80''" by (simp_all add: plain_port_def is_digit_def)
  from NormalizeEndpoint_plain [of "[]" "''box.lan''" "[]" "''/''" "\<lambda>_. None"] h p
    NormalizeEndpoint_plain [of "''https://''" "''box.lan''" "'':80''" "[]" "\<lambda>_. None"]
  show ?thesis by (simp add: Let_def)
qed

end
