(* ===== verification/Json.thy ===== *)
theory Json
  imports Prelude
begin

text \<open>
  What the programs use of \<^verbatim>\<open>encoding/json\<close>: the text of a value as \<^verbatim>\<open>Marshal\<close> and \<^verbatim>\<open>Encoder\<close> write it (no space,
  HTML characters escaped, invalid UTF-8 replaced) and the parser of the decoder.  A string is a list of bytes.
  The parser recurses on fuel; the length of the text is enough.

  The lemmas: what was written is what is read, up to bytes that are not UTF-8, which come back as U+FFFD
  (\<open>parse_json_encode\<close>); the fuel of the parser is enough (\<open>parse_fuel\<close>); a text has no control byte; how long it is.
\<close>

section \<open>UTF-8\<close>

definition byte_in :: "nat \<Rightarrow> nat \<Rightarrow> char \<Rightarrow> bool" where
  "byte_in lo hi c = (lo \<le> (of_char c :: nat) \<and> (of_char c :: nat) \<le> hi)"

definition cont_byte :: "char \<Rightarrow> bool" where "cont_byte c = byte_in 128 191 c"

text \<open>The length of the multi-byte sequence at the head, 0 when it is invalid.\<close>

fun rune_len :: "string \<Rightarrow> nat" where
  "rune_len [] = 0"
| "rune_len (a # s) =
     (if byte_in 194 223 a then (case s of b # _ \<Rightarrow> if cont_byte b then 2 else 0 | _ \<Rightarrow> 0)
      else if byte_in 224 239 a
      then (case s of
              b # c # _ \<Rightarrow>
                if cont_byte b \<and> cont_byte c \<and> (byte_in 224 224 a \<longrightarrow> byte_in 160 191 b)
                   \<and> (byte_in 237 237 a \<longrightarrow> byte_in 128 159 b) then 3 else 0
            | _ \<Rightarrow> 0)
      else if byte_in 240 244 a
      then (case s of
              b # c # d # _ \<Rightarrow>
                if cont_byte b \<and> cont_byte c \<and> cont_byte d \<and> (byte_in 240 240 a \<longrightarrow> byte_in 144 191 b)
                   \<and> (byte_in 244 244 a \<longrightarrow> byte_in 128 143 b) then 4 else 0
            | _ \<Rightarrow> 0)
      else 0)"

definition ascii :: "char \<Rightarrow> bool" where "ascii c = ((of_char c :: nat) < 128)"

text \<open>The first rune and the rest; \<open>None\<close> for a byte that starts none.\<close>

definition next_rune :: "char \<Rightarrow> string \<Rightarrow> (string \<times> string) option" where
  "next_rune c s =
     (if ascii c then Some ([c], s)
      else let n = rune_len (c # s) in if n = 0 then None else Some (c # take (n - 1) s, drop (n - 1) s))"

lemma next_rune_split: "next_rune c s = Some (r, t) \<Longrightarrow> c # s = r @ t \<and> length t \<le> length s"
  by (auto simp: next_rune_def Let_def split: if_splits)

function valid_utf8 :: "string \<Rightarrow> bool" where
  "valid_utf8 [] = True"
| "valid_utf8 (c # s) = (case next_rune c s of None \<Rightarrow> False | Some (_, t) \<Rightarrow> valid_utf8 t)"
  by pat_completeness auto
termination
  by (relation "measure length") (auto dest!: next_rune_split simp: less_Suc_eq_le)

text \<open>What reading makes of a string that was written: a byte that starts no rune becomes U+FFFD.\<close>

definition replacement :: string where "replacement = [CHR 0xEF, CHR 0xBF, CHR 0xBD]"

function to_valid :: "string \<Rightarrow> string" where
  "to_valid [] = []"
| "to_valid (c # s) =
     (case next_rune c s of None \<Rightarrow> replacement @ to_valid s | Some (r, t) \<Rightarrow> r @ to_valid t)"
  by pat_completeness auto
termination
  by (relation "measure length") (auto dest!: next_rune_split simp: less_Suc_eq_le)

section \<open>Strings\<close>

definition backslash :: char where "backslash = CHR 0x5C"
definition quote :: char where "quote = CHR 0x22"

definition quote_ascii :: "char \<Rightarrow> string" where
  "quote_ascii c =
     (if c = quote \<or> c = backslash then [backslash, c]
      else if c = CHR 0x08 then backslash # ''b''
      else if c = CHR 0x0C then backslash # ''f''
      else if c = CHR 0x0A then backslash # ''n''
      else if c = CHR 0x0D then backslash # ''r''
      else if c = CHR 0x09 then backslash # ''t''
      else if (of_char c :: nat) < 32 \<or> c \<in> set ''<>&''
      then backslash # ''u00'' @ [hex_char (of_char c div 16), hex_char (of_char c mod 16)]
      else [c])"

definition line_sep :: string where "line_sep = [CHR 0xE2, CHR 0x80, CHR 0xA8]"
definition para_sep :: string where "para_sep = [CHR 0xE2, CHR 0x80, CHR 0xA9]"
definition quote_rune :: "string \<Rightarrow> string" where
  "quote_rune r =
     (if r = line_sep then backslash # ''u2028''
      else if r = para_sep then backslash # ''u2029''
      else case r of [c] \<Rightarrow> quote_ascii c | _ \<Rightarrow> r)"

function quote_chars :: "string \<Rightarrow> string" where
  "quote_chars [] = []"
| "quote_chars (c # s) =
     (case next_rune c s of
        None \<Rightarrow> backslash # ''ufffd'' @ quote_chars s
      | Some (r, t) \<Rightarrow> quote_rune r @ quote_chars t)"
  by pat_completeness auto
termination
  by (relation "measure length") (auto dest!: next_rune_split simp: less_Suc_eq_le)

text \<open>The rune of a \<open>u\<close> escape as UTF-8.\<close>

definition utf8 :: "nat \<Rightarrow> string" where
  "utf8 r =
     (if r < 128 then [char_of r]
      else if r < 2048 then [char_of (192 + r div 64), char_of (128 + r mod 64)]
      else if r < 65536 then [char_of (224 + r div 4096), char_of (128 + r div 64 mod 64), char_of (128 + r mod 64)]
      else [char_of (240 + r div 262144), char_of (128 + r div 4096 mod 64), char_of (128 + r div 64 mod 64),
            char_of (128 + r mod 64)])"

fun hex4 :: "string \<Rightarrow> (nat \<times> string) option" where
  "hex4 (a # b # c # d # s) =
     (case (unhex a, unhex b, unhex c, unhex d) of
        (Some w, Some x, Some y, Some z) \<Rightarrow> Some (4096 * w + 256 * x + 16 * y + z, s)
      | _ \<Rightarrow> None)"
| "hex4 _ = None"

text \<open>After \<open>\u\<close>: a pair of surrogates is one rune, a lone surrogate is replaced.\<close>

definition unquote_u :: "string \<Rightarrow> (string \<times> string) option" where
  "unquote_u s =
     (case hex4 s of
        None \<Rightarrow> None
      | Some (r, t) \<Rightarrow>
          if 55296 \<le> r \<and> r < 57344
          then (case t of
                  x # y # t1 \<Rightarrow>
                    (if x = backslash \<and> y = CHR ''u''
                     then (case hex4 t1 of
                             None \<Rightarrow> Some (replacement, t)
                           | Some (r2, t2) \<Rightarrow>
                               if r < 56320 \<and> 56320 \<le> r2 \<and> r2 < 57344
                               then Some (utf8 (65536 + (r - 55296) * 1024 + (r2 - 56320)), t2)
                               else Some (replacement, t))
                     else Some (replacement, t))
                | _ \<Rightarrow> Some (replacement, t))
          else Some (utf8 r, t))"

definition unquote_escape :: "char \<Rightarrow> string \<Rightarrow> (string \<times> string) option" where
  "unquote_escape e s =
     (if e = quote \<or> e = backslash \<or> e = CHR ''/'' then Some ([e], s)
      else if e = CHR ''b'' then Some ([CHR 0x08], s)
      else if e = CHR ''f'' then Some ([CHR 0x0C], s)
      else if e = CHR ''n'' then Some ([CHR 0x0A], s)
      else if e = CHR ''r'' then Some ([CHR 0x0D], s)
      else if e = CHR ''t'' then Some ([CHR 0x09], s)
      else if e = CHR ''u'' then unquote_u s
      else None)"

lemma hex4_length: "hex4 s = Some (r, t) \<Longrightarrow> length t < length s"
  by (induction s rule: hex4.induct) (auto split: option.splits)

lemma unquote_u_length: "unquote_u s = Some (r, t) \<Longrightarrow> length t < length s"
  by (auto simp: unquote_u_def split: option.splits if_splits list.splits dest!: hex4_length)

lemma unquote_escape_length: "unquote_escape e s = Some (r, t) \<Longrightarrow> length t \<le> length s"
  by (auto simp: unquote_escape_def split: if_splits dest: unquote_u_length)

text \<open>The rest of a string literal after its opening quote: its content and what follows.\<close>

function parse_string :: "string \<Rightarrow> (string \<times> string) option" where
  "parse_string [] = None"
| "parse_string (c # s) =
     (if c = quote then Some ([], s)
      else if c = backslash
      then (case s of
              [] \<Rightarrow> None
            | e # s1 \<Rightarrow>
                (case unquote_escape e s1 of
                   None \<Rightarrow> None
                 | Some (r, t) \<Rightarrow> map_option (\<lambda>(x, y). (r @ x, y)) (parse_string t)))
      else if (of_char c :: nat) < 32 then None
      else case next_rune c s of
             None \<Rightarrow> map_option (\<lambda>(x, y). (replacement @ x, y)) (parse_string s)
           | Some (r, t) \<Rightarrow> map_option (\<lambda>(x, y). (r @ x, y)) (parse_string t))"
  by pat_completeness auto
termination
  by (relation "measure length") (auto dest!: next_rune_split unquote_escape_length simp: less_Suc_eq_le)

declare valid_utf8.simps(2) [simp del] to_valid.simps(2) [simp del] quote_chars.simps(2) [simp del] parse_string.simps(2) [simp del]

section \<open>Strings round trip\<close>

lemma rune_len_prefix: "rune_len s = n \<Longrightarrow> 0 < n \<Longrightarrow> n \<le> length s \<and> rune_len (take n s @ t) = n"
  by (cases s rule: rune_len.cases) (auto split: if_splits list.splits)

lemma rune_len_ge: "0 < rune_len s \<Longrightarrow> 2 \<le> rune_len s"
  by (cases s rule: rune_len.cases) (auto split: if_splits list.splits)

declare rune_len.simps(2) [simp del]

lemma next_rune_multi:
  assumes "next_rune c s = Some (r, t)" and "\<not> ascii c"
  shows "r = take (rune_len (c # s)) (c # s)" and "rune_len (c # s) = length r" and "2 \<le> length r"
proof -
  let ?n = "rune_len (c # s)"
  have n: "?n \<noteq> 0" and r: "r = c # take (?n - 1) s"
    using assms by (auto simp: next_rune_def Let_def split: if_splits)
  then have n2: "2 \<le> ?n" "?n \<le> length (c # s)"
    using rune_len_ge [of "c # s"] rune_len_prefix [of "c # s" ?n] by auto
  show "r = take ?n (c # s)" using r n2(1) by (cases ?n) auto
  then show len: "?n = length r" using n2(2) by simp
  show "2 \<le> length r" using n2(1) len by simp
qed

text \<open>A rune is read again whatever follows it.\<close>

lemma next_rune_again:
  assumes "next_rune c s = Some (r, t)"
  shows "\<exists>r'. r = c # r' \<and> next_rune c (r' @ u) = Some (r, u)"
proof (cases "ascii c")
  case True
  with assms show ?thesis by (auto simp: next_rune_def)
next
  case False
  note m = next_rune_multi [OF assms False]
  obtain r' where r: "r = c # r'" using assms False by (auto simp: next_rune_def Let_def split: if_splits)
  have "0 < length r" using m(3) by linarith
  from rune_len_prefix [OF m(2) this, of u] have "rune_len (r @ u) = length r" using m(1,2) by metis
  then show ?thesis using r m(3) False by (simp add: next_rune_def)
qed

lemma char_of_nums:
  "char_of (226 :: nat) = CHR 0xE2" "char_of (128 :: nat) = CHR 0x80" "char_of (168 :: nat) = CHR 0xA8"
  "char_of (169 :: nat) = CHR 0xA9" "char_of (239 :: nat) = CHR 0xEF" "char_of (191 :: nat) = CHR 0xBF" "char_of (189 :: nat) = CHR 0xBD"
  by (simp_all add: char_of_def bit_iff_odd)

lemma unhex_hex_char: "d < 16 \<Longrightarrow> unhex (hex_char d) = Some d"
  by (auto simp: unhex_def hex_char_def Let_def)

lemma parse_plain_rune:
  assumes "next_rune c s = Some (r, t)" and "c \<noteq> quote" and "c \<noteq> backslash" and "\<not> (of_char c :: nat) < 32"
  shows "parse_string (r @ u) = map_option (\<lambda>(x, y). (r @ x, y)) (parse_string u)"
proof -
  obtain r' where r: "r = c # r'" "next_rune c (r' @ u) = Some (r, u)" using next_rune_again [OF assms(1)] by blast
  then show ?thesis using assms(2-) by (simp add: parse_string.simps(2))
qed

lemma parse_escape:
  "parse_string (backslash # e # t) =
     (case unquote_escape e t of None \<Rightarrow> None | Some (r, y) \<Rightarrow> map_option (\<lambda>(x, z). (r @ x, z)) (parse_string y))"
  by (simp add: parse_string.simps(2) quote_def backslash_def)

lemma short_escapes:
  "unquote_escape CHR ''b'' t = Some ([CHR 0x08], t)" "unquote_escape CHR ''f'' t = Some ([CHR 0x0C], t)"
  "unquote_escape CHR ''n'' t = Some ([CHR 0x0A], t)" "unquote_escape CHR ''r'' t = Some ([CHR 0x0D], t)"
  "unquote_escape CHR ''t'' t = Some ([CHR 0x09], t)" "unquote_escape CHR ''u'' t = unquote_u t"
  "unquote_escape quote t = Some ([quote], t)" "unquote_escape backslash t = Some ([backslash], t)"
  by (simp_all add: unquote_escape_def quote_def backslash_def)

lemma quote_ascii_short:
  "quote_ascii CHR 0x08 = backslash # ''b''" "quote_ascii CHR 0x0C = backslash # ''f''"
  "quote_ascii CHR 0x0A = backslash # ''n''" "quote_ascii CHR 0x0D = backslash # ''r''"
  "quote_ascii CHR 0x09 = backslash # ''t''" "quote_ascii quote = [backslash, quote]"
  "quote_ascii backslash = [backslash, backslash]"
  by (simp_all add: quote_ascii_def quote_def backslash_def)

lemma quote_ascii_plain:
  assumes "32 \<le> (of_char c :: nat)" and "c \<noteq> quote" and "c \<noteq> backslash" and "c \<notin> set ''<>&''"
  shows "quote_ascii c = [c]"
proof -
  have "c \<noteq> CHR 0x08" "c \<noteq> CHR 0x0C" "c \<noteq> CHR 0x0A" "c \<noteq> CHR 0x0D" "c \<noteq> CHR 0x09" using assms(1) by auto
  with assms show ?thesis by (simp add: quote_ascii_def)
qed

lemma parse_quoted_ascii:
  assumes "ascii c"
  shows "parse_string (quote_ascii c @ u) = map_option (\<lambda>(x, y). (c # x, y)) (parse_string u)"
proof (cases "c = quote \<or> c = backslash \<or> (of_char c :: nat) < 32 \<or> c \<in> set ''<>&''")
  case True
  have hex: "hex4 (''00'' @ hex_char (of_char c div 16) # hex_char (of_char c mod 16) # u) = Some (of_char c, u)"
    using assms unhex_hex_char [of "of_char c div 16"] unhex_hex_char [of "of_char c mod 16"]
    by (simp add: ascii_def less_mult_imp_div_less unhex_def [of "CHR ''0''"])
  have u: "unquote_u (''00'' @ hex_char (of_char c div 16) # hex_char (of_char c mod 16) # u) = Some ([c], u)"
    using assms hex by (simp add: unquote_u_def utf8_def ascii_def)
  consider (self) "c = quote \<or> c = backslash" | (short) "c \<in> {CHR 0x08, CHR 0x0C, CHR 0x0A, CHR 0x0D, CHR 0x09}"
    | (long) "c \<notin> {quote, backslash, CHR 0x08, CHR 0x0C, CHR 0x0A, CHR 0x0D, CHR 0x09}" by blast
  then show ?thesis
  proof cases
    case self
    then show ?thesis by (elim disjE) (simp_all add: quote_ascii_short parse_escape short_escapes)
  next
    case short
    then show ?thesis
      by (elim insertE emptyE) (simp_all add: quote_ascii_short parse_escape short_escapes)
  next
    case long
    then have "quote_ascii c = backslash # CHR ''u'' # ''00'' @ [hex_char (of_char c div 16), hex_char (of_char c mod 16)]"
      using True by (simp add: quote_ascii_def)
    then show ?thesis using u by (simp add: parse_escape short_escapes)
  qed
next
  case False
  have q: "quote_ascii c = [c]" using False by (intro quote_ascii_plain) simp_all
  have "next_rune c [] = Some ([c], [])" using assms by (simp add: next_rune_def)
  from parse_plain_rune [OF this] False q show ?thesis by simp
qed

lemma quote_rune_multi:
  assumes "next_rune c s = Some (r, t)" and "\<not> ascii c"
  shows "quote_rune r = (if r = line_sep then backslash # ''u2028'' else if r = para_sep then backslash # ''u2029'' else r)"
  using next_rune_multi(3) [OF assms] by (auto simp: quote_rune_def split: list.splits)

lemma parse_quoted_rune:
  assumes "next_rune c s = Some (r, t)"
  shows "parse_string (quote_rune r @ u) = map_option (\<lambda>(x, y). (r @ x, y)) (parse_string u)"
proof (cases "ascii c")
  case True
  then have "r = [c]" using assms by (simp add: next_rune_def)
  then show ?thesis using parse_quoted_ascii [OF True] by (simp add: quote_rune_def line_sep_def para_sep_def)
next
  case False
  then have "c \<noteq> quote" "c \<noteq> backslash" "\<not> (of_char c :: nat) < 32" by (auto simp: ascii_def quote_def backslash_def)
  note raw = parse_plain_rune [OF assms this, of u]
  have "unquote_u (''2028'' @ u) = Some (line_sep, u)" "unquote_u (''2029'' @ u) = Some (para_sep, u)"
    by (simp_all add: unquote_u_def unhex_def utf8_def line_sep_def para_sep_def char_of_nums)
  then show ?thesis
    using quote_rune_multi [OF assms False] raw by (simp add: parse_escape short_escapes split: if_splits)
qed

lemma parse_string_quote_chars: "parse_string (quote_chars s @ quote # rest) = Some (to_valid s, rest)"
proof (induction s rule: quote_chars.induct)
  case 1
  then show ?case by (simp add: parse_string.simps(2))
next
  case (2 c s)
  have "unquote_u (''fffd'' @ u) = Some (replacement, u)" for u
    by (simp add: unquote_u_def unhex_def utf8_def replacement_def char_of_nums)
  then show ?case
    using 2 parse_quoted_rune [of c s]
    by (cases "next_rune c s") (auto simp: quote_chars.simps(2) to_valid.simps(2) parse_escape short_escapes)
qed

lemma to_valid_id: "valid_utf8 s \<Longrightarrow> to_valid s = s"
proof (induction s rule: valid_utf8.induct)
  case (2 c s)
  then obtain r t where n: "next_rune c s = Some (r, t)" and v: "valid_utf8 t"
    by (auto simp: valid_utf8.simps(2) split: option.splits)
  then have "to_valid (c # s) = r @ t" using "2.IH" [OF n refl v] by (simp add: to_valid.simps(2))
  then show ?case using next_rune_split [OF n] by metis
qed simp

lemma to_valid_Nil: "to_valid s = [] \<longleftrightarrow> s = []"
proof (cases s)
  case (Cons c r)
  then show ?thesis
    using next_rune_again [of c r]
    by (cases "next_rune c r") (fastforce simp: to_valid.simps(2) replacement_def)+
qed simp

section \<open>Values\<close>

datatype json = JNull | JBool bool | JNum string | JStr string | JArr "json list" | JObj "(string \<times> json) list"

fun encode :: "json \<Rightarrow> string"
and encode_elems :: "json list \<Rightarrow> string"
and encode_members :: "(string \<times> json) list \<Rightarrow> string" where
  "encode JNull = ''null''"
| "encode (JBool b) = (if b then ''true'' else ''false'')"
| "encode (JNum n) = n"
| "encode (JStr s) = quote # quote_chars s @ [quote]"
| "encode (JArr vs) = CHR ''['' # encode_elems vs"
| "encode (JObj ms) = CHR ''{'' # encode_members ms"
| "encode_elems [] = '']''"
| "encode_elems (v # vs) = encode v @ (if vs = [] then '']'' else CHR '','' # encode_elems vs)"
| "encode_members [] = ''}''"
| "encode_members ((k, v) # ms) =
     quote # quote_chars k @ [quote, CHR '':''] @ encode v @ (if ms = [] then ''}'' else CHR '','' # encode_members ms)"

definition is_ws :: "char \<Rightarrow> bool" where
  "is_ws c = (c \<in> {CHR '' '', CHR 0x09, CHR 0x0A, CHR 0x0D})"

definition skip_ws :: "string \<Rightarrow> string" where
  "skip_ws s = dropWhile is_ws s"

definition num_char :: "char \<Rightarrow> bool" where
  "num_char c = (is_digit c \<or> c \<in> set ''+-.eE'')"

definition exponent_ok :: "string \<Rightarrow> bool" where
  "exponent_ok r =
     (r = [] \<or> hd r \<in> set ''eE''
       \<and> (let t = (if tl r \<noteq> [] \<and> hd (tl r) \<in> set ''+-'' then tl (tl r) else tl r)
          in t \<noteq> [] \<and> list_all is_digit t))"

text \<open>The grammar of numbers.\<close>

definition json_number :: "string \<Rightarrow> bool" where
  "json_number s =
     (let t = (if s \<noteq> [] \<and> hd s = CHR ''-'' then tl s else s);
          ds = takeWhile is_digit t; r = dropWhile is_digit t
      in ds \<noteq> [] \<and> (hd ds = CHR ''0'' \<longrightarrow> length ds = 1)
         \<and> (if r \<noteq> [] \<and> hd r = CHR ''.'' then takeWhile is_digit (tl r) \<noteq> [] \<and> exponent_ok (dropWhile is_digit (tl r))
            else exponent_ok r))"

text \<open>Everything but strings, arrays and objects.\<close>

definition parse_scalar :: "string \<Rightarrow> (json \<times> string) option" where
  "parse_scalar s =
     (if HasPrefix s ''null'' then Some (JNull, drop 4 s)
      else if HasPrefix s ''true'' then Some (JBool True, drop 4 s)
      else if HasPrefix s ''false'' then Some (JBool False, drop 5 s)
      else if json_number (takeWhile num_char s) then Some (JNum (takeWhile num_char s), dropWhile num_char s)
      else None)"

fun parse_value :: "nat \<Rightarrow> nat \<Rightarrow> string \<Rightarrow> (json \<times> string) option"
and parse_elems :: "nat \<Rightarrow> nat \<Rightarrow> string \<Rightarrow> (json list \<times> string) option"
and parse_members :: "nat \<Rightarrow> nat \<Rightarrow> string \<Rightarrow> ((string \<times> json) list \<times> string) option" where
  "parse_value d 0 s = None"
| "parse_value d (Suc n) s =
     (case skip_ws s of
        [] \<Rightarrow> None
      | c # r \<Rightarrow>
          if c = quote then map_option (\<lambda>(x, y). (JStr x, y)) (parse_string r)
          else if d = 0 \<and> c \<in> set ''[{'' then None
          else if c = CHR ''['' then
            (case skip_ws r of
               e # r1 \<Rightarrow> if e = CHR '']'' then Some (JArr [], r1) else map_option (\<lambda>(x, y). (JArr x, y)) (parse_elems (d - 1) n r)
             | [] \<Rightarrow> None)
          else if c = CHR ''{'' then
            (case skip_ws r of
               e # r1 \<Rightarrow> if e = CHR ''}'' then Some (JObj [], r1) else map_option (\<lambda>(x, y). (JObj x, y)) (parse_members (d - 1) n r)
             | [] \<Rightarrow> None)
          else parse_scalar (c # r))"
| "parse_elems d 0 s = None"
| "parse_elems d (Suc n) s =
     (case parse_value d n s of
        None \<Rightarrow> None
      | Some (v, t) \<Rightarrow>
          (case skip_ws t of
             c # r \<Rightarrow>
               if c = CHR '']'' then Some ([v], r)
               else if c = CHR '','' then map_option (\<lambda>(x, y). (v # x, y)) (parse_elems d n r) else None
           | [] \<Rightarrow> None))"
| "parse_members d 0 s = None"
| "parse_members d (Suc n) s =
     (case skip_ws s of
        [] \<Rightarrow> None
      | q # s1 \<Rightarrow>
          if q \<noteq> quote then None
          else case parse_string s1 of
            None \<Rightarrow> None
          | Some (k, s2) \<Rightarrow>
              (case skip_ws s2 of
                 [] \<Rightarrow> None
               | col # s3 \<Rightarrow>
                   if col \<noteq> CHR '':'' then None
                   else case parse_value d n s3 of
                     None \<Rightarrow> None
                   | Some (v, t) \<Rightarrow>
                       (case skip_ws t of
                          c # r \<Rightarrow>
                            if c = CHR ''}'' then Some ([(k, v)], r)
                            else if c = CHR '','' then map_option (\<lambda>(x, y). ((k, v) # x, y)) (parse_members d n r) else None
                        | [] \<Rightarrow> None)))"

definition maxNestingDepth :: nat where "maxNestingDepth = 10000"

text \<open>\<^verbatim>\<open>Unmarshal\<close>: one value and nothing else.\<close>

definition parse_json :: "string \<Rightarrow> json option" where
  "parse_json s =
     (case parse_value maxNestingDepth (2 * length s + 1) s of Some (v, t) \<Rightarrow> if skip_ws t = [] then Some v else None | None \<Rightarrow> None)"

section \<open>Values round trip\<close>

fun json_ok :: "json \<Rightarrow> bool" where
  "json_ok (JNum n) = (json_number n \<and> list_all num_char n)"
| "json_ok (JArr vs) = list_all json_ok vs"
| "json_ok (JObj ms) = list_all (json_ok \<circ> snd) ms"
| "json_ok _ = True"

text \<open>The value that is read.\<close>

fun clean :: "json \<Rightarrow> json" where
  "clean (JStr s) = JStr (to_valid s)"
| "clean (JArr vs) = JArr (map clean vs)"
| "clean (JObj ms) = JObj (map (\<lambda>(k, v). (to_valid k, clean v)) ms)"
| "clean v = v"

fun json_utf8 :: "json \<Rightarrow> bool" where
  "json_utf8 (JStr s) = valid_utf8 s"
| "json_utf8 (JArr vs) = list_all json_utf8 vs"
| "json_utf8 (JObj ms) = list_all (\<lambda>(k, v). valid_utf8 k \<and> json_utf8 v) ms"
| "json_utf8 _ = True"

lemma clean_id: "json_utf8 v \<Longrightarrow> clean v = v"
proof (induction v rule: json_utf8.induct)
  case (2 vs)
  then show ?case by (induction vs) simp_all
next
  case (3 ms)
  then show ?case by (induction ms) (auto simp: to_valid_id)
qed (simp_all add: to_valid_id)

text \<open>The fuel a value needs.\<close>

fun jsize :: "json \<Rightarrow> nat" and jsize_elems :: "json list \<Rightarrow> nat" and jsize_members :: "(string \<times> json) list \<Rightarrow> nat" where
  "jsize (JArr vs) = Suc (jsize_elems vs)"
| "jsize (JObj ms) = Suc (jsize_members ms)"
| "jsize _ = 1"
| "jsize_elems [] = 0"
| "jsize_elems (v # vs) = Suc (jsize v + jsize_elems vs)"
| "jsize_members [] = 0"
| "jsize_members ((k, v) # ms) = Suc (jsize v + jsize_members ms)"

fun jdepth :: "json \<Rightarrow> nat" where
  "jdepth (JArr vs) = Suc (foldr (max \<circ> jdepth) vs 0)"
| "jdepth (JObj ms) = Suc (foldr (max \<circ> jdepth \<circ> snd) ms 0)"
| "jdepth _ = 0"

definition num_end :: "string \<Rightarrow> bool" where
  "num_end rest = (rest = [] \<or> \<not> num_char (hd rest))"


declare parse_value.simps(2) [simp del] parse_elems.simps(2) [simp del] parse_members.simps(2) [simp del]

lemma skip_ws_length: "length (skip_ws s) \<le> length s"
  by (simp add: skip_ws_def length_dropWhile_le)

lemma parse_string_length: "parse_string s = Some (x, t) \<Longrightarrow> length t < length s"
proof (induction "length s" arbitrary: s x t rule: less_induct)
  case less
  then obtain c s1 where s: "s = c # s1" by (cases s) simp_all
  have step: "parse_string u = Some (y, t) \<Longrightarrow> length u \<le> length s1 \<Longrightarrow> length t < Suc (length s1)" for u y
    using less.hyps [of u y t] s by simp
  consider "c = quote" | "c = backslash" "c \<noteq> quote" | "c \<noteq> quote" "c \<noteq> backslash" by blast
  then show ?case
  proof cases
    case 1
    with less.prems s show ?thesis by (simp add: parse_string.simps(2))
  next
    case 2
    with less.prems s obtain e s2 r u y where "s1 = e # s2" "unquote_escape e s2 = Some (r, u)" "parse_string u = Some (y, t)"
      by (auto simp: parse_string.simps(2) [of backslash s1] split: list.splits option.splits)
    then show ?thesis using step [of u y] s by (simp add: unquote_escape_length le_SucI)
  next
    case 3
    with less.prems s show ?thesis
      by (auto simp: parse_string.simps(2) [of c s1] split: if_splits option.splits dest: next_rune_split step [rotated] step [OF _ order.refl])
  qed
qed

lemma skip_ws_Suc: "skip_ws s = c # r \<Longrightarrow> length r < length s"
  using skip_ws_length [of s] by simp

lemma parse_scalar_length: "parse_scalar (c # r) = Some (v, t) \<Longrightarrow> length t \<le> length r"
proof -
  have "json_number (takeWhile num_char (c # r)) \<Longrightarrow> length (dropWhile num_char (c # r)) \<le> length r"
    by (auto simp: json_number_def length_dropWhile_le split: if_splits)
  moreover assume "parse_scalar (c # r) = Some (v, t)"
  ultimately show ?thesis
    by (auto simp del: takeWhile.simps dropWhile.simps simp: parse_scalar_def split: if_splits)
qed

lemma parse_shortens:
  "parse_value d n s = Some (v, t) \<Longrightarrow> length t < length s"
  "parse_elems d n s = Some (vs, t) \<Longrightarrow> length t < length s"
  "parse_members d n s = Some (ms, t) \<Longrightarrow> length t < length s"
proof (induction d n s and d n s and d n s arbitrary: v t and vs t and ms t rule: parse_value_parse_elems_parse_members.induct)
  case (2 d n s)
  then obtain c r where cr: "skip_ws s = c # r" by (auto simp: parse_value.simps(2) split: list.splits)
  have "length t \<le> length r"
    using 2 cr
    by (auto simp: parse_value.simps(2) split: if_splits list.splits
        dest!: parse_string_length skip_ws_Suc dest: parse_scalar_length intro: less_imp_le)
  then show ?case using skip_ws_Suc [OF cr] by simp
next
  case (4 d n s)
  then show ?case by (fastforce simp: parse_elems.simps(2) split: if_splits list.splits option.splits dest!: skip_ws_Suc)
next
  case (6 d n s)
  then show ?case
    by (fastforce simp: parse_members.simps(2) split: if_splits list.splits option.splits dest!: skip_ws_Suc parse_string_length)
qed simp_all

text \<open>The fuel of \<^const>\<open>parse_json\<close> is enough: more changes nothing.\<close>

lemma parse_fuel:
  "2 * length s < n \<Longrightarrow> 2 * length s < m \<Longrightarrow> parse_value d n s = parse_value d m s"
  "2 * length s + 1 < n \<Longrightarrow> 2 * length s + 1 < m \<Longrightarrow> parse_elems d n s = parse_elems d m s"
  "2 * length s + 1 < n \<Longrightarrow> 2 * length s + 1 < m \<Longrightarrow> parse_members d n s = parse_members d m s"
proof (induction n arbitrary: d s m)
  case (Suc n)
  { case 1
    then obtain k where m: "m = Suc k" "2 * length s \<le> k" by (cases m) auto
    have "skip_ws s = c # r \<Longrightarrow> parse_elems e n r = parse_elems e k r \<and> parse_members e n r = parse_members e k r" for e c r
      using Suc.IH(2,3) [of r k e] skip_ws_Suc [of s c r] 1 m by simp
    then show ?case unfolding m parse_value.simps(2) by (auto split: list.splits)
  next
    case 2
    then obtain k where m: "m = Suc k" "2 * length s + 1 \<le> k" by (cases m) auto
    have v: "parse_value d n s = parse_value d k s" using Suc.IH(1) [of s k d] 2 m by simp
    have "skip_ws t = c # r \<Longrightarrow> parse_value d k s = Some (v, t) \<Longrightarrow> parse_elems d n r = parse_elems d k r" for v t c r
      using Suc.IH(2) [of r k d] parse_shortens(1) [of d k s v t] skip_ws_Suc [of t c r] 2 m by simp
    then show ?case unfolding m parse_elems.simps(2) v by (auto split: option.splits list.splits)
  next
    case 3
    then obtain k where m: "m = Suc k" "2 * length s + 1 \<le> k" by (cases m) auto
    have v: "length u < length s \<Longrightarrow> parse_value d n u = parse_value d k u" for u
      using Suc.IH(1) [of u k d] 3 m by simp
    have r: "length u < length s \<Longrightarrow> parse_members d n u = parse_members d k u" for u
      using Suc.IH(3) [of u k d] 3 m by simp
    have less: "length u < length s" if "skip_ws s = q # s1" "parse_string s1 = Some (x, s2)" "skip_ws s2 = c # u" for q s1 x s2 c u
      using skip_ws_Suc [OF that(1)] parse_string_length [OF that(2)] skip_ws_Suc [OF that(3)] by simp
    show ?case unfolding m parse_members.simps(2)
      by (auto split: option.splits list.splits simp: v less r dest!: parse_shortens(1) skip_ws_Suc parse_string_length dest: less) }
qed simp_all

lemma skip_ws_Cons [simp]: "\<not> is_ws c \<Longrightarrow> skip_ws (c # s) = c # s"
  by (simp add: skip_ws_def)

lemma is_ws_punct [simp]: "\<not> is_ws quote" "\<not> is_ws CHR ''[''" "\<not> is_ws CHR '']''" "\<not> is_ws CHR ''{''" "\<not> is_ws CHR ''}''"
  "\<not> is_ws CHR '',''" "\<not> is_ws CHR '':''" "\<not> is_ws CHR ''n''" "\<not> is_ws CHR ''t''" "\<not> is_ws CHR ''f''"
  by (simp_all add: is_ws_def quote_def)

lemma json_number_head:
  assumes "json_number n"
  obtains c r where "n = c # r" and "c = CHR ''-'' \<or> is_digit c"
proof (cases n)
  case Nil
  with assms show ?thesis by (simp add: json_number_def)
next
  case (Cons c r)
  with assms have "c = CHR ''-'' \<or> is_digit c" by (auto simp: json_number_def Let_def split: if_splits)
  with Cons show ?thesis by (rule that)
qed

lemma num_start:
  assumes "c = CHR ''-'' \<or> is_digit c"
  shows "\<not> is_ws c \<and> c \<noteq> quote \<and> c \<notin> set ''[]{}ntf''"
  using assms by (auto simp: is_ws_def quote_def is_digit_def)

lemma parse_num:
  assumes "json_number n" and "list_all num_char n" and "num_end rest"
  shows "parse_value d (Suc k) (n @ rest) = Some (JNum n, rest)"
proof -
  obtain c r where n: "n = c # r" and c: "c = CHR ''-'' \<or> is_digit c" using assms(1) by (rule json_number_head)
  have "takeWhile num_char (n @ rest) = n" "dropWhile num_char (n @ rest) = rest"
    using assms(2,3) by (cases rest; auto simp: num_end_def list_all_iff takeWhile_append dropWhile_append)+
  then show ?thesis
    using num_start [OF c] assms(1) n by (simp add: parse_value.simps(2) parse_scalar_def HasPrefix_def)
qed

lemma quote_ne [simp]: "quote \<noteq> CHR '']''" "quote \<noteq> CHR ''}''" "CHR ''['' \<noteq> quote" "CHR ''{'' \<noteq> quote"
  by (simp_all add: quote_def)

lemma encode_head:
  assumes "json_ok v"
  shows "\<exists>c r. encode v = c # r \<and> \<not> is_ws c \<and> c \<noteq> CHR '']''"
proof (cases v)
  case (JNum n)
  then obtain c r where "n = c # r" and "c = CHR ''-'' \<or> is_digit c"
    using assms json_number_head by auto
  with JNum num_start [of c] show ?thesis by auto
qed auto

lemma num_end_punct [simp]: "num_end (CHR '','' # s)" "num_end (CHR '']'' # s)" "num_end (CHR ''}'' # s)"
  by (simp_all add: num_end_def num_char_def is_digit_def)

lemma parse_array:
  assumes "vs \<noteq> [] \<Longrightarrow> parse_elems d n (encode_elems vs @ rest) = Some (map clean vs, rest)" and "list_all json_ok vs"
  shows "parse_value (Suc d) (Suc n) (encode (JArr vs) @ rest) = Some (clean (JArr vs), rest)"
proof (cases vs)
  case Nil
  then show ?thesis by (simp add: parse_value.simps(2))
next
  case (Cons v ws)
  obtain c r where c: "encode v = c # r" "\<not> is_ws c" "c \<noteq> CHR '']''" using encode_head [of v] assms(2) Cons by auto
  moreover from this obtain r' where "encode_elems vs = c # r'" using Cons by simp
  ultimately show ?thesis using assms(1) Cons by (simp add: parse_value.simps(2))
qed

lemma parse_map:
  assumes "ms \<noteq> [] \<Longrightarrow> parse_members d n (encode_members ms @ rest) = Some (map (\<lambda>(k, v). (to_valid k, clean v)) ms, rest)"
  shows "parse_value (Suc d) (Suc n) (encode (JObj ms) @ rest) = Some (clean (JObj ms), rest)"
proof (cases ms)
  case Nil
  then show ?thesis by (simp add: parse_value.simps(2))
next
  case (Cons kv ws)
  then obtain r where "encode_members ms = quote # r" by (cases kv) simp
  then show ?thesis using assms Cons by (simp add: parse_value.simps(2))
qed

lemma parse_encode:
  "jsize v \<le> n \<Longrightarrow> jdepth v \<le> d \<Longrightarrow> json_ok v \<Longrightarrow> num_end rest \<Longrightarrow> parse_value d n (encode v @ rest) = Some (clean v, rest)"
  "vs \<noteq> [] \<Longrightarrow> jsize_elems vs \<le> n \<Longrightarrow> foldr (max \<circ> jdepth) vs 0 \<le> d \<Longrightarrow> list_all json_ok vs \<Longrightarrow>
     parse_elems d n (encode_elems vs @ rest) = Some (map clean vs, rest)"
  "ms \<noteq> [] \<Longrightarrow> jsize_members ms \<le> n \<Longrightarrow> foldr (max \<circ> jdepth \<circ> snd) ms 0 \<le> d \<Longrightarrow> list_all (json_ok \<circ> snd) ms \<Longrightarrow>
     parse_members d n (encode_members ms @ rest) = Some (map (\<lambda>(k, v). (to_valid k, clean v)) ms, rest)"
proof (induction v and vs and ms arbitrary: d n rest and d n rest and d n rest rule: encode_encode_elems_encode_members.induct)
  case 1
  then show ?case by (cases n) (simp_all add: parse_value.simps(2) parse_scalar_def HasPrefix_def quote_def)
next
  case (2 b)
  then show ?case by (cases n; cases b) (simp_all add: parse_value.simps(2) parse_scalar_def HasPrefix_def quote_def)
next
  case (3 m)
  then show ?case by (cases n) (simp_all add: parse_num)
next
  case (4 s)
  then show ?case by (cases n) (simp_all add: parse_value.simps(2) parse_string_quote_chars)
next
  case (5 vs)
  then obtain k e where n: "n = Suc k" "jsize_elems vs \<le> k" "d = Suc e" by (cases n; cases d) auto
  have "foldr (max \<circ> jdepth) vs 0 \<le> e" "list_all json_ok vs" using "5.prems"(2,3) n(3) by simp_all
  then show ?case unfolding n using "5.IH" n(2) by (intro parse_array) blast
next
  case (6 ms)
  then obtain k e where n: "n = Suc k" "jsize_members ms \<le> k" "d = Suc e" by (cases n; cases d) auto
  have "foldr (max \<circ> jdepth \<circ> snd) ms 0 \<le> e" "list_all (json_ok \<circ> snd) ms" using "6.prems"(2,3) n(3) by simp_all
  then show ?case unfolding n using "6.IH" n(2) by (intro parse_map) blast
next
  case (8 v vs)
  then obtain k where n: "n = Suc k" "jsize v \<le> k" "jsize_elems vs \<le> k" by (cases n) auto
  show ?case
    using 8 n by (cases "vs = []") (simp_all add: parse_elems.simps(2))
next
  case (10 k v ms)
  then obtain j where n: "n = Suc j" "jsize v \<le> j" "jsize_members ms \<le> j" by (cases n) auto
  show ?case
    using 10 n by (cases "ms = []") (simp_all add: parse_members.simps(2) parse_string_quote_chars)
qed simp_all

lemma jsize_le_length:
  "json_ok v \<Longrightarrow> jsize v \<le> length (encode v)"
  "list_all json_ok vs \<Longrightarrow> jsize_elems vs \<le> length (encode_elems vs)"
  "list_all (json_ok \<circ> snd) ms \<Longrightarrow> jsize_members ms \<le> length (encode_members ms)"
  by (induction v and vs and ms rule: encode_encode_elems_encode_members.induct)
     (auto simp: Suc_le_eq elim: json_number_head)

lemma parse_json_encode: "json_ok v \<Longrightarrow> jdepth v \<le> maxNestingDepth \<Longrightarrow> parse_json (encode v) = Some (clean v)"
proof -
  assume ok: "json_ok v" "jdepth v \<le> maxNestingDepth"
  have "parse_value maxNestingDepth (2 * length (encode v) + 1) (encode v @ []) = Some (clean v, [])"
    using ok jsize_le_length(1) [of v] by (intro parse_encode(1)) (simp_all add: num_end_def)
  then show ?thesis by (simp add: parse_json_def skip_ws_def)
qed

section \<open>The bytes of a text\<close>

text \<open>A text has no control byte, so a newline ends it.\<close>

definition printable :: "char \<Rightarrow> bool" where "printable c = (32 \<le> (of_char c :: nat))"

lemma byte_in_printable:
  "byte_in 194 223 c \<Longrightarrow> printable c" "byte_in 224 239 c \<Longrightarrow> printable c" "byte_in 240 244 c \<Longrightarrow> printable c"
  "cont_byte c \<Longrightarrow> printable c"
  by (simp_all add: cont_byte_def byte_in_def printable_def)

lemma rune_len_high: "list_all printable (take (rune_len s) s)"
proof (cases s)
  case (Cons a r)
  then show ?thesis by (simp add: rune_len.simps(2) byte_in_printable split: list.split)
qed simp

lemma rune_high: "\<not> ascii c \<Longrightarrow> next_rune c s = Some (r, t) \<Longrightarrow> list_all printable r"
  using next_rune_multi(1) [of c s r t] rune_len_high [of "c # s"] by simp

lemma printable_hex: "d < 16 \<Longrightarrow> printable (hex_char d)"
  by (auto simp: printable_def hex_char_def)

lemma printable_consts: "printable backslash" "printable quote" "list_all printable ''u00''" "list_all printable ''bfnrt''"
  "list_all printable ''u2028''" "list_all printable ''u2029''" "list_all printable ''ufffd''"
  by (simp_all add: printable_def quote_def backslash_def)

lemma quote_ascii_bytes:
  assumes "ascii c"
  shows "list_all printable (quote_ascii c) \<and> length (quote_ascii c) \<le> 6"
proof -
  consider (self) "c = quote \<or> c = backslash" | (short) "c \<in> {CHR 0x08, CHR 0x0C, CHR 0x0A, CHR 0x0D, CHR 0x09}"
    | (long) "c \<notin> {quote, backslash, CHR 0x08, CHR 0x0C, CHR 0x0A, CHR 0x0D, CHR 0x09}"
      "(of_char c :: nat) < 32 \<or> c \<in> set ''<>&''"
    | (raw) "32 \<le> (of_char c :: nat)" "c \<noteq> quote" "c \<noteq> backslash" "c \<notin> set ''<>&''"
    unfolding not_less [symmetric] by blast
  then show ?thesis
  proof cases
    case self
    then show ?thesis using printable_consts by (elim disjE) (simp_all add: quote_ascii_short)
  next
    case short
    then show ?thesis using printable_consts by (elim insertE emptyE) (simp_all add: quote_ascii_short)
  next
    case long
    then have "quote_ascii c = backslash # ''u00'' @ [hex_char (of_char c div 16), hex_char (of_char c mod 16)]"
      by (simp add: quote_ascii_def)
    then show ?thesis
      using assms printable_consts printable_hex [of "of_char c div 16"] printable_hex [of "of_char c mod 16"]
      by (simp add: ascii_def less_mult_imp_div_less)
  next
    case raw
    then show ?thesis by (simp add: quote_ascii_plain printable_def)
  qed
qed

lemma quote_rune_bytes:
  assumes "next_rune c s = Some (r, t)"
  shows "list_all printable (quote_rune r) \<and> length (quote_rune r) \<le> 6 * length r"
proof (cases "ascii c")
  case True
  then show ?thesis using quote_ascii_bytes [of c] assms by (auto simp: next_rune_def quote_rune_def line_sep_def para_sep_def)
next
  case False
  then have r: "2 \<le> length r" "list_all printable r" using next_rune_multi(3) rune_high assms by auto
  show ?thesis using r printable_consts unfolding quote_rune_multi [OF assms False] by (auto simp: line_sep_def para_sep_def)
qed

lemma quote_chars_bytes: "list_all printable (quote_chars s) \<and> length (quote_chars s) \<le> 6 * length s"
proof (induction s rule: quote_chars.induct)
  case (2 c s)
  show ?case
  proof (cases "next_rune c s")
    case None
    then show ?thesis using "2.IH"(1) printable_consts by (simp add: quote_chars.simps(2))
  next
    case (Some p)
    obtain r t where rt: "p = (r, t)" by (cases p)
    have "length (c # s) = length r + length t" using next_rune_split [of c s r t] Some rt by (metis length_append)
    then show ?thesis using "2.IH"(2) [OF Some rt [symmetric]] quote_rune_bytes [of c s r t] Some rt
      by (auto simp: quote_chars.simps(2))
  qed
qed simp

text \<open>Texts the encoder writes as they are.\<close>

definition plain :: "char \<Rightarrow> bool" where
  "plain c = (ascii c \<and> printable c \<and> c \<notin> {quote, backslash} \<and> c \<notin> set ''<>&'')"

lemma plainI:
  assumes "32 \<le> (of_char c :: nat)" and "(of_char c :: nat) < 128" and "of_char c \<notin> {34, 92, 60, 62, 38 :: nat}"
  shows "plain c"
proof -
  have "c \<noteq> quote \<and> c \<noteq> backslash \<and> c \<noteq> CHR ''<'' \<and> c \<noteq> CHR ''>'' \<and> c \<noteq> CHR ''&''"
    using assms(3) by (auto simp: quote_def backslash_def)
  with assms(1,2) show ?thesis by (simp add: plain_def ascii_def printable_def)
qed

lemma quote_chars_plain: "list_all plain s \<Longrightarrow> quote_chars s = s \<and> valid_utf8 s"
proof (induction s)
  case (Cons c s)
  then have "next_rune c s = Some ([c], s)" by (simp add: next_rune_def plain_def)
  moreover have "quote_ascii c = [c]"
    using Cons.prems by (intro quote_ascii_plain) (simp_all add: plain_def printable_def)
  ultimately show ?case
    using Cons by (auto simp: quote_chars.simps(2) valid_utf8.simps(2) quote_rune_def line_sep_def para_sep_def)
qed simp

section \<open>Integers\<close>

lemma dec_head: "n \<noteq> 0 \<Longrightarrow> hd (dec n) \<noteq> CHR ''0''"
proof (induction n rule: dec.induct)
  case (1 n)
  have "n < 10 \<Longrightarrow> digit_char n \<noteq> CHR ''0''"
    using 1 by (auto simp: digit_char_def dest!: arg_cong [where f = "of_char :: char \<Rightarrow> nat"])
  with 1 show ?case by (subst dec.simps) auto
qed

lemma dec_number: "json_number (dec n)" "json_number (CHR ''-'' # dec n)"
proof -
  obtain c r where cr: "dec n = c # r" by (cases "dec n") simp_all
  then have "c \<noteq> CHR ''-''" using dec_digits [of n] digit_not_sign [of c] by simp
  moreover have "c = CHR ''0'' \<Longrightarrow> r = []" using dec_head [of n] cr by (cases "n = 0") (auto simp: dec.simps)
  ultimately show "json_number (dec n)" "json_number (CHR ''-'' # dec n)"
    using dec_digits [of n] cr by (auto simp: json_number_def exponent_ok_def Let_def list_all_iff takeWhile_eq_all_conv [THEN iffD2])
qed

lemma json_number_fmt_int: "json_number (fmt_int i) \<and> list_all num_char (fmt_int i)"
  using dec_number dec_digits [of "nat i"] dec_digits [of "nat (- i)"] by (auto simp: fmt_int_def num_char_def list_all_iff)

lemma printable_punct: "printable CHR '':''" "printable CHR '',''" "printable CHR ''}''"
  by (simp_all add: printable_def)

lemma encode_printable:
  "json_ok v \<Longrightarrow> list_all printable (encode v)"
  "list_all json_ok vs \<Longrightarrow> list_all printable (encode_elems vs)"
  "list_all (json_ok \<circ> snd) ms \<Longrightarrow> list_all printable (encode_members ms)"
proof (induction v and vs and ms rule: encode_encode_elems_encode_members.induct)
  case (3 n)
  have "num_char c \<Longrightarrow> printable c" for c by (auto simp: num_char_def printable_def is_digit_def)
  with 3 show ?case by (auto simp: list_all_iff)
next
  case (4 s)
  then show ?case using quote_chars_bytes [of s] printable_consts by simp
next
  case (10 k v ms)
  then show ?case using quote_chars_bytes [of k] printable_consts by (simp add: printable_punct)
qed (simp_all add: printable_def)

lemma encode_members_length:
  "length (encode_members ms) \<le> 1 + sum_list (map (\<lambda>(k, v). 6 * length k + 4 + length (encode v)) ms)"
proof (induction ms)
  case (Cons kv ms)
  then show ?case using quote_chars_bytes [of "fst kv"] by (cases kv; cases ms) auto
qed simp

lemma dec_length: "n < 10 ^ k \<Longrightarrow> 0 < k \<Longrightarrow> length (dec n) \<le> k"
proof (induction n arbitrary: k rule: dec.induct)
  case (1 n)
  show ?case
  proof (cases "n < 10")
    case True
    with 1 show ?thesis by (subst dec.simps) simp
  next
    case False
    with 1 obtain j where k: "k = Suc j" "0 < j" by (cases k; cases "k - 1") auto
    with 1 False have "length (dec (n div 10)) \<le> j" by (intro "1.IH") auto
    with False k show ?thesis by (subst dec.simps) simp
  qed
qed

lemma fmt_int_length: "int64_range i \<Longrightarrow> length (fmt_int i) \<le> 20"
proof -
  assume i: "int64_range i"
  have "length (dec n) \<le> 19" if "n \<le> 2 ^ 63" for n using that by (intro dec_length) simp_all
  moreover have "nat i \<le> 2 ^ 63" "nat (- i) \<le> 2 ^ 63" using i by (simp_all add: int64_range_def nat_le_iff)
  ultimately have "length (dec (nat i)) \<le> 19" "length (dec (nat (- i))) \<le> 19" by blast+
  then show ?thesis by (simp add: fmt_int_def)
qed

end
