(* ===== verification/JsonPrefix.thy ===== *)
theory JsonPrefix
  imports Json
begin

text \<open>
  What the parser accepts it accepts with any continuation, so no proper prefix of the text of an object is read as a
  value: a reader that cuts a text off reports an error and never a different value.
\<close>

section \<open>Strings\<close>

lemma quote_not_special: "\<not> cont_byte quote" "unhex quote = None" "quote \<noteq> backslash" "backslash \<noteq> quote"
  by (simp_all add: cont_byte_def byte_in_def quote_def backslash_def unhex_def Let_def)

lemma hex4_set: "hex4 s = Some (r, t) \<Longrightarrow> set t \<subseteq> set s"
  by (induction s rule: hex4.induct) (auto split: option.splits)

lemma unquote_u_set: "unquote_u s = Some (r, t) \<Longrightarrow> set t \<subseteq> set s"
  by (auto simp: unquote_u_def split: option.splits if_splits list.splits dest!: hex4_set) (blast dest: subsetD)+

lemma unquote_escape_set: "unquote_escape e s = Some (r, t) \<Longrightarrow> set t \<subseteq> set s"
  using unquote_u_set by (auto simp: unquote_escape_def split: if_splits)

lemma next_rune_set: "next_rune c s = Some (r, t) \<Longrightarrow> set t \<subseteq> set s"
  by (auto simp: next_rune_def Let_def split: if_splits dest: in_set_dropD)

text \<open>The ways a string literal is read.\<close>

lemma parse_string_cases:
  assumes "parse_string s = Some (x, t)"
  obtains (end_quote) "s = quote # t" "x = []"
  | (escape) e s1 r u y where "s = backslash # e # s1" "unquote_escape e s1 = Some (r, u)" "parse_string u = Some (y, t)" "x = r @ y"
  | (rune) c s1 r u y where "s = c # s1" "c \<noteq> quote" "c \<noteq> backslash" "\<not> (of_char c :: nat) < 32" "next_rune c s1 = Some (r, u)"
      "parse_string u = Some (y, t)" "x = r @ y"
  | (bad) c s1 y where "s = c # s1" "c \<noteq> quote" "c \<noteq> backslash" "\<not> (of_char c :: nat) < 32" "next_rune c s1 = None"
      "parse_string s1 = Some (y, t)" "x = replacement @ y"
proof -
  obtain c s1 where s: "s = c # s1" using assms by (cases s) simp_all
  consider "c = quote" | "c = backslash" | "c \<noteq> quote" "c \<noteq> backslash" by blast
  then show ?thesis
  proof cases
    case 1
    then show ?thesis using assms s end_quote by (simp add: parse_string.simps(2))
  next
    case 2
    then show ?thesis using assms s escape by (cases s1) (auto simp: parse_string.simps(2) quote_not_special split: option.splits)
  next
    case 3
    then show ?thesis using assms s rune [of c s1] bad [of c s1] by (auto simp: parse_string.simps(2) split: option.splits if_splits)
  qed
qed

lemma parse_string_has_quote: "parse_string s = Some (x, t) \<Longrightarrow> quote \<in> set s"
proof (induction "length s" arbitrary: s x t rule: less_induct)
  case less
  note IH = less.hyps
  from less.prems show ?case
  proof (cases rule: parse_string_cases)
    case (escape e s1 r u y)
    then show ?thesis using IH [of u y t] unquote_escape_length unquote_escape_set by fastforce
  next
    case (rune c s1 r u y)
    then have "length u < length s" using next_rune_split [OF rune(5), THEN conjunct2] by simp
    then show ?thesis using IH [OF _ rune(6)] next_rune_set [OF rune(5)] rune(1) by auto
  next
    case (bad c s1 y)
    then show ?thesis using IH [of s1 y t] by simp
  qed simp
qed

lemma rune_len_extend: "quote \<in> set s \<Longrightarrow> rune_len (c # s @ u) = rune_len (c # s)"
  by (cases s; cases "tl s"; cases "tl (tl s)")
    (auto simp: rune_len.simps(2) quote_not_special split: list.splits)

lemma rune_len_drop: "rune_len (c # s) - 1 \<le> length s"
  using rune_len_prefix [of "c # s"] by (cases "rune_len (c # s)") auto

lemma next_rune_extend: "quote \<in> set s \<Longrightarrow> next_rune c (s @ u) = map_option (\<lambda>(r, t). (r, t @ u)) (next_rune c s)"
  using rune_len_drop [of c s] by (simp add: next_rune_def Let_def rune_len_extend)

lemma hex4_extend: "quote \<in> set s \<Longrightarrow> hex4 (s @ u) = map_option (\<lambda>(r, t). (r, t @ u)) (hex4 s)"
proof (cases "\<exists>a b c d t. s = a # b # c # d # t")
  case False
  assume q: "quote \<in> set s"
  with False consider "s = [quote]" | a where "s = [a, quote] \<or> s = [quote, a]"
    | a b where "s = [quote, a, b] \<or> s = [a, quote, b] \<or> s = [a, b, quote]"
    by (cases s; cases "tl s"; cases "tl (tl s)"; cases "tl (tl (tl s))") auto
  then show ?thesis
    by cases (cases u; cases "tl u"; cases "tl (tl u)"; auto simp: quote_not_special split: option.splits)+
qed (auto split: option.splits)

lemma unquote_u_extend:
  assumes "unquote_u s = Some (r, t)" and "quote \<in> set t"
  shows "unquote_u (s @ u) = Some (r, t @ u)"
proof -
  from assms(1) obtain n t0 where h: "hex4 s = Some (n, t0)" by (auto simp: unquote_u_def split: option.splits)
  have "quote \<in> set s" using assms unquote_u_set by blast
  with h have h': "hex4 (s @ u) = Some (n, t0 @ u)" by (simp add: hex4_extend)
  show ?thesis
  proof (cases "55296 \<le> n \<and> n < 57344")
    case False
    then show ?thesis using assms(1) h h' by (auto simp: unquote_u_def split: if_splits)
  next
    case True
    have "quote \<in> set t0"
      using assms h True by (auto simp: unquote_u_def split: list.splits option.splits if_splits dest!: hex4_set)
    then consider "t0 = [quote]" | a b t1 where "t0 = a # b # t1" by (cases t0; cases "tl t0") auto
    then show ?thesis
    proof cases
      case 1
      then show ?thesis using assms(1) h h' True by (auto simp: unquote_u_def quote_not_special split: list.splits)
    next
      case 2
      show ?thesis
      proof (cases "a = backslash \<and> b = CHR ''u''")
        case True
        then have "quote \<in> set t1" using \<open>quote \<in> set t0\<close> 2 by (auto simp: quote_not_special) (simp add: quote_def)
        then show ?thesis using assms(1) h h' \<open>55296 \<le> n \<and> n < 57344\<close> 2 True
          by (auto simp: unquote_u_def hex4_extend split: option.splits if_splits)
      next
        case False
        then show ?thesis using assms(1) h h' \<open>55296 \<le> n \<and> n < 57344\<close> 2 by (auto simp: unquote_u_def)
      qed
    qed
  qed
qed

lemma unquote_escape_short:
  "e \<noteq> CHR ''u'' \<Longrightarrow> unquote_escape e (s @ u) = map_option (\<lambda>(r, t). (r, t @ u)) (unquote_escape e s)"
  by (simp add: unquote_escape_def)

lemma unquote_escape_extend:
  "unquote_escape e s = Some (r, t) \<Longrightarrow> quote \<in> set t \<Longrightarrow> unquote_escape e (s @ u) = Some (r, t @ u)"
  by (cases "e = CHR ''u''") (simp_all add: short_escapes unquote_u_extend unquote_escape_short)

lemma parse_string_extend: "parse_string s = Some (x, t) \<Longrightarrow> parse_string (s @ u) = Some (x, t @ u)"
proof (induction "length s" arbitrary: s x t rule: less_induct)
  case less
  note IH = less.hyps
  from less.prems show ?case
  proof (cases rule: parse_string_cases)
    case end_quote
    then show ?thesis by (simp add: parse_string.simps(2))
  next
    case (escape e s1 r v y)
    then have "parse_string (v @ u) = Some (y, t @ u)" using IH [of v y t] unquote_escape_length by fastforce
    then show ?thesis
      using escape unquote_escape_extend [OF escape(2) parse_string_has_quote [OF escape(3)]] by (simp add: parse_escape)
  next
    case (rune c s1 r v y)
    then have "length v < length s" using next_rune_split [OF rune(5), THEN conjunct2] by simp
    then have "parse_string (v @ u) = Some (y, t @ u)" using IH [OF _ rune(6)] by blast
    moreover have "quote \<in> set s1" using parse_string_has_quote [OF rune(6)] next_rune_set [OF rune(5)] by blast
    ultimately show ?thesis using rune by (simp add: parse_string.simps(2) next_rune_extend)
  next
    case (bad c s1 y)
    then have "parse_string (s1 @ u) = Some (y, t @ u)" using IH [of s1 y t] by simp
    then show ?thesis using bad parse_string_has_quote [OF bad(6)] by (simp add: parse_string.simps(2) next_rune_extend)
  qed
qed

section \<open>Values\<close>

definition is_num :: "json \<Rightarrow> bool" where "is_num v = (case v of JNum _ \<Rightarrow> True | _ \<Rightarrow> False)"

lemma skip_ws_extend: "skip_ws s = c # r \<Longrightarrow> skip_ws (s @ u) = c # r @ u"
proof -
  assume a: "skip_ws s = c # r"
  then have "\<exists>x \<in> set s. \<not> is_ws x" unfolding skip_ws_def by (metis dropWhile_eq_Nil_conv list.distinct(1))
  with a show ?thesis by (auto simp: skip_ws_def dropWhile_append)
qed

lemma parse_scalar_extend:
  assumes "parse_scalar s = Some (v, r)" and "r \<noteq> [] \<or> \<not> is_num v"
  shows "parse_scalar (s @ u) = Some (v, r @ u)"
proof -
  have lit: "HasPrefix s p \<Longrightarrow> s = p @ drop (length p) s" for p by (auto simp: HasPrefix_iff)
  consider (null) t where "s = ''null'' @ t" | (tru) t where "s = ''true'' @ t" | (fals) t where "s = ''false'' @ t"
    | (num) "json_number (takeWhile num_char s)" "v = JNum (takeWhile num_char s)" "r = dropWhile num_char s"
    using assms(1) by (auto simp: parse_scalar_def HasPrefix_iff split: if_splits)
  then show ?thesis
  proof cases
    case num
    then obtain c q where cq: "takeWhile num_char s = c # q" "c = CHR ''-'' \<or> is_digit c" by (auto elim: json_number_head)
    have "dropWhile num_char s \<noteq> []" using num assms(2) by (simp add: is_num_def)
    then have "\<exists>x \<in> set s. \<not> num_char x" by (metis dropWhile_eq_Nil_conv)
    then have tw: "takeWhile num_char (s @ u) = takeWhile num_char s" "dropWhile num_char (s @ u) = r @ u"
      using num by (auto simp: takeWhile_append dropWhile_append)
    obtain s1 where "s = c # s1" using cq(1) by (cases s) (auto split: if_splits)
    then have "\<not> HasPrefix (s @ u) ''null''" "\<not> HasPrefix (s @ u) ''true''" "\<not> HasPrefix (s @ u) ''false''"
      using num_start [OF cq(2)] by (auto simp: HasPrefix_def)
    then show ?thesis using num tw by (simp add: parse_scalar_def)
  qed (use assms in \<open>auto simp: parse_scalar_def HasPrefix_def\<close>)
qed

lemma parse_extend:
  "parse_value d n s = Some (v, r) \<Longrightarrow> r \<noteq> [] \<or> \<not> is_num v \<Longrightarrow> parse_value d n (s @ u) = Some (v, r @ u)"
  "parse_elems d n s = Some (vs, r) \<Longrightarrow> parse_elems d n (s @ u) = Some (vs, r @ u)"
  "parse_members d n s = Some (ms, r) \<Longrightarrow> parse_members d n (s @ u) = Some (ms, r @ u)"
proof (induction n arbitrary: d s v vs ms r)
  case (Suc n)
  { case 1
    then obtain c q where w: "skip_ws s = c # q" by (auto simp: parse_value.simps(2) split: list.splits)
    note unf = parse_value.simps(2) [of d n "s @ u", unfolded skip_ws_extend [OF w] list.case]
      1 [unfolded parse_value.simps(2) w list.case]
    consider "c = quote" | "c \<noteq> quote" "c = CHR ''[''" | "c \<noteq> quote" "c = CHR ''{''" | "c \<noteq> quote" "c \<noteq> CHR ''[''" "c \<noteq> CHR ''{''"
      by blast
    then show ?case
    proof cases
      case 1
      then show ?thesis using unf by (auto simp: parse_string_extend)
    next
      case 2
      then obtain e r1 where "skip_ws q = e # r1" using unf(2) by (auto split: if_splits list.splits)
      then show ?thesis using unf 2 skip_ws_extend [of q e r1 u] Suc.IH(2) by (auto split: if_splits)
    next
      case 3
      then obtain e r1 where "skip_ws q = e # r1" using unf(2) by (auto split: if_splits list.splits)
      then show ?thesis using unf 3 skip_ws_extend [of q e r1 u] Suc.IH(3) by (auto split: if_splits)
    next
      case 4
      then show ?thesis using unf parse_scalar_extend [of "c # q" v r u] by simp
    qed
  next
    case 2
    then obtain v1 t c q where v: "parse_value d n s = Some (v1, t)" and t: "skip_ws t = c # q"
      by (auto simp: parse_elems.simps(2) split: option.splits list.splits)
    have "t \<noteq> []" using t by (auto simp: skip_ws_def)
    with v have "parse_value d n (s @ u) = Some (v1, t @ u)" by (intro Suc.IH(1)) auto
    then show ?case
      using 2 v t skip_ws_extend [OF t] Suc.IH(2) by (auto simp: parse_elems.simps(2) split: if_splits)
  next
    case 3
    then obtain s1 k s2 s3 v1 t c q where w: "skip_ws s = quote # s1" "parse_string s1 = Some (k, s2)" "skip_ws s2 = CHR '':'' # s3"
      and v: "parse_value d n s3 = Some (v1, t)" and t: "skip_ws t = c # q"
      by (auto simp: parse_members.simps(2) split: option.splits list.splits if_splits)
    have "t \<noteq> []" using t by (auto simp: skip_ws_def)
    with v have "parse_value d n (s3 @ u) = Some (v1, t @ u)" by (intro Suc.IH(1)) auto
    then show ?case
      using 3 v t w skip_ws_extend [OF t] skip_ws_extend [OF w(1)] parse_string_extend [OF w(2)] skip_ws_extend [OF w(3)] Suc.IH(3)
      by (auto simp: parse_members.simps(2) split: if_splits) }
qed simp_all

text \<open>A proper prefix of the text of an object is not a value.\<close>

lemma parse_object: "parse_value d n (CHR ''{'' # s) = Some (v, r) \<Longrightarrow> \<not> is_num v"
  by (cases n) (auto simp: parse_value.simps(2) is_num_def split: if_splits list.splits)

lemma parse_prefix:
  assumes "json_ok (JObj ms)" and "jdepth (JObj ms) \<le> d" and "k < length (encode (JObj ms))"
    and "2 * k < n"
  shows "parse_value d n (take k (encode (JObj ms))) = None"
proof (rule ccontr)
  let ?e = "encode (JObj ms)" and ?t = "take k (encode (JObj ms))"
  let ?n = "n + 2 * length ?e + jsize (JObj ms)"
  assume "parse_value d n ?t \<noteq> None"
  then obtain v r where p: "parse_value d n ?t = Some (v, r)" by (cases "parse_value d n ?t") auto
  moreover have "parse_value d n [] = None" by (cases n) (simp_all add: parse_value.simps(2) skip_ws_def)
  ultimately have "k \<noteq> 0" by (cases k) simp_all
  then have "?t = CHR ''{'' # take (k - 1) (encode_members ms)" by (cases k) simp_all
  with p have "\<not> is_num v" using parse_object by metis
  moreover have "parse_value d ?n ?t = Some (v, r)" using p parse_fuel(1) [of ?t ?n n d] assms(3,4) by simp
  ultimately have "parse_value d ?n (?t @ drop k ?e) = Some (v, r @ drop k ?e)" by (intro parse_extend(1)) simp_all
  moreover have "parse_value d ?n (?e @ []) = Some (clean (JObj ms), [])"
    using assms(1,2) by (intro parse_encode(1)) (simp_all add: num_end_def)
  ultimately show False using assms(3) by simp
qed

end
