(* ===== verification/Wire.thy ===== *)
theory Wire
  imports Json JobModel
begin

text \<open>
  The JSON texts of the protocol: jobs (\<^verbatim>\<open>internal/job/model.go\<close>) and guest messages
  (\<^verbatim>\<open>internal/guestproto/guestproto.go\<close>), written by the field tags of their structs and read the way
  \<^verbatim>\<open>encoding/json\<close> reads into a struct: keys match in any case, unknown keys are skipped or refused, a null
  changes nothing, a later key overwrites, and the first mismatch is the error.  Bytes travel as \<^verbatim>\<open>encoding/base64\<close>.
  The wording of decoding errors is not kept.  One corner is simplified: when a key occurs three times and its array
  shrinks and grows again, Go shows the old elements where the last array has nulls, and the model zero values.

  The lemmas: every message and every job is read back unchanged, but for bytes that are not UTF-8, and how long its text is.
\<close>

section \<open>Package base64\<close>

definition b64_char :: "nat \<Rightarrow> char" where
  "b64_char n =
     (if n < 26 then char_of (65 + n) else if n < 52 then char_of (71 + n) else if n < 62 then char_of (n - 4)
      else if n = 62 then CHR ''+'' else CHR ''/'')"

definition b64_val :: "char \<Rightarrow> nat option" where
  "b64_val c =
     (let n = (of_char c :: nat)
      in if 65 \<le> n \<and> n \<le> 90 then Some (n - 65)
         else if 97 \<le> n \<and> n \<le> 122 then Some (n - 71)
         else if 48 \<le> n \<and> n \<le> 57 then Some (n + 4)
         else if n = 43 then Some 62
         else if n = 47 then Some 63
         else None)"

fun b64_encode :: "bytes \<Rightarrow> string" where
  "b64_encode [] = []"
| "b64_encode [a] = [b64_char (of_char a div 4), b64_char (of_char a mod 4 * 16), CHR ''='', CHR ''='']"
| "b64_encode [a, b] =
     [b64_char (of_char a div 4), b64_char (of_char a mod 4 * 16 + of_char b div 16),
      b64_char (of_char b mod 16 * 4), CHR ''='']"
| "b64_encode (a # b # c # s) =
     b64_char (of_char a div 4) # b64_char (of_char a mod 4 * 16 + of_char b div 16)
     # b64_char (of_char b mod 16 * 4 + of_char c div 64) # b64_char (of_char c mod 64) # b64_encode s"

text \<open>Groups of four; padding only at the end.\<close>

fun b64_groups :: "string \<Rightarrow> bytes option" where
  "b64_groups [] = Some []"
| "b64_groups (a # b # c # d # s) =
     (case (b64_val a, b64_val b) of
        (Some w, Some x) \<Rightarrow>
          if s = [] \<and> c = CHR ''='' \<and> d = CHR ''='' then Some [char_of (w * 4 + x div 16)]
          else (case b64_val c of
                  None \<Rightarrow> None
                | Some y \<Rightarrow>
                    if s = [] \<and> d = CHR ''='' then Some [char_of (w * 4 + x div 16), char_of (x mod 16 * 16 + y div 4)]
                    else (case (b64_val d, b64_groups s) of
                            (Some z, Some r) \<Rightarrow>
                              Some (char_of (w * 4 + x div 16) # char_of (x mod 16 * 16 + y div 4) # char_of (y mod 4 * 64 + z) # r)
                          | _ \<Rightarrow> None))
      | _ \<Rightarrow> None)"
| "b64_groups _ = None"

text \<open>The decoder skips line breaks.\<close>

definition b64_decode :: "string \<Rightarrow> bytes option" where
  "b64_decode s = b64_groups (filter (\<lambda>c. c \<noteq> CHR 0x0A \<and> c \<noteq> CHR 0x0D) s)"

lemma of_b64_char:
  "n < 64 \<Longrightarrow> of_char (b64_char n) =
     (if n < 26 then 65 + n else if n < 52 then 71 + n else if n < 62 then n - 4 else if n = 62 then 43 else 47)"
  by (simp add: b64_char_def)

lemma b64_val_char: "n < 64 \<Longrightarrow> b64_val (b64_char n) = Some n"
  unfolding b64_val_def Let_def of_b64_char by (simp split: if_split) arith

lemma b64_char_plain: "n < 64 \<Longrightarrow> plain (b64_char n)"
  by (intro plainI) (auto simp: of_b64_char split: if_splits)

lemma b64_char_not_pad: "n < 64 \<Longrightarrow> b64_char n \<noteq> CHR ''=''"
  using of_b64_char [of n] by (auto split: if_splits)

text \<open>Three bytes in four groups of six bits and back.\<close>

lemma b64_bits:
  fixes a b c :: nat
  assumes "a < 256" and "b < 256" and "c < 256"
  shows "a div 4 < 64" "a mod 4 * 16 + b div 16 < 64" "b mod 16 * 4 + c div 64 < 64" "c mod 64 < 64"
    "a div 4 * 4 + (a mod 4 * 16 + b div 16) div 16 = a"
    "(a mod 4 * 16 + b div 16) mod 16 * 16 + (b mod 16 * 4 + c div 64) div 4 = b"
    "(b mod 16 * 4 + c div 64) mod 4 * 64 + c mod 64 = c"
proof -
  have b: "b div 16 < 16" and c: "c div 64 < 4" using assms by simp_all
  then have x: "(a mod 4 * 16 + b div 16) div 16 = a mod 4" "(a mod 4 * 16 + b div 16) mod 16 = b div 16"
    and y: "(b mod 16 * 4 + c div 64) div 4 = b mod 16" "(b mod 16 * 4 + c div 64) mod 4 = c div 64"
    by simp_all
  have "a mod 4 < 4" "b mod 16 < 16" by simp_all
  then show "a div 4 < 64" "a mod 4 * 16 + b div 16 < 64" "b mod 16 * 4 + c div 64 < 64" "c mod 64 < 64"
    using assms b c by linarith+
  show "a div 4 * 4 + (a mod 4 * 16 + b div 16) div 16 = a"
    "(a mod 4 * 16 + b div 16) mod 16 * 16 + (b mod 16 * 4 + c div 64) div 4 = b"
    "(b mod 16 * 4 + c div 64) mod 4 * 64 + c mod 64 = c"
    unfolding x y by simp_all
qed

lemmas b64_byte = b64_bits [of "of_char a" "of_char b" "of_char c", OF nat_of_char_less_256 nat_of_char_less_256 nat_of_char_less_256]
  for a b c

lemmas b64_pad = b64_bits [OF nat_of_char_less_256 nat_of_char_less_256 zero_less_numeral, simplified]
  b64_bits [OF nat_of_char_less_256 zero_less_numeral zero_less_numeral, simplified]

lemma b64_encode_plain: "list_all plain (b64_encode s)"
proof (induction s rule: b64_encode.induct)
  case (4 a b c s)
  then show ?case by (simp add: b64_char_plain b64_byte)
qed (simp_all add: b64_pad b64_char_plain plainI [of "CHR ''=''"])

lemma b64_groups_encode: "b64_groups (b64_encode s) = Some s"
proof (induction s rule: b64_encode.induct)
  case (4 a b c s)
  have "(of_char b :: nat) div 16 < 16" "(of_char c :: nat) div 64 < 4" by (simp_all add: less_mult_imp_div_less)
  with 4 show ?case by (simp add: b64_val_char b64_char_not_pad b64_byte)
qed (simp_all add: b64_pad b64_val_char b64_char_not_pad)

lemma plain_line: "plain c \<Longrightarrow> c \<noteq> CHR 0x0A \<and> c \<noteq> CHR 0x0D"
  by (auto simp: plain_def printable_def)

lemma b64_decode_encode: "b64_decode (b64_encode s) = Some s"
proof -
  have "filter (\<lambda>c. c \<noteq> CHR 0x0A \<and> c \<noteq> CHR 0x0D) (b64_encode s) = b64_encode s"
    using b64_encode_plain [of s] plain_line by (intro filter_True) (auto simp: list_all_iff)
  then show ?thesis by (simp add: b64_decode_def b64_groups_encode)
qed

lemma b64_encode_length: "length (b64_encode s) = 4 * ((length s + 2) div 3)"
proof (induction s rule: b64_encode.induct)
  case (4 a b c s)
  have "(length (a # b # c # s) + 2) div 3 = (length s + 2) div 3 + 1" by simp
  with 4 show ?case by simp
qed simp_all

section \<open>Reading into a struct\<close>

text \<open>The decoder goes on after a mismatch and reports the first one.\<close>

datatype json_error = UnknownField string | TypeMismatch | BadBase64 | BadTime

type_synonym 'a decode = "json \<Rightarrow> 'a \<times> json_error option \<Rightarrow> 'a \<times> json_error option"

definition save_error :: "json_error \<Rightarrow> 'a \<times> json_error option \<Rightarrow> 'a \<times> json_error option" where
  "save_error e st = (fst st, if snd st = None then Some e else snd st)"

definition dec_string :: "string decode" where
  "dec_string v st = (case v of JStr s \<Rightarrow> (s, snd st) | JNull \<Rightarrow> st | _ \<Rightarrow> save_error TypeMismatch st)"

definition dec_int :: "int decode" where
  "dec_int v st =
     (case v of
        JNum n \<Rightarrow> (case Atoi n of Some i \<Rightarrow> (i, snd st) | None \<Rightarrow> save_error TypeMismatch st)
      | JNull \<Rightarrow> st
      | _ \<Rightarrow> save_error TypeMismatch st)"

text \<open>An element of a byte slice that is written as an array of numbers.\<close>

definition dec_byte :: "char decode" where
  "dec_byte v st =
     (case v of
        JNum n \<Rightarrow>
          (case Atoi n of
             Some i \<Rightarrow> if 0 \<le> i \<and> i \<le> 255 \<and> list_all is_digit n then (char_of (nat i), snd st) else save_error TypeMismatch st
           | None \<Rightarrow> save_error TypeMismatch st)
      | JNull \<Rightarrow> st
      | _ \<Rightarrow> save_error TypeMismatch st)"

text \<open>A slice: an element is read into the one that is there from an earlier key, or into a zero value.\<close>

fun dec_elems :: "'a decode \<Rightarrow> 'a \<Rightarrow> json list \<Rightarrow> 'a list \<times> json_error option \<Rightarrow> 'a list \<times> json_error option" where
  "dec_elems elem zero [] st = ([], snd st)"
| "dec_elems elem zero (v # vs) st =
     (let (x, e) = elem v (case fst st of [] \<Rightarrow> zero | y # _ \<Rightarrow> y, snd st);
          (xs, e') = dec_elems elem zero vs (tl (fst st), e)
      in (x # xs, e'))"

definition dec_slice :: "'a decode \<Rightarrow> 'a \<Rightarrow> 'a list decode" where
  "dec_slice elem zero v st =
     (case v of JArr vs \<Rightarrow> dec_elems elem zero vs st | JNull \<Rightarrow> ([], snd st) | _ \<Rightarrow> save_error TypeMismatch st)"

definition dec_bytes :: "bytes decode" where
  "dec_bytes v st =
     (case v of
        JStr s \<Rightarrow> (case b64_decode s of Some d \<Rightarrow> (d, snd st) | None \<Rightarrow> save_error BadBase64 st)
      | _ \<Rightarrow> dec_slice dec_byte (CHR 0x00) v st)"

definition dec_pointer :: "'a \<Rightarrow> 'a decode \<Rightarrow> 'a option decode" where
  "dec_pointer zero f v st =
     (if v = JNull then (None, snd st)
      else let (x, e) = f v (case fst st of None \<Rightarrow> zero | Some y \<Rightarrow> y, snd st) in (Some x, e))"

text \<open>Keys are compared by Unicode simple folding; against the ASCII names of the protocol it folds the letters,
  the Kelvin sign and the long s.\<close>

fun fold_name :: "string \<Rightarrow> string" where
  "fold_name [] = []"
| "fold_name (c # s) =
     (if HasPrefix (c # s) [CHR 0xE2, CHR 0x84, CHR 0xAA] then CHR ''K'' # fold_name (drop 2 s)
      else if HasPrefix (c # s) [CHR 0xC5, CHR 0xBF] then CHR ''S'' # fold_name (drop 1 s)
      else (if 97 \<le> (of_char c :: nat) \<and> (of_char c :: nat) \<le> 122 then char_of (of_char c - 32 :: nat) else c) # fold_name s)"

definition field :: "('r \<Rightarrow> 'a) \<Rightarrow> ('a \<Rightarrow> 'r \<Rightarrow> 'r) \<Rightarrow> 'a decode \<Rightarrow> 'r decode" where
  "field get put f v st = (let (x, e) = f v (get (fst st), snd st) in (put x (fst st), e))"

fun find_field :: "(string \<times> 'r decode) list \<Rightarrow> string \<Rightarrow> 'r decode option" where
  "find_field [] k = None"
| "find_field ((name, f) # fs) k = (if fold_name name = fold_name k then Some f else find_field fs k)"

fun dec_members :: "bool \<Rightarrow> (string \<times> 'r decode) list \<Rightarrow> (string \<times> json) list \<Rightarrow> 'r \<times> json_error option \<Rightarrow> 'r \<times> json_error option" where
  "dec_members strict fs [] st = st"
| "dec_members strict fs ((k, v) # ms) st =
     dec_members strict fs ms
       (case find_field fs k of
          Some f \<Rightarrow> f v st
        | None \<Rightarrow> if strict then save_error (UnknownField k) st else st)"

definition dec_struct :: "bool \<Rightarrow> (string \<times> 'r decode) list \<Rightarrow> 'r decode" where
  "dec_struct strict fs v st =
     (case v of JObj ms \<Rightarrow> dec_members strict fs ms st | JNull \<Rightarrow> st | _ \<Rightarrow> save_error TypeMismatch st)"

section \<open>The structs of the protocol\<close>

definition JInt :: "int \<Rightarrow> json" where "JInt i = JNum (fmt_int i)"

definition omitempty :: "bool \<Rightarrow> string \<Rightarrow> json \<Rightarrow> (string \<times> json) list" where
  "omitempty zero k v = (if zero then [] else [(k, v)])"

definition platform_json :: "platform \<Rightarrow> json" where
  "platform_json p = JObj [(''os'', JStr (pOS p)), (''arch'', JStr (pArch p))]"

definition resources_json :: "resources \<Rightarrow> json" where
  "resources_json r = JObj [(''cpu'', JInt (resCPU r)), (''memory_mb'', JInt (resMemoryMB r)), (''disk_mb'', JInt (resDiskMB r))]"

definition job_json :: "job \<Rightarrow> json" where
  "job_json j =
     JObj ([(''version'', JInt (jVersion j)), (''id'', JStr (jID j)), (''command'', JStr (jCommand j))]
       @ omitempty (jArgs j = []) ''args'' (JArr (map JStr (jArgs j)))
       @ [(''cwd'', JStr (jCWD j)), (''platform'', platform_json (jPlatform j)), (''resources'', resources_json (jResources j)),
          (''timeout_seconds'', JInt (jTimeoutSeconds j))]
       @ omitempty (jArtifacts j = []) ''artifacts'' (JArr (map JStr (jArtifacts j)))
       @ omitempty (jNetwork j = []) ''network'' (JStr (jNetwork j)))"

definition request_json :: "job \<Rightarrow> json" where
  "request_json j = JObj [(''job'', job_json j)]"

definition result_json :: "guest_result \<Rightarrow> json" where
  "result_json g =
     JObj ([(''exit_code'', JInt (gExitCode g)), (''termination_reason'', JStr (gTerminationReason g))]
       @ omitempty (gDurationMillis g = 0) ''duration_ms'' (JInt (gDurationMillis g))
       @ omitempty (gCPUTimeMillis g = 0) ''cpu_time_ms'' (JInt (gCPUTimeMillis g))
       @ omitempty (gPeakMemoryBytes g = 0) ''peak_memory_bytes'' (JInt (gPeakMemoryBytes g))
       @ omitempty (gMessage g = []) ''message'' (JStr (gMessage g)))"

definition type_text :: "msg_type \<Rightarrow> string" where
  "type_text t =
     (case t of
        MsgHello \<Rightarrow> ''hello'' | MsgLog \<Rightarrow> ''log'' | MsgJob \<Rightarrow> ''job'' | MsgStdout \<Rightarrow> ''stdout'' | MsgStderr \<Rightarrow> ''stderr''
      | MsgCancel \<Rightarrow> ''cancel'' | MsgResult \<Rightarrow> ''result'' | MsgArtifact \<Rightarrow> ''artifact'' | MsgOther s \<Rightarrow> s)"

definition known_types :: "msg_type list" where
  "known_types = [MsgHello, MsgLog, MsgJob, MsgStdout, MsgStderr, MsgCancel, MsgResult, MsgArtifact]"

definition type_of :: "string \<Rightarrow> msg_type" where
  "type_of s = (case find (\<lambda>t. type_text t = s) known_types of Some t \<Rightarrow> t | None \<Rightarrow> MsgOther s)"

definition message_json :: "message \<Rightarrow> json" where
  "message_json m =
     JObj ([(''type'', JStr (type_text (mType m)))]
       @ (case mJob m of None \<Rightarrow> [] | Some j \<Rightarrow> [(''job'', job_json j)])
       @ omitempty (mName m = []) ''name'' (JStr (mName m))
       @ omitempty (mData m = []) ''data'' (JStr (b64_encode (mData m)))
       @ (case mResult m of None \<Rightarrow> [] | Some g \<Rightarrow> [(''result'', result_json g)]))"

definition dec_platform :: "bool \<Rightarrow> platform decode" where
  "dec_platform strict = dec_struct strict
     [(''os'', field pOS (\<lambda>x. pOS_update (\<lambda>_. x)) dec_string), (''arch'', field pArch (\<lambda>x. pArch_update (\<lambda>_. x)) dec_string)]"

definition dec_resources :: "bool \<Rightarrow> resources decode" where
  "dec_resources strict = dec_struct strict
     [(''cpu'', field resCPU (\<lambda>x. resCPU_update (\<lambda>_. x)) dec_int),
      (''memory_mb'', field resMemoryMB (\<lambda>x. resMemoryMB_update (\<lambda>_. x)) dec_int),
      (''disk_mb'', field resDiskMB (\<lambda>x. resDiskMB_update (\<lambda>_. x)) dec_int)]"

definition dec_job :: "bool \<Rightarrow> job decode" where
  "dec_job strict = dec_struct strict
     [(''version'', field jVersion (\<lambda>x. jVersion_update (\<lambda>_. x)) dec_int),
      (''id'', field jID (\<lambda>x. jID_update (\<lambda>_. x)) dec_string),
      (''command'', field jCommand (\<lambda>x. jCommand_update (\<lambda>_. x)) dec_string),
      (''args'', field jArgs (\<lambda>x. jArgs_update (\<lambda>_. x)) (dec_slice dec_string [])),
      (''cwd'', field jCWD (\<lambda>x. jCWD_update (\<lambda>_. x)) dec_string),
      (''platform'', field jPlatform (\<lambda>x. jPlatform_update (\<lambda>_. x)) (dec_platform strict)),
      (''resources'', field jResources (\<lambda>x. jResources_update (\<lambda>_. x)) (dec_resources strict)),
      (''timeout_seconds'', field jTimeoutSeconds (\<lambda>x. jTimeoutSeconds_update (\<lambda>_. x)) dec_int),
      (''artifacts'', field jArtifacts (\<lambda>x. jArtifacts_update (\<lambda>_. x)) (dec_slice dec_string [])),
      (''network'', field jNetwork (\<lambda>x. jNetwork_update (\<lambda>_. x)) dec_string)]"

definition dec_request :: "bool \<Rightarrow> job decode" where
  "dec_request strict = dec_struct strict [(''job'', dec_job strict)]"

definition dec_result :: "guest_result decode" where
  "dec_result = dec_struct False
     [(''exit_code'', field gExitCode (\<lambda>x. gExitCode_update (\<lambda>_. x)) dec_int),
      (''termination_reason'', field gTerminationReason (\<lambda>x. gTerminationReason_update (\<lambda>_. x)) dec_string),
      (''duration_ms'', field gDurationMillis (\<lambda>x. gDurationMillis_update (\<lambda>_. x)) dec_int),
      (''cpu_time_ms'', field gCPUTimeMillis (\<lambda>x. gCPUTimeMillis_update (\<lambda>_. x)) dec_int),
      (''peak_memory_bytes'', field gPeakMemoryBytes (\<lambda>x. gPeakMemoryBytes_update (\<lambda>_. x)) dec_int),
      (''message'', field gMessage (\<lambda>x. gMessage_update (\<lambda>_. x)) dec_string)]"

definition zero_job :: job where
  "zero_job = \<lparr>jVersion = 0, jID = [], jCommand = [], jArgs = [], jCWD = [], jPlatform = \<lparr>pOS = [], pArch = []\<rparr>,
     jResources = \<lparr>resCPU = 0, resMemoryMB = 0, resDiskMB = 0\<rparr>, jTimeoutSeconds = 0, jArtifacts = [], jNetwork = []\<rparr>"

definition zero_guest_result :: guest_result where
  "zero_guest_result = \<lparr>gExitCode = 0, gTerminationReason = [], gDurationMillis = 0, gCPUTimeMillis = 0, gPeakMemoryBytes = 0,
     gMessage = []\<rparr>"

definition dec_message :: "message decode" where
  "dec_message = dec_struct False
     [(''type'', field (type_text \<circ> mType) (\<lambda>x. mType_update (\<lambda>_. type_of x)) dec_string),
      (''job'', field mJob (\<lambda>x. mJob_update (\<lambda>_. x)) (dec_pointer zero_job (dec_job False))),
      (''name'', field mName (\<lambda>x. mName_update (\<lambda>_. x)) dec_string),
      (''data'', field mData (\<lambda>x. mData_update (\<lambda>_. x)) dec_bytes),
      (''result'', field mResult (\<lambda>x. mResult_update (\<lambda>_. x)) (dec_pointer zero_guest_result dec_result))]"

text \<open>\<^verbatim>\<open>Encode\<close> (less the newline) and \<^verbatim>\<open>Unmarshal\<close> of a message.\<close>

definition marshal_message :: "message \<Rightarrow> bytes" where
  "marshal_message m = encode (message_json m)"

definition unmarshal_message :: "bytes \<Rightarrow> string + message" where
  "unmarshal_message d =
     (case parse_json d of
        None \<Rightarrow> Inl ''invalid JSON''
      | Some v \<Rightarrow>
          (case dec_message v (plain_msg (MsgOther []), None) of
             (m, None) \<Rightarrow> Inr m
           | (m, Some e) \<Rightarrow> Inl ''type mismatch''))"

definition marshal_request :: "job \<Rightarrow> bytes" where
  "marshal_request j = encode (request_json j)"


section \<open>Round trips\<close>

declare fold_name.simps(2) [simp del]

lemma fold_names [simp]:
  "fold_name ''os'' = ''OS''"
  "fold_name ''arch'' = ''ARCH''"
  "fold_name ''cpu'' = ''CPU''"
  "fold_name ''memory_mb'' = ''MEMORY_MB''"
  "fold_name ''disk_mb'' = ''DISK_MB''"
  "fold_name ''version'' = ''VERSION''"
  "fold_name ''id'' = ''ID''"
  "fold_name ''command'' = ''COMMAND''"
  "fold_name ''args'' = ''ARGS''"
  "fold_name ''cwd'' = ''CWD''"
  "fold_name ''platform'' = ''PLATFORM''"
  "fold_name ''resources'' = ''RESOURCES''"
  "fold_name ''timeout_seconds'' = ''TIMEOUT_SECONDS''"
  "fold_name ''artifacts'' = ''ARTIFACTS''"
  "fold_name ''network'' = ''NETWORK''"
  "fold_name ''job'' = ''JOB''"
  "fold_name ''exit_code'' = ''EXIT_CODE''"
  "fold_name ''termination_reason'' = ''TERMINATION_REASON''"
  "fold_name ''duration_ms'' = ''DURATION_MS''"
  "fold_name ''cpu_time_ms'' = ''CPU_TIME_MS''"
  "fold_name ''peak_memory_bytes'' = ''PEAK_MEMORY_BYTES''"
  "fold_name ''message'' = ''MESSAGE''"
  "fold_name ''type'' = ''TYPE''"
  "fold_name ''name'' = ''NAME''"
  "fold_name ''data'' = ''DATA''"
  "fold_name ''result'' = ''RESULT''"
  by code_simp+

lemma dec_string_JStr [simp]: "dec_string (JStr s) st = (s, snd st)"
  by (simp add: dec_string_def)

lemma dec_int_JInt [simp]: "int64_range i \<Longrightarrow> dec_int (JInt i) st = (i, snd st)"
  by (simp add: dec_int_def JInt_def Atoi_fmt_int)

lemma dec_elems_strings: "dec_elems dec_string z (map JStr xs) st = (xs, snd st)"
  by (induction xs arbitrary: st) simp_all

lemma dec_slice_strings [simp]: "dec_slice dec_string z (JArr (map JStr xs)) st = (xs, snd st)"
  by (simp add: dec_slice_def dec_elems_strings)

lemma dec_bytes_b64 [simp]: "dec_bytes (JStr (b64_encode d)) st = (d, snd st)"
  by (simp add: dec_bytes_def b64_decode_encode)

lemma dec_members_append [simp]: "dec_members strict fs (ms @ ns) st = dec_members strict fs ns (dec_members strict fs ms st)"
  by (induction strict fs ms st rule: dec_members.induct) simp_all

lemma dec_members_omitempty:
  "dec_members strict fs (omitempty z k v) st = (if z then st else dec_members strict fs [(k, v)] st)"
  by (simp add: omitempty_def)

lemma dec_struct_JObj [simp]: "dec_struct strict fs (JObj ms) st = dec_members strict fs ms st"
  by (simp add: dec_struct_def)

definition resources_in_range :: "resources \<Rightarrow> bool" where
  "resources_in_range r = (int64_range (resCPU r) \<and> int64_range (resMemoryMB r) \<and> int64_range (resDiskMB r))"

definition job_in_range :: "job \<Rightarrow> bool" where
  "job_in_range j = (int64_range (jVersion j) \<and> int64_range (jTimeoutSeconds j) \<and> resources_in_range (jResources j))"

definition result_in_range :: "guest_result \<Rightarrow> bool" where
  "result_in_range g = (int64_range (gExitCode g) \<and> int64_range (gDurationMillis g) \<and> int64_range (gCPUTimeMillis g)
     \<and> int64_range (gPeakMemoryBytes g))"

lemma dec_platform_json [simp]: "dec_platform strict (platform_json p) st = (p, snd st)"
  by (simp add: dec_platform_def platform_json_def field_def)

lemma dec_resources_json [simp]: "resources_in_range r \<Longrightarrow> dec_resources strict (resources_json r) st = (r, snd st)"
  by (simp add: dec_resources_def resources_json_def field_def resources_in_range_def)

lemma dec_job_json: "job_in_range j \<Longrightarrow> dec_job strict (job_json j) (zero_job, e) = (j, e)"
  by (simp add: dec_job_def job_json_def field_def job_in_range_def dec_members_omitempty zero_job_def)

lemma dec_result_json: "result_in_range g \<Longrightarrow> dec_result (result_json g) (zero_guest_result, e) = (g, e)"
  by (simp add: dec_result_def result_json_def field_def result_in_range_def dec_members_omitempty zero_guest_result_def)

text \<open>What the other side reads: every string with its invalid bytes replaced, the rest as it is.\<close>

definition clean_platform :: "platform \<Rightarrow> platform" where
  "clean_platform p = \<lparr>pOS = to_valid (pOS p), pArch = to_valid (pArch p)\<rparr>"

definition clean_job :: "job \<Rightarrow> job" where
  "clean_job j = j\<lparr>jID := to_valid (jID j), jCommand := to_valid (jCommand j), jArgs := map to_valid (jArgs j),
     jCWD := to_valid (jCWD j), jPlatform := clean_platform (jPlatform j), jArtifacts := map to_valid (jArtifacts j),
     jNetwork := to_valid (jNetwork j)\<rparr>"

definition clean_result :: "guest_result \<Rightarrow> guest_result" where
  "clean_result g = g\<lparr>gTerminationReason := to_valid (gTerminationReason g), gMessage := to_valid (gMessage g)\<rparr>"

definition clean_message :: "message \<Rightarrow> message" where
  "clean_message m = m\<lparr>mType := type_of (to_valid (type_text (mType m))), mJob := map_option clean_job (mJob m),
     mName := to_valid (mName m), mResult := map_option clean_result (mResult m)\<rparr>"

primrec opt_all :: "('a \<Rightarrow> bool) \<Rightarrow> 'a option \<Rightarrow> bool" where
  "opt_all p None = True"
| "opt_all p (Some x) = p x"

definition message_in_range :: "message \<Rightarrow> bool" where
  "message_in_range m = (opt_all job_in_range (mJob m) \<and> opt_all result_in_range (mResult m))"

text \<open>When nothing is replaced: strings of UTF-8, and a type spelled in one way.\<close>

definition job_utf8 :: "job \<Rightarrow> bool" where
  "job_utf8 j = list_all valid_utf8
     ([jID j, jCommand j, jCWD j, pOS (jPlatform j), pArch (jPlatform j), jNetwork j] @ jArgs j @ jArtifacts j)"

definition message_utf8 :: "message \<Rightarrow> bool" where
  "message_utf8 m = (type_of (type_text (mType m)) = mType m \<and> valid_utf8 (type_text (mType m)) \<and> valid_utf8 (mName m)
     \<and> opt_all job_utf8 (mJob m)
     \<and> opt_all (\<lambda>g. valid_utf8 (gTerminationReason g) \<and> valid_utf8 (gMessage g)) (mResult m))"

lemma to_valid_all: "list_all valid_utf8 xs \<Longrightarrow> map to_valid xs = xs"
  by (induction xs) (simp_all add: to_valid_id)

lemma clean_job_id: "job_utf8 j \<Longrightarrow> clean_job j = j"
  by (simp add: clean_job_def clean_platform_def job_utf8_def to_valid_id to_valid_all)

lemma clean_message_id: "message_utf8 m \<Longrightarrow> clean_message m = m"
  by (cases "mJob m"; cases "mResult m")
    (simp_all add: clean_message_def message_utf8_def to_valid_id clean_job_id clean_result_def)

lemma type_of_Nil: "type_of [] = MsgOther []"
  by code_simp

lemma type_text_type_of [simp]: "type_text (type_of s) = s"
proof (cases "find (\<lambda>t. type_text t = s) known_types")
  case None
  then show ?thesis by (simp add: type_of_def type_text_def)
next
  case (Some t)
  then have "type_text t = s" unfolding find_Some_iff by blast
  with Some show ?thesis by (simp add: type_of_def)
qed

lemma json_not_null: "job_json j \<noteq> JNull" "result_json g \<noteq> JNull"
  by (simp_all add: job_json_def result_json_def)

lemma dec_message_json:
  "message_in_range m \<Longrightarrow>
     dec_message (message_json m) (plain_msg (MsgOther []), e) = (m\<lparr>mType := type_of (type_text (mType m))\<rparr>, e)"
  by (cases "mJob m"; cases "mResult m")
    (simp_all add: dec_message_def message_json_def field_def message_in_range_def dec_members_omitempty plain_msg_def
      dec_pointer_def dec_job_json dec_result_json json_not_null)

lemma plain_utf8: "list_all plain s \<Longrightarrow> valid_utf8 s"
  using quote_chars_plain by blast

lemma valid_utf8_names [simp]:
  "valid_utf8 ''os''"
  "valid_utf8 ''arch''"
  "valid_utf8 ''cpu''"
  "valid_utf8 ''memory_mb''"
  "valid_utf8 ''disk_mb''"
  "valid_utf8 ''version''"
  "valid_utf8 ''id''"
  "valid_utf8 ''command''"
  "valid_utf8 ''args''"
  "valid_utf8 ''cwd''"
  "valid_utf8 ''platform''"
  "valid_utf8 ''resources''"
  "valid_utf8 ''timeout_seconds''"
  "valid_utf8 ''artifacts''"
  "valid_utf8 ''network''"
  "valid_utf8 ''job''"
  "valid_utf8 ''exit_code''"
  "valid_utf8 ''termination_reason''"
  "valid_utf8 ''duration_ms''"
  "valid_utf8 ''cpu_time_ms''"
  "valid_utf8 ''peak_memory_bytes''"
  "valid_utf8 ''message''"
  "valid_utf8 ''type''"
  "valid_utf8 ''name''"
  "valid_utf8 ''data''"
  "valid_utf8 ''result''"
  by code_simp+

lemmas to_valid_names [simp] = valid_utf8_names [THEN to_valid_id]

lemma json_JInt [simp]: "json_ok (JInt i)" "jdepth (JInt i) = 0" "clean (JInt i) = JInt i"
  by (simp_all add: JInt_def json_number_fmt_int)

lemma json_strings [simp]: "list_all json_ok (map JStr xs)" "foldr (max \<circ> jdepth) (map JStr xs) 0 = 0"
  by (induction xs) simp_all

lemma clean_omitempty: "map (\<lambda>(k, v). (to_valid k, clean v)) (omitempty z k v) = omitempty z (to_valid k) (clean v)"
  by (simp add: omitempty_def)

lemma to_valid_b64: "to_valid (b64_encode d) = b64_encode d"
  by (simp add: to_valid_id plain_utf8 b64_encode_plain)

lemma job_json_ok: "json_ok (job_json j) \<and> jdepth (job_json j) \<le> 2"
  by (simp add: job_json_def platform_json_def resources_json_def omitempty_def)

lemma request_json_ok: "json_ok (request_json j) \<and> jdepth (request_json j) \<le> maxNestingDepth"
  using job_json_ok [of j] by (simp add: request_json_def maxNestingDepth_def)

lemma result_json_ok: "json_ok (result_json g) \<and> jdepth (result_json g) \<le> 1"
  by (simp add: result_json_def omitempty_def)

lemma message_json_ok: "json_ok (message_json m) \<and> jdepth (message_json m) \<le> maxNestingDepth"
  using job_json_ok [of "the (mJob m)"] result_json_ok [of "the (mResult m)"]
  by (cases "mJob m"; cases "mResult m") (simp_all add: message_json_def omitempty_def maxNestingDepth_def)

lemma clean_job_json: "clean (job_json j) = job_json (clean_job j)"
  by (simp add: job_json_def clean_job_def clean_platform_def platform_json_def resources_json_def clean_omitempty
      to_valid_Nil comp_def)

lemma clean_request_json: "clean (request_json j) = request_json (clean_job j)"
  by (simp add: request_json_def clean_job_json)

lemma clean_result_json: "clean (result_json g) = result_json (clean_result g)"
  by (simp add: result_json_def clean_result_def clean_omitempty to_valid_Nil)

lemma clean_message_json: "clean (message_json m) = message_json (clean_message m)"
  by (cases "mJob m"; cases "mResult m")
    (simp_all add: message_json_def clean_message_def clean_omitempty clean_job_json clean_result_json to_valid_Nil
      to_valid_b64)

lemma clean_in_range [simp]:
  "job_in_range (clean_job j) = job_in_range j" "result_in_range (clean_result g) = result_in_range g"
  by (simp_all add: job_in_range_def result_in_range_def clean_job_def clean_result_def)

lemma clean_message_in_range [simp]: "message_in_range (clean_message m) = message_in_range m"
  by (cases "mJob m"; cases "mResult m") (simp_all add: message_in_range_def clean_message_def)

lemma dec_clean_message:
  "message_in_range m \<Longrightarrow> dec_message (message_json (clean_message m)) (plain_msg (MsgOther []), e) = (clean_message m, e)"
proof -
  assume "message_in_range m"
  moreover have "(clean_message m)\<lparr>mType := type_of (type_text (mType (clean_message m)))\<rparr> = clean_message m"
    by (simp add: clean_message_def)
  ultimately show ?thesis using dec_message_json [of "clean_message m" e] by simp
qed

lemma unmarshal_marshal_message: "message_in_range m \<Longrightarrow> unmarshal_message (marshal_message m) = Inr (clean_message m)"
proof -
  assume m: "message_in_range m"
  have "parse_json (encode (message_json m)) = Some (message_json (clean_message m))"
    using message_json_ok [of m] by (simp add: parse_json_encode clean_message_json)
  with m show ?thesis by (simp add: unmarshal_message_def marshal_message_def dec_clean_message)
qed

lemma marshal_message_line:
  "CHR 0x0A \<notin> set (marshal_message m) \<and> marshal_message m \<noteq> [] \<and> last (marshal_message m) \<noteq> CHR 0x0D"
proof -
  have "list_all printable (marshal_message m)"
    using encode_printable(1) message_json_ok [of m] by (simp add: marshal_message_def)
  then have ctl: "c \<in> set (marshal_message m) \<Longrightarrow> 32 \<le> (of_char c :: nat)" for c by (auto simp: list_all_iff printable_def)
  have ne: "marshal_message m \<noteq> []" by (simp add: marshal_message_def message_json_def)
  show ?thesis using ctl [of "CHR 0x0A"] ctl [OF last_in_set [OF ne]] ne by auto
qed

text \<open>The length of a message that carries no job.\<close>

definition result_text :: "guest_result option \<Rightarrow> nat" where
  "result_text r = (case r of None \<Rightarrow> 0 | Some g \<Rightarrow> length (gTerminationReason g) + length (gMessage g))"

lemma JInt_length: "int64_range i \<Longrightarrow> length (encode (JInt i)) \<le> 20"
  by (simp add: JInt_def fmt_int_length)

lemma JStr_length: "length (encode (JStr s)) \<le> 6 * length s + 2"
  using quote_chars_bytes [of s] by simp

lemma omitempty_length:
  "sum_list (map (\<lambda>(k, v). 6 * length k + 4 + length (encode v)) (omitempty z k v)) \<le> 6 * length k + 4 + length (encode v)"
  by (simp add: omitempty_def)

lemma result_json_length:
  assumes "result_in_range g"
  shows "length (encode (result_json g)) \<le> 6 * (length (gTerminationReason g) + length (gMessage g)) + 1000"
proof -
  note i = JInt_length [of "gExitCode g"] JInt_length [of "gDurationMillis g"] JInt_length [of "gCPUTimeMillis g"]
    JInt_length [of "gPeakMemoryBytes g"]
  note t = JStr_length [of "gTerminationReason g"] JStr_length [of "gMessage g"]
  note o = omitempty_length [of "gDurationMillis g = 0" "''duration_ms''" "JInt (gDurationMillis g)"]
    omitempty_length [of "gCPUTimeMillis g = 0" "''cpu_time_ms''" "JInt (gCPUTimeMillis g)"]
    omitempty_length [of "gPeakMemoryBytes g = 0" "''peak_memory_bytes''" "JInt (gPeakMemoryBytes g)"]
    omitempty_length [of "gMessage g = []" "''message''" "JStr (gMessage g)"]
  show ?thesis
    unfolding result_json_def encode.simps length_Cons
    by (rule order_trans [OF Suc_le_mono [THEN iffD2, OF encode_members_length]])
      (use assms i t o in \<open>simp add: result_in_range_def\<close>)
qed

lemma marshal_message_length:
  assumes "message_in_range m" and "mJob m = None"
  shows "length (marshal_message m) \<le>
    4 * ((length (mData m) + 2) div 3) + 6 * (length (type_text (mType m)) + length (mName m) + result_text (mResult m)) + 2000"
proof -
  have d: "length (encode (JStr (b64_encode (mData m)))) = 4 * ((length (mData m) + 2) div 3) + 2"
    using quote_chars_plain [OF b64_encode_plain [of "mData m"]] by (simp add: b64_encode_length)
  note t = JStr_length [of "type_text (mType m)"] JStr_length [of "mName m"]
  note o = omitempty_length [of "mName m = []" "''name''" "JStr (mName m)"]
    omitempty_length [of "mData m = []" "''data''" "JStr (b64_encode (mData m))", unfolded d]
  have r: "sum_list (map (\<lambda>(k, v). 6 * length k + 4 + length (encode v))
      (case mResult m of None \<Rightarrow> [] | Some g \<Rightarrow> [(''result'', result_json g)])) \<le> 6 * result_text (mResult m) + 1040"
    using assms(1) result_json_length [of "the (mResult m)"]
    by (cases "mResult m") (simp_all add: message_in_range_def result_text_def)
  show ?thesis
    unfolding marshal_message_def message_json_def encode.simps length_Cons
    by (rule order_trans [OF Suc_le_mono [THEN iffD2, OF encode_members_length]]) (use assms(2) t o r in simp)
qed

end
