(* ===== verification/Protocol.thy ===== *)
theory Protocol
  imports Wire JsonPrefix Guest Client
begin

text \<open>
  The components joined over the JSON texts: the job field of an upload (\<^verbatim>\<open>multipartRunBody\<close> of the client and
  \<^verbatim>\<open>decodeJobPart\<close> of the worker) and the lines between the host and the agent.  The decoders that
  \<open>Worker\<close>, \<open>Client\<close>, \<open>Firecracker\<close> and \<open>Guest\<close> take as arguments are those of \<open>Wire\<close> here.

  The theorems: a result of the client is the result of the job that was submitted; what the agent reports reaches
  the worker's stream; messages are read back as they were written, alone or from a connection.
\<close>

section \<open>The job field\<close>

definition first_value :: "bytes \<Rightarrow> (json \<times> bytes) option" where
  "first_value d = parse_value maxNestingDepth (2 * length d + 1) d"

text \<open>\<^verbatim>\<open>ensureEOF\<close> and the strict decoder before it.\<close>

definition ensureEOF :: "bytes \<Rightarrow> json_rest" where
  "ensureEOF t = (if skip_ws t = [] then RestEOF else if first_value t = None then RestError else RestValue)"

definition worker_json :: "bytes \<Rightarrow> json_job" where
  "worker_json d =
     (case first_value d of
        None \<Rightarrow> JsonError
      | Some (v, t) \<Rightarrow>
          (case dec_request True v (zero_job, None) of
             (j, None) \<Rightarrow> JsonJob j (ensureEOF t)
           | (j, Some (UnknownField k)) \<Rightarrow> JsonUnknownField k
           | (j, Some _) \<Rightarrow> JsonError))"

lemma first_value_encode:
  assumes "json_ok v" and "jdepth v \<le> maxNestingDepth" and "num_end rest"
  shows "first_value (encode v @ rest) = Some (clean v, rest)"
  unfolding first_value_def using assms jsize_le_length(1) [OF assms(1)] by (intro parse_encode(1)) simp_all

lemma dec_request_json: "job_in_range j \<Longrightarrow> dec_request strict (request_json j) (zero_job, e) = (j, e)"
  by (simp add: dec_request_def request_json_def dec_job_json)

lemma worker_json_marshal: "job_in_range j \<Longrightarrow> worker_json (marshal_request j) = JsonJob (clean_job j) RestEOF"
proof -
  assume j: "job_in_range j"
  have "first_value (marshal_request j @ []) = Some (clean (request_json j), [])"
    unfolding marshal_request_def
    by (rule first_value_encode) (use request_json_ok [of j] in \<open>simp_all add: num_end_def\<close>)
  with j show ?thesis by (simp add: worker_json_def dec_request_json clean_request_json ensureEOF_def skip_ws_def)
qed

text \<open>The worker reads the job or, when the text is longer than the limit, nothing.\<close>

lemma decodeJobPart_marshal:
  assumes "job_in_range j"
  shows "decodeJobPart worker_json (marshal_request j) =
    (if length (marshal_request j) \<le> maxJobRequestBytes + 1 then Inr (clean_job j)
     else Inl (Text ''job field is not valid Yonk JSON''))"
proof (cases "length (marshal_request j) \<le> maxJobRequestBytes + 1")
  case True
  then show ?thesis using assms by (simp add: decodeJobPart_def worker_json_marshal)
next
  case False
  let ?t = "take (maxJobRequestBytes + 1) (marshal_request j)"
  have "first_value ?t = None"
    unfolding first_value_def marshal_request_def request_json_def
    by (rule parse_prefix) (use False request_json_ok [of j] in \<open>simp_all add: request_json_def marshal_request_def\<close>)
  then show ?thesis using False by (simp add: decodeJobPart_def worker_json_def)
qed

section \<open>Lines\<close>

text \<open>\<^verbatim>\<open>Decoder.Decode\<close> of the agent: the first value of what is on the connection.\<close>

definition decode_message :: "bytes \<Rightarrow> (message \<times> bytes) option" where
  "decode_message d =
     (case first_value d of
        None \<Rightarrow> None
      | Some (v, t) \<Rightarrow>
          (case dec_message v (plain_msg (MsgOther []), None) of (m, None) \<Rightarrow> Some (m, t) | (m, Some e) \<Rightarrow> None))"

definition guest_line_ok :: "message \<Rightarrow> bool" where
  "guest_line_ok m = (message_in_range m \<and> message_utf8 m \<and> mJob m = None \<and> length (mData m) \<le> nat maxArtifactBytes
     \<and> length (type_text (mType m)) + length (mName m) + result_text (mResult m) \<le> 2 ^ 20)"

lemma guest_line_fits:
  assumes "guest_line_ok m"
  shows "length (marshal_message m) < maxGuestMessageBytes"
  using marshal_message_length [of m] assms
  by (auto simp: guest_line_ok_def maxArtifactBytes_def maxGuestMessageBytes_def)

interpretation json_lines: message_codec maxGuestMessageBytes marshal_message unmarshal_message guest_line_ok
proof
  show "guest_line_ok m \<Longrightarrow> length (marshal_message m) < maxGuestMessageBytes" for m by (rule guest_line_fits)
qed (simp_all add: guest_line_ok_def unmarshal_marshal_message clean_message_id marshal_message_line)

section \<open>Properties\<close>

text \<open>A stream that ends in a completion carries the result of the executor.\<close>

lemma job_stream_completion:
  assumes "job_stream info ext up result err outs (body @ [completion_event r])"
  shows "err = None \<and> list_all output_event outs
    \<and> body = [status_event ''workspace_ready'', status_event ''running''] @ outs @ [status_event ''cleaned'']
    \<and> r = result\<lparr>rWorker := wiName info, rBytesUploaded := up, rBytesDownloaded := wrap64 (sent_bytes outs)\<rparr>"
proof -
  from assms obtain fin where outs: "list_all output_event outs"
    and fin: "end_events info ext up (wrap64 (sent_bytes outs)) result err fin"
    and evs: "body @ [completion_event r] = ([status_event ''workspace_ready'', status_event ''running''] @ outs) @ fin"
    unfolding job_stream_def by auto
  have "fin \<noteq> []" using fin by (auto simp: end_events_def)
  then obtain pre ev where pre: "fin = pre @ [ev]" by (metis rev_exhaust)
  with evs have ev: "ev = completion_event r" and body: "body = [status_event ''workspace_ready'', status_event ''running''] @ outs @ pre"
    by simp_all
  from fin pre ev have "err = None \<and> pre = [status_event ''cleaned'']
      \<and> r = result\<lparr>rWorker := wiName info, rBytesUploaded := up, rBytesDownloaded := wrap64 (sent_bytes outs)\<rparr>"
    unfolding end_events_def by (elim disjE exE conjE) (auto simp: completion_event_def failure_event_def Cons_eq_append_conv)
  with outs body show ?thesis by simp
qed

text \<open>C1. No false result.  For every executor that keeps the contract, whatever writes of the worker
  fail and wherever the transport cuts the stream, if the client's \<^verbatim>\<open>Run\<close> returns a result then
  the worker ran the submitted job to its end (the job as it arrives, with bytes that are not UTF-8 replaced): the archive was
  extracted; the executor returned without error; the client's result is the executor's with the worker's name and the
  transferred sizes; and the caller's handler was given every event, in order, without error.  A broken or
  short stream is always an error.\<close>

theorem Run_result_sound:
  assumes "sink_executor run" and "job_in_range spec"
    and "client_Run marshal_request (send_upload msgtext n fin (\<lambda>rq. fst (handleRun worker_json info run ext ert env rq sl w)))
           spec archive writes handle h = (Inr r, h')"
  shows "\<exists>a root w1 st w2 s result s' outs. archive = Some a
    \<and> Extract a root (extraction_limits spec) w1 = (None, st, w2)
    \<and> run (clean_job spec) root (sUncompressedBytes st) s = (result, None, s')
    \<and> list_all output_event outs
    \<and> r = result\<lparr>rWorker := wiName info, rBytesUploaded := sCompressedBytes st, rBytesDownloaded := wrap64 (sent_bytes outs)\<rparr>
    \<and> handle_all handle ([status_event ''workspace_ready'', status_event ''running''] @ outs
        @ [status_event ''cleaned'', completion_event r]) h = (None, h')"
proof -
  from Run_result_request [OF assms(1,3)] obtain a outs body where a: "archive = Some a"
    and rs: "request_stream worker_json info run ext (run_request (the (fst (multipartRunBody marshal_request spec a writes)))) outs
        (body @ [completion_event r])"
    and h: "handle_all handle (body @ [completion_event r]) h = (None, h')" by blast
  have "first_error writes = None" using assms(3) by (rule client_Run_Inr) simp
  then have parts: "rqParts (run_request (the (fst (multipartRunBody marshal_request spec a writes)))) =
      [\<lparr>ptName = ''job'', ptData = marshal_request spec, ptArchive = no_archive\<rparr>,
       \<lparr>ptName = ''workspace'', ptData = [], ptArchive = a\<rparr>]"
    by (simp add: multipartRunBody_def run_request_def Let_def)
  from rs obtain spec' root w1 st w2 s result err s' where dec: "decodeJobPart worker_json (marshal_request spec) = Inr spec'"
    and ex: "Extract a root (extraction_limits spec') w1 = (None, st, w2)"
    and run: "run spec' root (sUncompressedBytes st) s = (result, err, s')"
    and js: "job_stream info ext (sCompressedBytes st) result err outs (body @ [completion_event r])"
    unfolding request_stream_def parts by auto
  note c = job_stream_completion [OF js]
  have spec': "spec' = clean_job spec" using dec decodeJobPart_marshal [OF assms(2)] by (simp split: if_splits)
  have "extraction_limits spec' = extraction_limits spec" by (simp add: spec' extraction_limits_def clean_job_def)
  moreover have "handle_all handle ([status_event ''workspace_ready'', status_event ''running''] @ outs
        @ [status_event ''cleaned'', completion_event r]) h = (None, h')" using h c by simp
  moreover have "run (clean_job spec) root (sUncompressedBytes st) s = (result, None, s')" using run c spec' by simp
  ultimately show ?thesis using a ex c by metis
qed

text \<open>C19. The job field.  Whatever strings a job has, the worker reads from the client's upload exactly that job, with
  bytes that are not UTF-8 replaced, or, when the text is longer than the limit, rejects the request: a job
  that is cut off is never taken for another one.\<close>

theorem job_field_exact:
  assumes "job_in_range j"
  shows "decodeJobPart worker_json (marshal_request j) =
      (if length (marshal_request j) \<le> maxJobRequestBytes + 1 then Inr (clean_job j)
       else Inl (Text ''job field is not valid Yonk JSON''))
    \<and> (job_utf8 j \<longrightarrow> clean_job j = j)"
  using decodeJobPart_marshal [OF assms] clean_job_id by blast

text \<open>C6. From the guest's process to the worker's stream.  When the connection and the writes of the worker
  do not fail, the host's reading loop, fed with the JSON lines the agent writes, forwards exactly what was read from the
  process's pipes and the artifacts the agent collected, in order, and reports the agent's exit code
  and termination reason, whichever way the run ended inside the guest.  The lines are within the host's bound for
  artifacts up to the agent's limit of 512 MiB; the strings of the messages are UTF-8.\<close>

theorem guest_to_host:
  assumes "beFirst boot = Inr msg" and "mType msg = MsgJob" and "mJob msg = Some spec"
    and "agent_ok ag" and "agSent ag = []"
    and "serve_host boot env ag = (err, ag')"
    and "list_all guest_line_ok (agSent ag')"
    and "readGuest maxGuestMessageBytes unmarshal_message (write_to EventStdout) (write_to EventStderr) (Some emit_artifact)
           (wire marshal_message (agSent ag')) readErr ctx started ended result (NewSink [] flush) = (r, e, s')"
  shows "e = None \<and> skSent s' = guest_events boot spec env
    \<and> rExitCode r = gExitCode (serve_report boot spec env)
    \<and> rTerminationReason r = gTerminationReason (serve_report boot spec env)"
  by (rule json_lines.delivered [OF assms])

text \<open>C20. Messages survive the wire.  A message, whatever bytes it carries, is one line; the host's \<^verbatim>\<open>Unmarshal\<close> and the
  agent's decoder on the connection read the same message from it, with nothing changed but string bytes that are
  not UTF-8, so a message of UTF-8 strings arrives as it is; and the decoder leaves the following lines
  untouched.\<close>

theorem message_roundtrip:
  assumes "message_in_range m"
  shows "CHR 0x0A \<notin> set (marshal_message m) \<and> unmarshal_message (marshal_message m) = Inr (clean_message m)
    \<and> decode_message (wire marshal_message (m # ms)) = Some (clean_message m, CHR 0x0A # wire marshal_message ms)
    \<and> (message_utf8 m \<longrightarrow> clean_message m = m)"
proof -
  have "first_value (marshal_message m @ CHR 0x0A # wire marshal_message ms) =
      Some (clean (message_json m), CHR 0x0A # wire marshal_message ms)"
    unfolding marshal_message_def [of m]
    by (rule first_value_encode) (use message_json_ok [of m] in \<open>simp_all add: num_end_def num_char_def is_digit_def\<close>)
  then show ?thesis
    using assms unmarshal_marshal_message [of m] marshal_message_line [of m]
    by (simp add: decode_message_def wire_def dec_clean_message clean_message_json clean_message_id)
qed

section \<open>Jobs that change on the way\<close>

text \<open>A byte that is not UTF-8 is replaced without an error.\<close>

lemma non_utf8_argument_replaced:
  "job_in_range j \<Longrightarrow> worker_json (marshal_request (j\<lparr>jArgs := [[CHR 0xFF]]\<rparr>)) = JsonJob ((clean_job j)\<lparr>jArgs := [replacement]\<rparr>) RestEOF"
proof -
  assume "job_in_range j"
  then have "job_in_range (j\<lparr>jArgs := [[CHR 0xFF]]\<rparr>)" by (simp add: job_in_range_def)
  moreover have "to_valid [CHR 0xFF] = replacement" by code_simp
  ultimately show ?thesis by (simp add: worker_json_marshal clean_job_def)
qed

text \<open>The escapes of the encoder make the text of a valid job up to six times longer than its strings, beyond what the
  worker reads of the field.\<close>

definition escaped_job :: job where
  "escaped_job = sample_job\<lparr>jArgs := replicate 8 (replicate 4096 CHR ''<'')\<rparr>"

lemma quote_chars_lt: "length (quote_chars (replicate n CHR ''<'')) = 6 * n"
proof (induction n)
  case (Suc n)
  have "next_rune CHR ''<'' s = Some ([CHR ''<''], s)" for s by (simp add: next_rune_def ascii_def)
  moreover have "length (quote_rune ''<'') = 6" by code_simp
  ultimately show ?case using Suc by (simp add: quote_chars.simps(2))
qed simp

lemma encode_elems_long: "sum_list (map (length \<circ> encode) vs) \<le> length (encode_elems vs)"
  by (induction vs) auto

lemma encode_member_long: "(k, v) \<in> set ms \<Longrightarrow> length (encode v) \<le> length (encode_members ms)"
  by (induction ms) auto

lemma valid_job_rejected:
  "Validate escaped_job = None
   \<and> decodeJobPart worker_json (marshal_request escaped_job) = Inl (Text ''job field is not valid Yonk JSON'')"
proof
  have "args_total 0 (jArgs escaped_job) = Inr (8 * 4096)"
    by (simp add: args_total_Inr escaped_job_def maxArgumentLength_def sum_list_replicate)
  moreover have "Validate sample_job = None" by code_simp
  ultimately show "Validate escaped_job = None"
    by (auto simp: Validate_def escaped_job_def maxTotalArgBytes_def maxArguments_def split: if_splits option.splits sum.splits)
  let ?args = "JArr (map JStr (jArgs escaped_job))"
  have "8 * (6 * 4096) \<le> length (encode ?args)"
    using encode_elems_long [of "map JStr (jArgs escaped_job)"]
    by (simp add: escaped_job_def quote_chars_lt map_replicate_const sum_list_replicate)
  also have "\<dots> \<le> length (encode (job_json escaped_job))"
    using encode_member_long [of "''args''" ?args] by (auto simp: job_json_def omitempty_def escaped_job_def intro!: le_SucI)
  also have "\<dots> \<le> length (marshal_request escaped_job)"
    using encode_member_long [of "''job''" "job_json escaped_job"] by (simp add: marshal_request_def request_json_def)
  finally have "maxJobRequestBytes + 1 < length (marshal_request escaped_job)" by (simp add: maxJobRequestBytes_def)
  moreover have "job_in_range escaped_job" by code_simp
  ultimately show "decodeJobPart worker_json (marshal_request escaped_job) = Inl (Text ''job field is not valid Yonk JSON'')"
    by (simp add: decodeJobPart_marshal)
qed

section \<open>Witnesses\<close>

lemma sample_job_field: "decodeJobPart worker_json (marshal_request sample_job) = Inr sample_job"
proof -
  have "job_in_range sample_job" and "job_utf8 sample_job" by code_simp+
  moreover have "length (marshal_request sample_job) < 300" by code_simp
  ultimately show ?thesis using decodeJobPart_marshal [of sample_job] by (simp add: maxJobRequestBytes_def clean_job_id)
qed

abbreviation sample_json_run :: "(client_error + job_result) \<times> unit" where
  "sample_json_run \<equiv> client_Run marshal_request (send_upload (\<lambda>_. []) 9 StreamEOF
     (\<lambda>rq. fst (handleRun worker_json sample_info (restricted_runner echo_exec 0 0 0 Map.empty) (\<lambda>_. []) (\<lambda>_. [])
        sample_run_env rq sample_slots escape_world))) sample_job (Some sample_archive) [] (Some (\<lambda>_ h. (None, h))) ()"

lemma handleRun_decoded:
  assumes "decodeJobPart json d = decodeJobPart json' d'"
  shows "handleRun json info run ext ert env (run_request [\<lparr>ptName = ''job'', ptData = d, ptArchive = no_archive\<rparr>, wpart]) sl w =
    handleRun json' info run ext ert env (run_request [\<lparr>ptName = ''job'', ptData = d', ptArchive = no_archive\<rparr>, wpart]) sl w"
proof -
  let ?rq = "\<lambda>d. run_request [\<lparr>ptName = ''job'', ptData = d, ptArchive = no_archive\<rparr>, wpart]"
  have rq: "rqMethod (run_request ps) = ''POST''" "rqMediaType (run_request ps) = Some ''multipart/form-data''"
    "rqEnd (run_request ps) = PartsEOF" for ps by (simp_all add: run_request_def)
  have "admit_run json info env (?rq d) v = admit_run json' info env (?rq d') v" for v
    by (simp add: admit_run_def run_request_def assms)
  then show ?thesis unfolding handleRun_def serve_run_def rq by simp
qed

lemma sample_json_run_eq: "sample_json_run = sample_client_run"
proof -
  have "decodeJobPart worker_json (marshal_request sample_job) = decodeJobPart (\<lambda>_. JsonJob sample_job RestEOF) []"
    by (simp add: decodeJobPart_def [of "\<lambda>_. JsonJob sample_job RestEOF"] sample_job_field)
  from handleRun_decoded [OF this] show ?thesis
    by (simp add: client_Run_def multipartRunBody_def send_upload_def send_request_def Let_def)
qed

theorem Run_result_sound_witness:
  "\<exists>r root w1 st w2 s result s'. fst sample_json_run = Inr r
    \<and> Extract sample_archive root (extraction_limits sample_job) w1 = (None, st, w2)
    \<and> restricted_runner echo_exec 0 0 0 Map.empty (clean_job sample_job) root (sUncompressedBytes st) s = (result, None, s')
    \<and> rExitCode r = rExitCode result"
proof -
  obtain r h where run: "sample_json_run = (Inr r, h)" using sample_client_result unfolding sample_json_run_eq by blast
  have "job_in_range sample_job" by code_simp
  from Run_result_sound [OF restricted_executor.sink_executor_axioms this run] run show ?thesis by fastforce
qed

theorem job_field_exact_witness:
  "decodeJobPart worker_json (marshal_request (sample_job\<lparr>jArgs := []\<rparr>)) = Inr (sample_job\<lparr>jArgs := []\<rparr>)"
proof -
  have "job_in_range (sample_job\<lparr>jArgs := []\<rparr>)" and "job_utf8 (sample_job\<lparr>jArgs := []\<rparr>)" by code_simp+
  moreover have "length (marshal_request (sample_job\<lparr>jArgs := []\<rparr>)) < 300" by code_simp
  ultimately show ?thesis using job_field_exact [of "sample_job\<lparr>jArgs := []\<rparr>"] by (simp add: maxJobRequestBytes_def)
qed

theorem guest_to_host_witness:
  "\<exists>ag' r e s'. snd (serve_host sample_boot sample_guest_env sample_agent) = ag'
     \<and> readGuest maxGuestMessageBytes unmarshal_message (write_to EventStdout) (write_to EventStderr) (Some emit_artifact)
         (wire marshal_message (agSent ag')) None None 0 0 zero_result (NewSink [] False) = (r, e, s')
     \<and> e = None \<and> skSent s' = [data_event EventStdout ''hi''] \<and> rExitCode r = 3"
proof -
  obtain err ag' where run: "serve_host sample_boot sample_guest_env sample_agent = (err, ag')" by fastforce
  let ?small = "\<lambda>m. message_in_range m \<and> message_utf8 m \<and> mJob m = None \<and> length (mData m) \<le> 50
    \<and> length (type_text (mType m)) + length (mName m) + result_text (mResult m) \<le> 50"
  have "list_all ?small (agSent (snd (serve_host sample_boot sample_guest_env sample_agent)))" by code_simp
  moreover have "?small m \<Longrightarrow> guest_line_ok m" for m by (auto simp: guest_line_ok_def maxArtifactBytes_def)
  ultimately have ok: "list_all guest_line_ok (agSent ag')" by (auto simp: run list_all_iff)
  obtain r e s' where rd: "readGuest maxGuestMessageBytes unmarshal_message (write_to EventStdout) (write_to EventStderr)
      (Some emit_artifact) (wire marshal_message (agSent ag')) None None 0 0 zero_result (NewSink [] False) = (r, e, s')"
    by (metis prod_cases3)
  let ?msg = "(plain_msg MsgJob)\<lparr>mJob := Some sample_job\<rparr>"
  have "beFirst sample_boot = Inr ?msg" "mType ?msg = MsgJob" "mJob ?msg = Some sample_job"
    "agent_ok sample_agent" "agSent sample_agent = []"
    by (simp_all add: sample_boot_def sample_agent_def agent_ok_def plain_msg_def)
  note out = guest_to_host [OF this run ok rd]
  have "guest_events sample_boot sample_job sample_guest_env = [data_event EventStdout ''hi'']"
    and "gExitCode (serve_report sample_boot sample_job sample_guest_env) = 3" by code_simp+
  with out rd run show ?thesis by auto
qed

theorem message_roundtrip_witness:
  "let m = (plain_msg MsgJob)\<lparr>mJob := Some sample_job\<rparr>
   in decode_message (wire marshal_message [m, plain_msg MsgCancel]) = Some (m, CHR 0x0A # wire marshal_message [plain_msg MsgCancel])"
proof -
  have "message_in_range ((plain_msg MsgJob)\<lparr>mJob := Some sample_job\<rparr>)"
    and "message_utf8 ((plain_msg MsgJob)\<lparr>mJob := Some sample_job\<rparr>)" by code_simp+
  with message_roundtrip [of "(plain_msg MsgJob)\<lparr>mJob := Some sample_job\<rparr>" "[plain_msg MsgCancel]"] show ?thesis
    by (simp add: Let_def)
qed

end
