(* ===== verification/TimeText.thy ===== *)
theory TimeText
  imports Json "HOL-Library.Monad_Syntax"
begin

text \<open>
  What the programs use of package \<^verbatim>\<open>time\<close> in JSON texts: a UTC instant written as RFC 3339 with nanoseconds, as
  \<^verbatim>\<open>Time.MarshalJSON\<close> does, and the parser of \<^verbatim>\<open>UnmarshalJSON\<close>.  An instant is the number of nanoseconds since Go's zero
  time, the first of January of the year 1.  (Go parses the raw text between the quotes; here escapes have been read before.)

  The lemmas: what was written is what is read, from the zero time to the end of the year 9999.
\<close>

section \<open>The calendar\<close>

definition leap :: "nat \<Rightarrow> bool" where
  "leap y = (y mod 4 = 0 \<and> (y mod 100 \<noteq> 0 \<or> y mod 400 = 0))"

definition year_days :: "nat \<Rightarrow> nat" where
  "year_days y = (if leap y then 366 else 365)"

definition month_days :: "nat \<Rightarrow> nat list" where
  "month_days y = [31, if leap y then 29 else 28, 31, 30, 31, 30, 31, 31, 30, 31, 30, 31]"

lemma year_days_pos [simp]: "0 < year_days y"
  by (simp add: year_days_def)

text \<open>The year of a day and the days of that year that have passed.\<close>

function split_year :: "nat \<Rightarrow> nat \<Rightarrow> nat \<times> nat" where
  "split_year y n = (if n < year_days y then (y, n) else split_year (Suc y) (n - year_days y))"
  by pat_completeness auto
termination
proof (relation "measure snd", goal_cases)
  case (2 y n)
  then show ?case using year_days_pos [of y] by (simp del: year_days_pos)
qed simp

declare split_year.simps [simp del]

fun split_month :: "nat list \<Rightarrow> nat \<Rightarrow> nat \<times> nat" where
  "split_month [] n = (0, n)"
| "split_month (l # ls) n = (if n < l then (0, n) else case split_month ls (n - l) of (i, r) \<Rightarrow> (Suc i, r))"

fun days_before :: "nat \<Rightarrow> int" where
  "days_before 0 = - 366"
| "days_before (Suc y) = days_before y + int (year_days y)"

definition date_days :: "nat \<Rightarrow> nat \<Rightarrow> nat \<Rightarrow> int" where
  "date_days y m d = days_before y + int (sum_list (take (m - 1) (month_days y))) + int d - 1"

lemma split_year_days:
  "split_year y n = (y', r) \<Longrightarrow> days_before y + int n = days_before y' + int r \<and> r < year_days y' \<and> y \<le> y'"
proof (induction y n rule: split_year.induct)
  case (1 y n)
  then show ?case
    by (cases "n < year_days y") (auto simp: split_year.simps [of y n])
qed

lemma split_month_days:
  "split_month ls n = (i, r) \<Longrightarrow> n < sum_list ls \<Longrightarrow> n = sum_list (take i ls) + r \<and> i < length ls \<and> r < ls ! i"
proof (induction ls n arbitrary: i r rule: split_month.induct)
  case (2 l ls n)
  then show ?case by (cases "split_month ls (n - l)") (fastforce split: if_splits)
qed simp

lemma sum_month_days: "sum_list (month_days y) = year_days y" "length (month_days y) = 12"
  by (simp_all add: month_days_def year_days_def)

lemma month_days_bound: "i < 12 \<Longrightarrow> month_days y ! i \<le> 31"
proof -
  assume "i < 12"
  then have "month_days y ! i \<in> set (month_days y)" by (simp add: sum_month_days)
  then show ?thesis by (auto simp: month_days_def split: if_splits)
qed

text \<open>The date of a day, months and days from 1.\<close>

definition date_of :: "nat \<Rightarrow> nat \<times> nat \<times> nat" where
  "date_of n = (let (y, r) = split_year 1 n; (i, d) = split_month (month_days y) r in (y, i + 1, d + 1))"

lemma date_of_days:
  assumes "date_of n = (y, m, d)"
  shows "date_days y m d = int n \<and> 1 \<le> m \<and> m \<le> 12 \<and> 1 \<le> d \<and> d \<le> month_days y ! (m - 1)"
proof -
  obtain y' r where y: "split_year 1 n = (y', r)" by fastforce
  obtain i e where i: "split_month (month_days y') r = (i, e)" by fastforce
  have eq: "y' = y" "m = i + 1" "d = e + 1" using assms y i by (auto simp: date_of_def)
  have "days_before 1 = 0" by (simp add: year_days_def leap_def)
  with split_year_days [OF y] have "int n = days_before y + int r" "r < year_days y" using eq by auto
  with split_month_days [OF i] show ?thesis using eq by (auto simp: sum_month_days date_days_def)
qed

section \<open>Digits\<close>

definition pad :: "nat \<Rightarrow> nat \<Rightarrow> string" where
  "pad w n = replicate (w - length (dec n)) CHR ''0'' @ dec n"

definition digits :: "nat \<Rightarrow> string \<Rightarrow> (nat \<times> string) option" where
  "digits w s = (if w \<le> length s \<and> list_all is_digit (take w s) then Some (digits_val (take w s), drop w s) else None)"

lemma digits_val_zeros: "digits_val (replicate k CHR ''0'' @ s) = digits_val s"
proof -
  have "foldl (\<lambda>acc c. 10 * acc + (of_char c - 48)) (0 :: nat) (replicate k CHR ''0'') = 0" by (induction k) simp_all
  then show ?thesis by (simp add: digits_val_def)
qed

lemma pad_digits: "list_all is_digit (pad w n)" "digits_val (pad w n) = n"
  using dec_digits [of n] by (auto simp: pad_def digits_val_zeros list_all_iff is_digit_def)

lemma pad_length: "n < 10 ^ w \<Longrightarrow> 0 < w \<Longrightarrow> length (pad w n) = w"
  using dec_length [of n w] by (simp add: pad_def)

lemma digits_pad: "n < 10 ^ w \<Longrightarrow> 0 < w \<Longrightarrow> digits w (pad w n @ s) = Some (n, s)"
  using pad_digits [of w n] by (simp add: digits_def pad_length)

section \<open>Texts\<close>

definition fraction :: "nat \<Rightarrow> string" where
  "fraction ns = (if ns = 0 then [] else CHR ''.'' # TrimRight CHR ''0'' (pad 9 ns))"

definition time_text :: "int \<Rightarrow> string" where
  "time_text t =
     (let secs = nat t div 1000000000; (y, m, d) = date_of (secs div 86400); sod = secs mod 86400
      in pad 4 y @ CHR ''-'' # pad 2 m @ CHR ''-'' # pad 2 d @ CHR ''T'' # pad 2 (sod div 3600)
         @ CHR '':'' # pad 2 (sod div 60 mod 60) @ CHR '':'' # pad 2 (sod mod 60)
         @ fraction (nat t mod 1000000000) @ ''Z'')"

fun lit :: "char \<Rightarrow> string \<Rightarrow> string option" where
  "lit c (x # s) = (if x = c then Some s else None)"
| "lit c [] = None"

definition parse_fraction :: "string \<Rightarrow> (nat \<times> string) option" where
  "parse_fraction s =
     (case lit CHR ''.'' s of
        None \<Rightarrow> Some (0, s)
      | Some t \<Rightarrow>
          (let ds = takeWhile is_digit t
           in if ds = [] then None else Some (digits_val (take 9 (ds @ replicate 9 CHR ''0'')), dropWhile is_digit t)))"

definition parse_zone :: "string \<Rightarrow> int option" where
  "parse_zone s =
     (if s = ''Z'' then Some 0
      else do {
        (h, s1) \<leftarrow> digits 2 (tl s);
        s2 \<leftarrow> lit CHR '':'' s1;
        (m, s3) \<leftarrow> digits 2 s2;
        if h < 24 \<and> m < 60 \<and> s3 = [] \<and> hd s \<in> set ''+-''
        then Some ((if hd s = CHR ''-'' then - 1 else 1) * int (h * 3600 + m * 60)) else None
      })"

definition parse_time :: "string \<Rightarrow> int option" where
  "parse_time s =
     do {
       (y, s1) \<leftarrow> digits 4 s; s2 \<leftarrow> lit CHR ''-'' s1;
       (m, s3) \<leftarrow> digits 2 s2; s4 \<leftarrow> lit CHR ''-'' s3;
       (d, s5) \<leftarrow> digits 2 s4; s6 \<leftarrow> lit CHR ''T'' s5;
       (h, s7) \<leftarrow> digits 2 s6; s8 \<leftarrow> lit CHR '':'' s7;
       (mi, s9) \<leftarrow> digits 2 s8; s10 \<leftarrow> lit CHR '':'' s9;
       (sec, s11) \<leftarrow> digits 2 s10;
       (ns, s12) \<leftarrow> parse_fraction s11;
       off \<leftarrow> parse_zone s12;
       if 1 \<le> m \<and> m \<le> 12 \<and> 1 \<le> d \<and> d \<le> month_days y ! (m - 1) \<and> h < 24 \<and> mi < 60 \<and> sec < 60
       then Some ((date_days y m d * 86400 + int (h * 3600 + mi * 60 + sec) - off) * 1000000000 + int ns) else None
     }"

text \<open>The last instant that can be written is in the year 9999.\<close>

definition time_ok :: "int \<Rightarrow> bool" where
  "time_ok t = (0 \<le> t \<and> fst (date_of (nat t div 1000000000 div 86400)) \<le> 9999)"

lemma TrimRight_zeros: "\<exists>k. s = TrimRight c s @ replicate k c"
proof -
  have "rev s = takeWhile (\<lambda>x. x = c) (rev s) @ dropWhile (\<lambda>x. x = c) (rev s)" by simp
  then have "s = TrimRight c s @ rev (takeWhile (\<lambda>x. x = c) (rev s))" unfolding TrimRight_def by (metis rev_append rev_rev_ident)
  moreover have "takeWhile (\<lambda>x. x = c) (rev s) = replicate (length (takeWhile (\<lambda>x. x = c) (rev s))) c"
    by (intro replicate_eqI) (auto dest: set_takeWhileD)
  ultimately show ?thesis by (metis rev_replicate)
qed

lemma parse_fraction_fraction:
  assumes "ns < 1000000000"
  shows "parse_fraction (fraction ns @ ''Z'') = Some (ns, ''Z'')"
proof (cases "ns = 0")
  case True
  then show ?thesis by (simp add: fraction_def parse_fraction_def)
next
  case False
  let ?t = "TrimRight CHR ''0'' (pad 9 ns)"
  obtain k where k: "pad 9 ns = ?t @ replicate k CHR ''0''" using TrimRight_zeros by blast
  have len: "length (pad 9 ns) = 9" using assms by (intro pad_length) simp_all
  have dig: "list_all is_digit ?t" using pad_digits(1) [of 9 ns] k by (metis list_all_append)
  have "?t \<noteq> []" using k pad_digits(2) [of 9 ns] False digits_val_zeros [of k "[]"] by (auto simp: digits_val_def)
  moreover have "take 9 (?t @ replicate 9 CHR ''0'') = pad 9 ns"
  proof -
    have "length ?t + k = 9" using len k by (metis length_append length_replicate)
    then have "take 9 (?t @ replicate 9 CHR ''0'') = ?t @ replicate k CHR ''0''" by (simp add: take_replicate min_def)
    with k show ?thesis by simp
  qed
  moreover have "takeWhile is_digit (?t @ ''Z'') = ?t" "dropWhile is_digit (?t @ ''Z'') = ''Z''"
    using dig by (auto simp: list_all_iff takeWhile_append dropWhile_append is_digit_def)
  ultimately show ?thesis using False pad_digits(2) [of 9 ns] by (simp add: fraction_def parse_fraction_def)
qed

lemma clock_sum: "s div 3600 * 3600 + s div 60 mod 60 * 60 + s mod 60 = (s :: nat)"
proof -
  have "s div 3600 = s div 60 div 60" by (simp flip: div_mult2_eq)
  moreover have "s div 60 div 60 * 60 + s div 60 mod 60 = s div 60" by simp
  ultimately have "(s div 3600 * 60 + s div 60 mod 60) * 60 + s mod 60 = s" by simp
  then show ?thesis by (simp add: algebra_simps)
qed

lemma parse_time_text:
  assumes "time_ok t"
  shows "parse_time (time_text t) = Some t"
proof -
  let ?secs = "nat t div 1000000000"
  let ?sod = "?secs mod 86400"
  obtain y m d where dt: "date_of (?secs div 86400) = (y, m, d)" by (metis prod_cases3)
  note days = date_of_days [OF dt]
  have y: "y < 10 ^ 4" using assms dt by (simp add: time_ok_def)
  have "month_days y ! (m - 1) \<le> 31" using days by (intro month_days_bound) auto
  then have md: "m < 10 ^ 2" "d < 10 ^ 2" using days by auto
  have sod: "?sod < 86400" by simp
  then have hms: "?sod div 3600 < 24" "?sod div 60 mod 60 < 60" "?sod mod 60 < 60" by (simp_all add: less_mult_imp_div_less)
  have sum: "?sod div 3600 * 3600 + ?sod div 60 mod 60 * 60 + ?sod mod 60 = ?sod" by (rule clock_sum)
  have "parse_zone ''Z'' = Some 0" by (simp add: parse_zone_def)
  then have "parse_time (time_text t) =
      Some ((int (?secs div 86400) * 86400 + int (?sod div 3600 * 3600 + ?sod div 60 mod 60 * 60 + ?sod mod 60)) * 1000000000
        + int (nat t mod 1000000000))"
    using days y md hms by (simp add: parse_time_def time_text_def dt digits_pad parse_fraction_fraction Let_def)
  also have "int (?secs div 86400) * 86400 + int (?sod div 3600 * 3600 + ?sod div 60 mod 60 * 60 + ?sod mod 60) = int ?secs"
    unfolding sum using arg_cong [where f = int, OF div_mult_mod_eq [of ?secs 86400]]
    by (simp only: of_nat_add of_nat_mult of_nat_numeral)
  also have "int ?secs * 1000000000 + int (nat t mod 1000000000) = t"
    using assms arg_cong [where f = int, OF div_mult_mod_eq [of "nat t" 1000000000]]
    by (simp only: of_nat_add of_nat_mult of_nat_numeral time_ok_def int_nat_eq if_True)
  finally show ?thesis .
qed

text \<open>The encoder writes the text as it is.\<close>

lemma digit_plain: "list_all is_digit s \<Longrightarrow> list_all plain s"
  by (auto simp: list_all_iff is_digit_def intro!: plainI)

lemma fraction_plain: "list_all plain (fraction ns)"
proof -
  obtain k where "pad 9 ns = TrimRight CHR ''0'' (pad 9 ns) @ replicate k CHR ''0''" using TrimRight_zeros by blast
  then have "list_all is_digit (TrimRight CHR ''0'' (pad 9 ns))" using pad_digits(1) [of 9 ns] by (metis list_all_append)
  then show ?thesis by (simp add: fraction_def digit_plain plainI)
qed

lemma time_text_plain: "list_all plain (time_text t)"
  by (simp add: time_text_def Let_def digit_plain pad_digits fraction_plain plainI split: prod.split)

end
