(* ===== verification/EventWire.thy ===== *)
theory EventWire
  imports TimeText Protocol
begin

text \<open>
  The event stream as bytes: \<^verbatim>\<open>Sink.Emit\<close> writes one JSON line per event (\<^verbatim>\<open>job.Event\<close>, \<^verbatim>\<open>job.Result\<close> and \<^verbatim>\<open>job.Failure\<close> of
  \<^verbatim>\<open>internal/job/model.go\<close>), the loop of the client's \<^verbatim>\<open>Run\<close> decodes values from the response body until it ends.

  The theorem: wherever the bytes are cut, the client decodes a prefix of the events and then sees the end or an error;
  an event is never decoded from half of its text.  So the transport of \<open>Client\<close>, which delivers a prefix of the
  events, covers every transport of bytes.
\<close>

section \<open>The structs\<close>

definition run_result_json :: "job_result \<Rightarrow> json" where
  "run_result_json r =
     JObj ([(''worker'', JStr (rWorker r)), (''started_at'', JStr (time_text (rStartedAt r))),
            (''ended_at'', JStr (time_text (rEndedAt r))), (''duration_ms'', JInt (rDurationMillis r)),
            (''exit_code'', JInt (rExitCode r))]
       @ omitempty (rPeakMemoryBytes r = 0) ''peak_memory_bytes'' (JInt (rPeakMemoryBytes r))
       @ omitempty (rCPUTimeMillis r = 0) ''cpu_time_ms'' (JInt (rCPUTimeMillis r))
       @ [(''bytes_uploaded'', JInt (rBytesUploaded r)), (''bytes_downloaded'', JInt (rBytesDownloaded r)),
          (''termination_reason'', JStr (rTerminationReason r))])"

definition failure_json :: "failure \<Rightarrow> json" where
  "failure_json f = JObj [(''code'', JStr (fCode f)), (''message'', JStr (fMessage f))]"

definition event_text :: "event_type \<Rightarrow> string" where
  "event_text t =
     (case t of
        EventStatus \<Rightarrow> ''status'' | EventStdout \<Rightarrow> ''stdout'' | EventStderr \<Rightarrow> ''stderr'' | EventArtifact \<Rightarrow> ''artifact''
      | EventCompletion \<Rightarrow> ''completion'' | EventFailure \<Rightarrow> ''failure'' | EventOther s \<Rightarrow> s)"

definition event_type_of :: "string \<Rightarrow> event_type" where
  "event_type_of s =
     (case find (\<lambda>t. event_text t = s) [EventStatus, EventStdout, EventStderr, EventArtifact, EventCompletion, EventFailure] of
        Some t \<Rightarrow> t | None \<Rightarrow> EventOther s)"

definition event_json :: "event \<Rightarrow> json" where
  "event_json ev =
     JObj ([(''type'', JStr (event_text (evType ev)))]
       @ omitempty (evData ev = []) ''data'' (JStr (b64_encode (evData ev)))
       @ omitempty (evName ev = []) ''name'' (JStr (evName ev))
       @ omitempty (evStatus ev = []) ''status'' (JStr (evStatus ev))
       @ (case evResult ev of None \<Rightarrow> [] | Some r \<Rightarrow> [(''result'', run_result_json r)])
       @ (case evFailure ev of None \<Rightarrow> [] | Some f \<Rightarrow> [(''failure'', failure_json f)]))"

text \<open>\<^verbatim>\<open>Time.UnmarshalJSON\<close>.\<close>

definition dec_time :: "int decode" where
  "dec_time v st =
     (case v of
        JStr s \<Rightarrow> (case parse_time s of Some t \<Rightarrow> (t, snd st) | None \<Rightarrow> save_error BadTime st)
      | JNull \<Rightarrow> st
      | _ \<Rightarrow> save_error BadTime st)"

definition dec_run_result :: "job_result decode" where
  "dec_run_result = dec_struct False
     [(''worker'', field rWorker (\<lambda>x. rWorker_update (\<lambda>_. x)) dec_string),
      (''started_at'', field rStartedAt (\<lambda>x. rStartedAt_update (\<lambda>_. x)) dec_time),
      (''ended_at'', field rEndedAt (\<lambda>x. rEndedAt_update (\<lambda>_. x)) dec_time),
      (''duration_ms'', field rDurationMillis (\<lambda>x. rDurationMillis_update (\<lambda>_. x)) dec_int),
      (''exit_code'', field rExitCode (\<lambda>x. rExitCode_update (\<lambda>_. x)) dec_int),
      (''peak_memory_bytes'', field rPeakMemoryBytes (\<lambda>x. rPeakMemoryBytes_update (\<lambda>_. x)) dec_int),
      (''cpu_time_ms'', field rCPUTimeMillis (\<lambda>x. rCPUTimeMillis_update (\<lambda>_. x)) dec_int),
      (''bytes_uploaded'', field rBytesUploaded (\<lambda>x. rBytesUploaded_update (\<lambda>_. x)) dec_int),
      (''bytes_downloaded'', field rBytesDownloaded (\<lambda>x. rBytesDownloaded_update (\<lambda>_. x)) dec_int),
      (''termination_reason'', field rTerminationReason (\<lambda>x. rTerminationReason_update (\<lambda>_. x)) dec_string)]"

definition dec_failure :: "failure decode" where
  "dec_failure = dec_struct False
     [(''code'', field fCode (\<lambda>x. fCode_update (\<lambda>_. x)) dec_string),
      (''message'', field fMessage (\<lambda>x. fMessage_update (\<lambda>_. x)) dec_string)]"

definition zero_failure :: failure where "zero_failure = \<lparr>fCode = [], fMessage = []\<rparr>"

definition zero_event :: event where
  "zero_event = \<lparr>evType = EventOther [], evData = [], evName = [], evStatus = [], evResult = None, evFailure = None\<rparr>"

definition dec_event :: "event decode" where
  "dec_event = dec_struct False
     [(''type'', field (event_text \<circ> evType) (\<lambda>x. evType_update (\<lambda>_. event_type_of x)) dec_string),
      (''data'', field evData (\<lambda>x. evData_update (\<lambda>_. x)) dec_bytes),
      (''name'', field evName (\<lambda>x. evName_update (\<lambda>_. x)) dec_string),
      (''status'', field evStatus (\<lambda>x. evStatus_update (\<lambda>_. x)) dec_string),
      (''result'', field evResult (\<lambda>x. evResult_update (\<lambda>_. x)) (dec_pointer zero_result dec_run_result)),
      (''failure'', field evFailure (\<lambda>x. evFailure_update (\<lambda>_. x)) (dec_pointer zero_failure dec_failure))]"

definition event_wire :: "event list \<Rightarrow> bytes" where
  "event_wire evs = concat (map (\<lambda>ev. encode (event_json ev) @ [CHR 0x0A]) evs)"

text \<open>The decoder of the client over a body that ends or breaks off.\<close>

definition body_end :: "stream_end \<Rightarrow> bytes \<Rightarrow> stream_end" where
  "body_end fin d =
     (case fin of
        StreamErr e \<Rightarrow> StreamErr e
      | StreamEOF \<Rightarrow> if skip_ws d = [] then StreamEOF else StreamErr ''unexpected EOF'')"

function decode_events :: "stream_end \<Rightarrow> bytes \<Rightarrow> event list \<times> stream_end" where
  "decode_events fin d =
     (case first_value d of
        None \<Rightarrow> ([], body_end fin d)
      | Some (v, t) \<Rightarrow>
          (case dec_event v (zero_event, None) of
             (ev, None) \<Rightarrow> (case decode_events fin t of (evs, e) \<Rightarrow> (ev # evs, e))
           | (ev, Some e) \<Rightarrow> ([], StreamErr ''bad event'')))"
  by pat_completeness auto
termination
  by (relation "measure (length \<circ> snd)") (auto simp: first_value_def dest: parse_shortens(1))

declare decode_events.simps [simp del]

section \<open>Round trip of an event\<close>

lemma event_fold_names [simp]:
  "fold_name ''worker'' = ''WORKER''"
  "fold_name ''started_at'' = ''STARTED_AT''"
  "fold_name ''ended_at'' = ''ENDED_AT''"
  "fold_name ''bytes_uploaded'' = ''BYTES_UPLOADED''"
  "fold_name ''bytes_downloaded'' = ''BYTES_DOWNLOADED''"
  "fold_name ''code'' = ''CODE''"
  "fold_name ''status'' = ''STATUS''"
  "fold_name ''failure'' = ''FAILURE''"
  by code_simp+

lemma event_utf8_names [simp]:
  "valid_utf8 ''worker''"
  "valid_utf8 ''started_at''"
  "valid_utf8 ''ended_at''"
  "valid_utf8 ''bytes_uploaded''"
  "valid_utf8 ''bytes_downloaded''"
  "valid_utf8 ''code''"
  "valid_utf8 ''status''"
  "valid_utf8 ''failure''"
  by code_simp+

definition run_result_ok :: "job_result \<Rightarrow> bool" where
  "run_result_ok r = (time_ok (rStartedAt r) \<and> time_ok (rEndedAt r)
     \<and> list_all int64_range [rDurationMillis r, rExitCode r, rPeakMemoryBytes r, rCPUTimeMillis r, rBytesUploaded r, rBytesDownloaded r]
     \<and> valid_utf8 (rWorker r) \<and> valid_utf8 (rTerminationReason r))"

definition event_ok :: "event \<Rightarrow> bool" where
  "event_ok ev = (event_type_of (event_text (evType ev)) = evType ev \<and> valid_utf8 (event_text (evType ev))
     \<and> valid_utf8 (evName ev) \<and> valid_utf8 (evStatus ev) \<and> opt_all run_result_ok (evResult ev)
     \<and> opt_all (\<lambda>f. valid_utf8 (fCode f) \<and> valid_utf8 (fMessage f)) (evFailure ev))"

lemma dec_time_text [simp]: "time_ok t \<Longrightarrow> dec_time (JStr (time_text t)) st = (t, snd st)"
  by (simp add: dec_time_def parse_time_text)

lemma dec_run_result_json: "run_result_ok r \<Longrightarrow> dec_run_result (run_result_json r) (zero_result, e) = (r, e)"
  by (simp add: dec_run_result_def run_result_json_def field_def run_result_ok_def dec_members_omitempty zero_result_def)

lemma dec_failure_json: "dec_failure (failure_json f) st = (f, snd st)"
  by (simp add: dec_failure_def failure_json_def field_def)

lemma event_json_not_null: "run_result_json r \<noteq> JNull" "failure_json f \<noteq> JNull"
  by (simp_all add: run_result_json_def failure_json_def)

lemma dec_event_json: "event_ok ev \<Longrightarrow> dec_event (event_json ev) (zero_event, e) = (ev, e)"
  by (cases "evResult ev"; cases "evFailure ev")
    (simp_all add: dec_event_def event_json_def field_def event_ok_def dec_members_omitempty zero_event_def
      dec_pointer_def dec_run_result_json dec_failure_json event_json_not_null)

lemma run_result_json_ok: "json_ok (run_result_json r) \<and> jdepth (run_result_json r) \<le> 1"
  by (simp add: run_result_json_def omitempty_def)

lemma failure_json_ok: "json_ok (failure_json f) \<and> jdepth (failure_json f) \<le> 1"
  by (simp add: failure_json_def)

lemma event_json_ok: "json_ok (event_json ev) \<and> jdepth (event_json ev) \<le> maxNestingDepth"
  using run_result_json_ok [of "the (evResult ev)"] failure_json_ok [of "the (evFailure ev)"]
  by (cases "evResult ev"; cases "evFailure ev") (simp_all add: event_json_def omitempty_def maxNestingDepth_def)

lemma json_utf8_JInt [simp]: "json_utf8 (JInt i)"
  by (simp add: JInt_def)

lemma clean_event_json: "event_ok ev \<Longrightarrow> clean (event_json ev) = event_json ev"
  by (rule clean_id, cases "evResult ev"; cases "evFailure ev")
    (simp_all add: event_json_def event_ok_def omitempty_def plain_utf8 b64_encode_plain run_result_json_def run_result_ok_def
      failure_json_def time_text_plain)

section \<open>A stream that is cut\<close>

lemma first_value_newline: "first_value (CHR 0x0A # s) = first_value s"
proof -
  have "skip_ws (CHR 0x0A # s) = skip_ws s" by (simp add: skip_ws_def is_ws_def)
  then have "parse_value d (Suc n) (CHR 0x0A # s) = parse_value d (Suc n) s" for d n by (simp add: parse_value.simps(2))
  then show ?thesis
    using parse_fuel(1) [of s "Suc (2 * length s + 2)" "2 * length s + 1" maxNestingDepth] by (simp add: first_value_def)
qed

lemma body_end_newline: "body_end fin (CHR 0x0A # s) = body_end fin s"
  by (simp add: body_end_def skip_ws_def is_ws_def split: stream_end.split)

lemma decode_events_newline: "decode_events fin (CHR 0x0A # s) = decode_events fin s"
  unfolding decode_events.simps [of fin "CHR 0x0A # s"] decode_events.simps [of fin s] first_value_newline body_end_newline ..

lemma decode_events_Nil: "decode_events fin [] = ([], fin)"
  by (simp add: decode_events.simps [of fin "[]"] first_value_def parse_value.simps(2) body_end_def skip_ws_def split: stream_end.split)

lemma decode_events_cut:
  assumes "k < length (encode (event_json ev))" and "k \<noteq> 0"
  shows "\<exists>fin'. decode_events fin (take k (encode (event_json ev))) = ([], fin')"
proof -
  obtain ms where ms: "event_json ev = JObj ms" by (simp add: event_json_def)
  have "first_value (take k (encode (event_json ev))) = None"
    unfolding first_value_def ms by (rule parse_prefix) (use assms event_json_ok [of ev] ms in simp_all)
  then show ?thesis by (simp add: decode_events.simps)
qed

lemma decode_events_event:
  assumes "event_ok ev" and "rest = [] \<or> hd rest = CHR 0x0A"
  shows "decode_events fin (encode (event_json ev) @ rest) = (case decode_events fin rest of (evs, e) \<Rightarrow> (ev # evs, e))"
proof -
  have "num_end rest" using assms(2) by (auto simp: num_end_def num_char_def is_digit_def)
  then have "first_value (encode (event_json ev) @ rest) = Some (event_json ev, rest)"
    using first_value_encode [of "event_json ev" rest] event_json_ok [of ev] clean_event_json [OF assms(1)] by simp
  then show ?thesis by (simp add: decode_events.simps [of fin "encode (event_json ev) @ rest"] dec_event_json [OF assms(1)])
qed

lemma decode_events_prefix:
  "list_all event_ok evs \<Longrightarrow> \<exists>n fin'. decode_events fin (take k (event_wire evs)) = (take n evs, fin')
    \<and> (\<forall>j \<le> length evs. length (event_wire (take j evs)) \<le> k \<longrightarrow> j \<le> n)
    \<and> (length (event_wire evs) \<le> k \<longrightarrow> fin' = fin)"
proof (induction evs arbitrary: k)
  case Nil
  then show ?case by (simp add: event_wire_def decode_events_Nil)
next
  case (Cons ev evs)
  let ?e = "encode (event_json ev)"
  have wire: "event_wire (ev # evs) = ?e @ CHR 0x0A # event_wire evs" by (simp add: event_wire_def)
  have wj: "length (event_wire (take (Suc j) (ev # evs))) = length ?e + 1 + length (event_wire (take j evs))" for j
    by (simp add: event_wire_def)
  consider (cut) "k < length ?e" | (line) "k = length ?e" | (more) i where "k = length ?e + Suc i"
    by (metis add_Suc_right add.right_neutral less_imp_Suc_add linorder_neqE_nat)
  then show ?case
  proof cases
    case cut
    then obtain fin' where f: "decode_events fin (take k ?e) = ([], fin')"
      using decode_events_cut [of k ev fin] decode_events_Nil [of fin] by (cases "k = 0") auto
    moreover have "j \<le> 0" if "length (event_wire (take j (ev # evs))) \<le> k" for j
      using that wj [of "j - 1"] cut by (cases j) simp_all
    ultimately show ?thesis using cut by (intro exI [of _ 0] exI [of _ fin']) (simp add: wire)
  next
    case line
    have "decode_events fin (take k (event_wire (ev # evs))) = ([ev], fin)"
      using decode_events_event [of ev "[]" fin] Cons.prems line by (simp add: wire decode_events_Nil)
    moreover have "j \<le> 1" if "length (event_wire (take j (ev # evs))) \<le> k" for j
      using that wj [of "j - 1"] line by (cases j) simp_all
    ultimately show ?thesis using line by (intro exI [of _ 1] exI [of _ fin]) (simp add: wire)
  next
    case more
    have ok: "list_all event_ok evs" using Cons.prems by simp
    from Cons.IH [OF ok, of i] obtain n fin' where ih: "decode_events fin (take i (event_wire evs)) = (take n evs, fin')"
      "\<forall>j \<le> length evs. length (event_wire (take j evs)) \<le> i \<longrightarrow> j \<le> n" "length (event_wire evs) \<le> i \<longrightarrow> fin' = fin"
      by blast
    have "decode_events fin (take k (event_wire (ev # evs))) = (take (Suc n) (ev # evs), fin')"
      using decode_events_event [of ev "CHR 0x0A # take i (event_wire evs)" fin] Cons.prems more ih(1)
      by (simp add: wire decode_events_newline)
    moreover have "j \<le> Suc n" if "j \<le> length (ev # evs)" "length (event_wire (take j (ev # evs))) \<le> k" for j
      using that wj [of "j - 1"] more ih(2) by (cases j) simp_all
    ultimately show ?thesis using ih(3) more by (intro exI [of _ "Suc n"] exI [of _ fin']) (simp add: wire)
  qed
qed

section \<open>Properties\<close>

text \<open>A transport that carries \<open>k\<close> bytes of the body.\<close>

definition deliver_bytes :: "(err_text \<Rightarrow> string) \<Rightarrow> nat \<Rightarrow> stream_end \<Rightarrow> response \<Rightarrow> answer" where
  "deliver_bytes msgtext k fin r =
     (case r of
        Stream evs \<Rightarrow>
          (case decode_events fin (take k (event_wire evs)) of
             (got, e) \<Rightarrow> (deliver msgtext 0 fin r)\<lparr>anEvents := got, anEnd := e\<rparr>)
      | _ \<Rightarrow> deliver msgtext 0 fin r)"

text \<open>C18. A cut stream is a prefix of its events.  Let the worker write its events as JSON lines and let the transport break
  off after any number of bytes, in the middle of an event, of a rune or of an escape.  What the client decodes is a
  prefix of the worker's events followed by an end or an error: no event is made up from half of its text, and every event
  whose line has arrived is decoded.  When all bytes arrive all events do, and the end is that of the transport.\<close>

theorem stream_cut_refines:
  assumes "list_all event_ok evs"
  shows "\<exists>n fin'. deliver_bytes msgtext k fin (Stream evs) = deliver msgtext n fin' (Stream evs)
    \<and> (\<forall>j \<le> length evs. length (event_wire (take j evs)) \<le> k \<longrightarrow> j \<le> n)
    \<and> (length (event_wire evs) \<le> k \<longrightarrow> fin' = fin)"
proof -
  from decode_events_prefix [OF assms, of fin k] obtain n fin' where
    d: "decode_events fin (take k (event_wire evs)) = (take n evs, fin')"
    and rest: "\<forall>j \<le> length evs. length (event_wire (take j evs)) \<le> k \<longrightarrow> j \<le> n" "length (event_wire evs) \<le> k \<longrightarrow> fin' = fin"
    by blast
  have "deliver_bytes msgtext k fin (Stream evs) = deliver msgtext n fin' (Stream evs)"
    by (simp add: deliver_bytes_def deliver_def d)
  with rest show ?thesis by blast
qed

section \<open>Witnesses\<close>

theorem stream_cut_refines_witness:
  "\<exists>n. anEvents (deliver_bytes (\<lambda>_. []) 40 StreamEOF (Stream [status_event ''running'', data_event EventStdout ''x''])) =
      take n [status_event ''running'', data_event EventStdout ''x''] \<and> 1 \<le> n"
proof -
  let ?evs = "[status_event ''running'', data_event EventStdout ''x'']"
  have "list_all event_ok ?evs" by code_simp
  from stream_cut_refines [OF this, of "\<lambda>_. []" 40 StreamEOF] obtain n fin' where
    n: "deliver_bytes (\<lambda>_. []) 40 StreamEOF (Stream ?evs) = deliver (\<lambda>_. []) n fin' (Stream ?evs)"
    and j: "\<forall>j \<le> length ?evs. length (event_wire (take j ?evs)) \<le> 40 \<longrightarrow> j \<le> n" by blast
  have "length (event_wire (take 1 ?evs)) \<le> 40" by code_simp
  then have "1 \<le> n" using j by simp
  then show ?thesis using n by (intro exI [of _ n]) (simp add: deliver_def)
qed

end
