(* ===== verification/Cancel.thy ===== *)
theory Cancel
  imports Main
begin

text \<open>
  The goroutines at the end of a run, interleaved.  On the host (\<^verbatim>\<open>Firecracker.Run\<close> from the sending of the job on): the
  main goroutine reads the guest and then kills the VM; a watcher forwards a cancellation to the guest and closes the
  connection when the guest does not answer in time; \<^verbatim>\<open>exec.CommandContext\<close> kills the VM when the context ends.  In the
  guest (\<^verbatim>\<open>runJob\<close> from the start of the process to the collection of its output): the main goroutine waits for the process;
  another kills its group when a cancellation arrives or the context ends.

  What the code and the kernel do is separated from what the environment does (the guest, the job's
  process, the user, the clock of the job), so that the lemmas can say what happens whatever the environment does.
  A write of output to the caller is part of the reading and is taken to return.
\<close>

section \<open>The host\<close>

datatype host_main = Reading | Terminating | Killing | RunReturned

datatype host_watch = Watching | CancelSent | WatchEnded

record host_end =
  heCtx :: bool      \<comment> \<open>the context has ended\<close>
  heVM :: bool       \<comment> \<open>the VM process runs; \<^verbatim>\<open>processExited\<close> is closed when it does not\<close>
  heConn :: bool     \<comment> \<open>the connection is open on this side\<close>
  heMain :: host_main
  heWatch :: host_watch
  heTold :: bool     \<comment> \<open>a cancel message was written while the VM ran\<close>

definition host_start :: host_end where
  "host_start = \<lparr>heCtx = False, heVM = True, heConn = True, heMain = Reading, heWatch = Watching, heTold = False\<rparr>"

text \<open>A cancellation or the deadline; the VM exits; the guest's result, a bad line or a failing write ends the reading.\<close>

inductive host_env :: "host_end \<Rightarrow> host_end \<Rightarrow> bool" where
  ctx_ends: "host_env s (s\<lparr>heCtx := True\<rparr>)"
| vm_exits: "host_env s (s\<lparr>heVM := False\<rparr>)"
| guest_result: "heMain s = Reading \<Longrightarrow> host_env s (s\<lparr>heMain := Terminating\<rparr>)"

inductive host_step :: "host_end \<Rightarrow> host_end \<Rightarrow> bool" where
  command_context: "heCtx s \<Longrightarrow> heVM s \<Longrightarrow> host_step s (s\<lparr>heVM := False\<rparr>)"
| read_fails: "heMain s = Reading \<Longrightarrow> \<not> heVM s \<or> \<not> heConn s \<Longrightarrow> host_step s (s\<lparr>heMain := Terminating\<rparr>)"
| grace_over: "heMain s = Terminating \<Longrightarrow> heVM s \<Longrightarrow> host_step s (s\<lparr>heMain := Killing\<rparr>)"
| sigkill: "heMain s = Killing \<Longrightarrow> heVM s \<Longrightarrow> host_step s (s\<lparr>heVM := False\<rparr>)"
| returns: "heMain s \<in> {Terminating, Killing} \<Longrightarrow> \<not> heVM s \<Longrightarrow> host_step s (s\<lparr>heMain := RunReturned, heConn := False\<rparr>)"
| cancel: "heWatch s = Watching \<Longrightarrow> heCtx s \<Longrightarrow> host_step s (s\<lparr>heWatch := CancelSent, heTold := heVM s \<and> heConn s\<rparr>)"
| exited: "heWatch s = Watching \<Longrightarrow> \<not> heVM s \<Longrightarrow> host_step s (s\<lparr>heWatch := WatchEnded\<rparr>)"
| read_done: "heWatch s = CancelSent \<Longrightarrow> heMain s \<noteq> Reading \<Longrightarrow> host_step s (s\<lparr>heWatch := WatchEnded\<rparr>)"
| reply_grace_over: "heWatch s = CancelSent \<Longrightarrow> host_step s (s\<lparr>heWatch := WatchEnded, heConn := False\<rparr>)"

inductive_cases host_envE: "host_env s t"
inductive_cases host_stepE: "host_step s t"

text \<open>Executions with the number of steps of the program in them.\<close>

inductive host_run :: "host_end \<Rightarrow> nat \<Rightarrow> host_end \<Rightarrow> bool" for s0 where
  none: "host_run s0 0 s0"
| env: "host_run s0 n s \<Longrightarrow> host_env s t \<Longrightarrow> host_run s0 n t"
| prog: "host_run s0 n s \<Longrightarrow> host_step s t \<Longrightarrow> host_run s0 (Suc n) t"

definition host_finished :: "host_end \<Rightarrow> bool" where
  "host_finished s = (heMain s = RunReturned \<and> heWatch s = WatchEnded \<and> \<not> heVM s \<and> \<not> heConn s)"

fun main_rank :: "host_main \<Rightarrow> nat" where
  "main_rank Reading = 3" | "main_rank Terminating = 2" | "main_rank Killing = 1" | "main_rank RunReturned = 0"

fun watch_rank :: "host_watch \<Rightarrow> nat" where
  "watch_rank Watching = 2" | "watch_rank CancelSent = 1" | "watch_rank WatchEnded = 0"

definition host_rank :: "host_end \<Rightarrow> nat" where
  "host_rank s = (if heVM s then 1 else 0) + main_rank (heMain s) + watch_rank (heWatch s)"

definition host_inv :: "host_end \<Rightarrow> bool" where
  "host_inv s = ((heMain s = RunReturned \<longrightarrow> \<not> heVM s \<and> \<not> heConn s) \<and> (heWatch s = CancelSent \<longrightarrow> heCtx s) \<and> (heTold s \<longrightarrow> heCtx s))"

lemma host_env_rank: "host_env s t \<Longrightarrow> host_rank t \<le> host_rank s"
  by (auto simp: host_rank_def elim!: host_envE)

lemma host_step_rank: "host_step s t \<Longrightarrow> host_rank t < host_rank s"
  by (auto simp: host_rank_def elim!: host_stepE)

lemma host_run_rank: "host_run s n t \<Longrightarrow> n + host_rank t \<le> host_rank s"
  by (induction rule: host_run.induct) (auto dest: host_env_rank host_step_rank)

lemma host_inv_env: "host_env s t \<Longrightarrow> host_inv s \<Longrightarrow> host_inv t"
  by (induction rule: host_env.induct) (simp_all add: host_inv_def)

lemma host_inv_step: "host_step s t \<Longrightarrow> host_inv s \<Longrightarrow> host_inv t"
  by (induction rule: host_step.induct) (auto simp: host_inv_def)

lemma host_inv_run: "host_run s n t \<Longrightarrow> host_inv s \<Longrightarrow> host_inv t"
  by (induction rule: host_run.induct) (auto dest: host_inv_env host_inv_step)

text \<open>Until all is done the program can go on, if the context has ended or the reading has.\<close>

lemma host_progress:
  assumes "host_inv s" and "heCtx s \<or> heMain s \<noteq> Reading" and "\<not> host_finished s"
  shows "\<exists>t. host_step s t"
proof (cases "heVM s")
  case True
  then show ?thesis using assms by (cases "heMain s") (auto simp: host_inv_def intro: host_step.intros)
next
  case False
  show ?thesis
  proof (cases "heMain s = RunReturned")
    case True
    then show ?thesis using assms False by (cases "heWatch s") (auto simp: host_inv_def host_finished_def intro: host_step.intros)
  next
    case main: False
    then show ?thesis using False by (cases "heMain s") (auto intro: host_step.intros)
  qed
qed

text \<open>C16. A run ends after its cancellation.  In every interleaving of the main goroutine, the watcher, the kill of
  \<^verbatim>\<open>CommandContext\<close> and anything the guest and the VM do, the program makes at most six steps after the job was sent; and
  once the context or the reading of the guest has ended it is never stuck before \<^verbatim>\<open>Run\<close> has returned, the watcher is
  gone, the VM is dead and the connection closed.  So a guest that ignores the cancellation, keeps the
  connection open and never answers delays the run by the two grace periods only (writes to the caller return).\<close>

theorem cancelled_run_ends:
  assumes "host_run host_start n s"
  shows "n \<le> 6 \<and> (heMain s = RunReturned \<longrightarrow> \<not> heVM s \<and> \<not> heConn s)
    \<and> (heCtx s \<or> heMain s \<noteq> Reading \<longrightarrow> host_finished s \<or> (\<exists>t. host_step s t))"
proof -
  have "host_rank host_start = 6" by (simp add: host_rank_def host_start_def)
  then have "n \<le> 6" using host_run_rank [OF assms] by simp
  moreover have "host_inv s" by (rule host_inv_run [OF assms]) (simp add: host_inv_def host_start_def)
  ultimately show ?thesis using host_progress [of s] unfolding host_inv_def [of s] by blast
qed

text \<open>The cancel message need not reach the guest: the kill of \<^verbatim>\<open>CommandContext\<close> may come first, and then the run ends with
  the guest never told.\<close>

lemma cancel_message_lost: "\<exists>n s. host_run host_start n s \<and> heCtx s \<and> host_finished s \<and> \<not> heTold s"
proof -
  let ?s1 = "host_start\<lparr>heCtx := True\<rparr>"
  let ?s2 = "?s1\<lparr>heVM := False\<rparr>"
  let ?s3 = "?s2\<lparr>heWatch := WatchEnded\<rparr>"
  let ?s4 = "?s3\<lparr>heMain := Terminating\<rparr>"
  let ?s5 = "?s4\<lparr>heMain := RunReturned, heConn := False\<rparr>"
  have "host_run host_start 0 ?s1" by (rule host_run.env [OF host_run.none ctx_ends])
  then have "host_run host_start (Suc 0) ?s2" by (rule host_run.prog [OF _ command_context]) (simp_all add: host_start_def)
  then have "host_run host_start (Suc (Suc 0)) ?s3" by (rule host_run.prog [OF _ exited]) (simp_all add: host_start_def)
  then have "host_run host_start (Suc (Suc (Suc 0))) ?s4" by (rule host_run.prog [OF _ read_fails]) (simp_all add: host_start_def)
  then have "host_run host_start (Suc (Suc (Suc (Suc 0)))) ?s5" by (rule host_run.prog [OF _ returns]) (simp_all add: host_start_def)
  moreover have "host_finished ?s5" "heCtx ?s5" "\<not> heTold ?s5" by (simp_all add: host_finished_def host_start_def)
  ultimately show ?thesis by blast
qed

section \<open>The guest\<close>

datatype agent_main = WaitingProcess | CopyingOutput | Reaping

record agent_end =
  aeCancel :: bool   \<comment> \<open>\<^verbatim>\<open>cancelCh\<close> is closed\<close>
  aeCtx :: bool      \<comment> \<open>the timeout of the job has passed\<close>
  aeProc :: bool     \<comment> \<open>the process runs\<close>
  aeKiller :: bool   \<comment> \<open>the killing goroutine waits\<close>
  aeKilled :: bool   \<comment> \<open>\<^verbatim>\<open>killGroup\<close> was called\<close>
  aeMain :: agent_main

definition agent_start :: agent_end where
  "agent_start = \<lparr>aeCancel = False, aeCtx = False, aeProc = True, aeKiller = True, aeKilled = False, aeMain = WaitingProcess\<rparr>"

inductive agent_env :: "agent_end \<Rightarrow> agent_end \<Rightarrow> bool" where
  cancel_arrives: "agent_env s (s\<lparr>aeCancel := True\<rparr>)"
| timeout: "agent_env s (s\<lparr>aeCtx := True\<rparr>)"
| process_exits: "agent_env s (s\<lparr>aeProc := False\<rparr>)"

inductive agent_step :: "agent_end \<Rightarrow> agent_end \<Rightarrow> bool" where
  killGroup: "aeKiller s \<Longrightarrow> aeCancel s \<or> aeCtx s \<Longrightarrow>
    agent_step s (s\<lparr>aeKiller := False, aeKilled := True, aeProc := False\<rparr>)"
| wait_returns: "aeMain s = WaitingProcess \<Longrightarrow> \<not> aeProc s \<Longrightarrow> agent_step s (s\<lparr>aeMain := CopyingOutput\<rparr>)"
| pipes_closed: "aeMain s = CopyingOutput \<Longrightarrow> agent_step s (s\<lparr>aeMain := Reaping\<rparr>)"

inductive agent_run :: "agent_end \<Rightarrow> bool" where
  start: "agent_run agent_start"
| env: "agent_run s \<Longrightarrow> agent_env s t \<Longrightarrow> agent_run t"
| prog: "agent_run s \<Longrightarrow> agent_step s t \<Longrightarrow> agent_run t"

definition agent_inv :: "agent_end \<Rightarrow> bool" where
  "agent_inv s = ((aeKilled s \<longrightarrow> (aeCancel s \<or> aeCtx s) \<and> \<not> aeProc s) \<and> (\<not> aeKiller s \<longrightarrow> aeKilled s)
     \<and> (aeMain s \<noteq> WaitingProcess \<longrightarrow> \<not> aeProc s))"

lemma agent_inv_env: "agent_env s t \<Longrightarrow> agent_inv s \<Longrightarrow> agent_inv t"
  by (induction rule: agent_env.induct) (auto simp: agent_inv_def)

lemma agent_inv_step: "agent_step s t \<Longrightarrow> agent_inv s \<Longrightarrow> agent_inv t"
  by (induction rule: agent_step.induct) (auto simp: agent_inv_def)

lemma agent_inv_start: "agent_inv agent_start"
  by (simp add: agent_inv_def agent_start_def)

lemma agent_inv_run: "agent_run s \<Longrightarrow> agent_inv s"
  by (induction rule: agent_run.induct) (auto intro: agent_inv_start dest: agent_inv_env agent_inv_step)

text \<open>The process is killed only after a cancellation or the timeout; output is collected only from a process that has ended; and
  after a cancellation or the timeout the agent is never stuck waiting for the process.\<close>

theorem cancelled_job_killed:
  assumes "agent_run s"
  shows "(aeKilled s \<longrightarrow> aeCancel s \<or> aeCtx s) \<and> (aeMain s \<noteq> WaitingProcess \<longrightarrow> \<not> aeProc s)
    \<and> (aeCancel s \<or> aeCtx s \<longrightarrow> aeMain s = Reaping \<or> (\<exists>t. agent_step s t))"
proof -
  have inv: "agent_inv s" using assms by (rule agent_inv_run)
  have "\<exists>t. agent_step s t" if c: "aeCancel s \<or> aeCtx s" and "aeMain s \<noteq> Reaping"
  proof (cases "aeKiller s")
    case True
    then show ?thesis using killGroup [OF _ c] by blast
  next
    case False
    then have "\<not> aeProc s" using inv by (auto simp: agent_inv_def)
    then show ?thesis using that(2) by (cases "aeMain s") (auto intro: agent_step.intros)
  qed
  with inv show ?thesis by (auto simp: agent_inv_def)
qed

section \<open>Witnesses\<close>

theorem cancelled_run_ends_witness: "\<exists>t. host_step (host_start\<lparr>heCtx := True\<rparr>) t"
proof -
  have "host_run host_start 0 (host_start\<lparr>heCtx := True\<rparr>)" by (rule host_run.env [OF host_run.none ctx_ends])
  from cancelled_run_ends [OF this] show ?thesis by (simp add: host_finished_def host_start_def)
qed

end
